(* ===== verification/Bunix_Prelude.thy ===== *)
theory Bunix_Prelude
  imports Main "HOL-Library.Word"
begin

text \<open>
  Shared vocabulary of the development: the machine integer types of
  \<^verbatim>\<open>kernel/types.h\<close>, the alignment helpers that \<^verbatim>\<open>pmm.c\<close>, \<^verbatim>\<open>slab.c\<close>,
  \<^verbatim>\<open>vm.c\<close> and \<^verbatim>\<open>elf.c\<close> each carry a copy of, half-open ranges of machine
  addresses, page-by-page loops, and generic facts on lists and words that the
  component theories share.
\<close>

unbundle bit_operations_syntax

section \<open>Machine integers\<close>

type_synonym u8 = "8 word"
type_synonym u16 = "16 word"
type_synonym u32 = "32 word"
type_synonym u64 = "64 word"

text \<open>
  A C call that answers 0 on success and a negative value on failure answers a value of
  this type; the third constructor is the positive answer of \<^verbatim>\<open>ipc_try_recv\<close>
  and of similar polling calls.
\<close>

datatype status = OK | ERR | AGAIN

named_theorems word_nat \<open>facts that move a word comparison or operation to \<open>nat\<close>\<close>

declare word_le_nat_alt [word_nat] word_less_nat_alt [word_nat]

lemma unat_lt_64 [simp]: "unat (x :: u64) < 18446744073709551616"
  using unsigned_less [of x, where 'a = nat] by simp

lemma unat_lt_32 [simp]: "unat (x :: u32) < 4294967296"
  using unsigned_less [of x, where 'a = nat] by simp

lemma unat_add_64:
  "unat (a + b :: u64) = (if unat a + unat b < 2 ^ 64 then unat a + unat b
                          else unat a + unat b - 2 ^ 64)"
  by (simp add: unat_plus_if')

lemma no_wrap_iff_64: "a + b < a \<longleftrightarrow> 2 ^ 64 \<le> unat (a :: u64) + unat b"
proof (cases "unat a + unat b < 2 ^ 64")
  case True
  then show ?thesis by (simp add: word_less_nat_alt unat_add_64)
next
  case False
  have "unat b < 2 ^ 64" using unat_lt_64 [of b] by simp
  moreover have "unat (a + b) = unat a + unat b - 2 ^ 64"
    using False by (simp add: unat_add_64)
  ultimately have "unat (a + b) < unat a"
    using False by linarith
  with False show ?thesis by (simp add: word_less_nat_alt)
qed

lemma unat_add_no_wrap_64: "\<not> a + b < (a :: u64) \<Longrightarrow> unat (a + b) = unat a + unat b"
  by (simp add: no_wrap_iff_64 unat_add_64)

lemma unat_inc_64: "unat (a :: u64) < n \<Longrightarrow> n < 2 ^ 64 \<Longrightarrow> unat (a + 1) = Suc (unat a)"
  by (simp add: unat_add_64)

lemma unat_dec_64: "0 < unat (a :: u64) \<Longrightarrow> unat (a - 1) = unat a - 1"
  by (simp add: unat_minus_one unat_gt_0)


section \<open>Lists\<close>

lemma find_append:
  "List.find P (xs @ ys) = (case List.find P xs of None \<Rightarrow> List.find P ys | Some x \<Rightarrow> Some x)"
  by (induction xs) auto

lemma find_skip: "\<forall>x \<in> set xs. \<not> P x \<Longrightarrow> List.find P (xs @ ys) = List.find P ys"
  by (induction xs) auto

lemma find_front: "\<forall>y \<in> set ys. \<not> P y \<Longrightarrow> List.find P (xs @ ys) = List.find P xs"
  by (induction xs) (auto simp: find_None_iff)

lemma map_of_insert_mid:
  "k \<notin> fst ` set xs \<Longrightarrow> map_of (xs @ (k, v) # ys) = (map_of (xs @ ys))(k \<mapsto> v)"
  by (induction xs) (auto simp: fun_eq_iff)

lemma map_of_remove_mid:
  "k \<notin> fst ` set (xs @ ys) \<Longrightarrow> map_of (xs @ ys) = (map_of (xs @ (k, v) # ys))(k := None)"
  using map_of_insert_mid [of k xs v ys] map_of_eq_None_iff [of "xs @ ys" k]
  by (simp add: fun_upd_idem image_Un del: map_of_append)


section \<open>Alignment\<close>

definition align_down :: "u64 \<Rightarrow> u64 \<Rightarrow> u64" where
  "align_down value align = value AND NOT (align - 1)"

definition align_up :: "u64 \<Rightarrow> u64 \<Rightarrow> u64" where
  "align_up value align = (value + align - 1) AND NOT (align - 1)"

text \<open>The page size shared by the frame allocator, the slab allocator and the VM layer
  (\<^verbatim>\<open>PMM_PAGE_SIZE\<close>, \<^verbatim>\<open>VM_PAGE_SIZE\<close>, \<^verbatim>\<open>PAGE_SIZE\<close>).\<close>

abbreviation PAGE_SIZE :: u64 where "PAGE_SIZE \<equiv> 4096"

lemma and_not_mask_word: "(w :: 'a::len word) AND NOT (mask n) = push_bit n (drop_bit n w)"
  by (rule bit_word_eqI) (auto simp: bit_simps)

lemma unat_take_bit_word: "unat (take_bit n (w :: 'a::len word)) = unat w mod 2 ^ n"
  by (simp add: unsigned_take_bit_eq flip: take_bit_eq_mod)

lemma unat_and_not_mask:
  "unat ((w :: 'a::len word) AND NOT (mask n)) = 2 ^ n * (unat w div 2 ^ n)"
proof -
  have eq: "w AND NOT (mask n) = w - take_bit n w"
    by (metis and_not_mask_word add_diff_cancel_right' bits_ident)
  have "take_bit n w \<le> w"
    by (simp add: word_le_nat_alt unat_take_bit_word)
  then show ?thesis
    by (simp add: eq unat_sub unat_take_bit_word minus_mod_eq_mult_div)
qed

lemma unat_align_down_pow2:
  "align = 2 ^ n \<Longrightarrow> unat (align_down v align) = 2 ^ n * (unat v div 2 ^ n)"
  by (simp add: align_down_def unat_and_not_mask flip: mask_eq_exp_minus_1)

lemma unat_align_down [simp]: "unat (align_down v PAGE_SIZE) = 4096 * (unat v div 4096)"
  using unat_align_down_pow2 [of PAGE_SIZE 12 v] by simp

lemma align_up_eq_align_down: "align_up v align = align_down (v + (align - 1)) align"
  by (simp add: align_up_def align_down_def algebra_simps)

text \<open>Evaluation of rounding and of index ranges on concrete values.\<close>

lemma align_down_eval: "align_down v PAGE_SIZE = of_nat (4096 * (unat v div 4096))"
  unfolding unat_align_down [symmetric] by (simp only: of_nat_unat ucast_id)

lemma align_up_eval: "align_up v PAGE_SIZE = of_nat (4096 * (unat (v + 4095) div 4096))"
  by (simp add: align_up_eq_align_down align_down_eval)

lemma upt_eval: "[0..<numeral n] = 0 # [Suc 0..<numeral n]"
  "[Suc 0..<numeral n] = (if 1 < (numeral n :: nat) then Suc 0 # [2..<numeral n] else [])"
  by (simp_all add: upt_rec numeral_2_eq_2)

lemma unat_align_up:
  assumes "unat v \<le> 2 ^ 64 - 4096"
  shows "unat (align_up v PAGE_SIZE) = 4096 * ((unat v + 4095) div 4096)"
proof -
  have "unat (v + 4095) = unat v + 4095"
    using assms by (simp add: unat_add_64)
  then show ?thesis
    by (simp add: align_up_eq_align_down)
qed


section \<open>Page-aligned addresses and page-by-page loops\<close>

definition page_aligned :: "u64 \<Rightarrow> bool" where
  "page_aligned a \<longleftrightarrow> 4096 dvd unat a"

lemma page_aligned_align_down [simp]: "page_aligned (align_down v PAGE_SIZE)"
  by (simp add: page_aligned_def)

lemma page_aligned_align_up [simp]: "page_aligned (align_up v PAGE_SIZE)"
  by (simp add: align_up_eq_align_down)

lemma multiples_apart: "(d :: nat) dvd a \<Longrightarrow> d dvd b \<Longrightarrow> a < b \<Longrightarrow> a + d \<le> b"
  by (metis dvd_diff_nat dvd_imp_le le_diff_conv2 less_imp_le zero_less_diff add.commute)

text \<open>Stepping from one page boundary below another neither wraps nor overshoots.\<close>

lemma page_step:
  assumes "page_aligned s" and "page_aligned e" and "s < e"
  shows "unat (s + PAGE_SIZE) = unat s + 4096"
    and "page_aligned (s + PAGE_SIZE)"
    and "s + PAGE_SIZE \<le> e"
proof -
  have lt: "unat s < unat e"
    using assms(3) by (simp add: word_less_nat_alt)
  have "unat s + 4096 \<le> unat e"
    using assms(1,2) lt unfolding page_aligned_def by (rule multiples_apart)
  moreover have "unat e < 2 ^ 64"
    using unat_lt_64 [of e] by simp
  ultimately have sum: "unat s + 4096 \<le> unat e" and "unat s + 4096 < 2 ^ 64"
    by linarith+
  then show step: "unat (s + PAGE_SIZE) = unat s + 4096"
    by (simp add: unat_add_64)
  with assms(1) show "page_aligned (s + PAGE_SIZE)"
    by (simp add: page_aligned_def)
  from step sum show "s + PAGE_SIZE \<le> e"
    by (simp add: word_le_nat_alt)
qed

text \<open>Induction for the loops \<^verbatim>\<open>for (p = start; p < end; p += PAGE_SIZE)\<close>.\<close>

lemma page_range_induct [consumes 2, case_names stop step]:
  assumes "page_aligned s" and "page_aligned e"
    and stop: "\<And>s. page_aligned s \<Longrightarrow> \<not> s < e \<Longrightarrow> P s"
    and step: "\<And>s. page_aligned s \<Longrightarrow> s < e \<Longrightarrow> unat (s + PAGE_SIZE) = unat s + 4096 \<Longrightarrow>
                   page_aligned (s + PAGE_SIZE) \<Longrightarrow> s + PAGE_SIZE \<le> e \<Longrightarrow>
                   P (s + PAGE_SIZE) \<Longrightarrow> P s"
  shows "P s"
  using assms(1)
proof (induction "unat e - unat s" arbitrary: s rule: less_induct)
  case less
  show ?case
  proof (cases "s < e")
    case False
    then show ?thesis by (rule stop [OF less.prems])
  next
    case True
    note st = page_step [OF less.prems assms(2) True]
    have "unat e - unat (s + PAGE_SIZE) < unat e - unat s"
      using st(1) True by (simp add: word_less_nat_alt)
    then have "P (s + PAGE_SIZE)"
      by (rule less.hyps) (rule st(2))
    then show ?thesis
      by (rule step [OF less.prems True st])
  qed
qed

text \<open>The addresses such a loop visits.\<close>

definition page_range :: "u64 \<Rightarrow> u64 \<Rightarrow> u64 list" where
  "page_range s e = map (\<lambda>i. s + of_nat i * PAGE_SIZE) [0..<(unat e - unat s) div 4096]"

lemma page_range_done: "\<not> s < e \<Longrightarrow> page_range s e = []"
  by (simp add: page_range_def word_less_nat_alt)

lemma page_range_step:
  assumes "page_aligned s" and "page_aligned e" and "s < e"
  shows "page_range s e = s # page_range (s + PAGE_SIZE) e"
proof -
  note st = page_step [OF assms]
  have n: "(unat e - unat s) div 4096 = Suc ((unat e - unat (s + PAGE_SIZE)) div 4096)"
    using st(1,3) by (simp add: word_le_nat_alt)
  have "map (\<lambda>i. s + of_nat i * PAGE_SIZE) [Suc 0..<Suc m] =
        map (\<lambda>i. s + PAGE_SIZE + of_nat i * PAGE_SIZE) [0..<m]" for m
    by (rule nth_equalityI) (simp_all add: algebra_simps nth_append del: upt_Suc)
  moreover have "[0..<Suc m] = 0 # [Suc 0..<Suc m]" for m
    by (simp add: upt_conv_Cons del: upt_Suc)
  ultimately show ?thesis
    unfolding page_range_def n by (simp del: upt_Suc)
qed

lemma set_page_range:
  assumes "page_aligned s" and "page_aligned e"
  shows "set (page_range s e) = {a. page_aligned a \<and> s \<le> a \<and> a < e}"
  using assms
proof (induction rule: page_range_induct)
  case (stop s)
  then show ?case by (auto simp: page_range_done)
next
  case (step s)
  have split: "page_aligned a \<and> s \<le> a \<longleftrightarrow> a = s \<or> (page_aligned a \<and> s + PAGE_SIZE \<le> a)" for a
  proof (cases "s < a")
    case True
    then have "unat s < unat a" by (simp add: word_less_nat_alt)
    then have "page_aligned a \<Longrightarrow> unat s + 4096 \<le> unat a"
      using \<open>page_aligned s\<close> unfolding page_aligned_def by (intro multiples_apart)
    then show ?thesis
      using True step.hyps(3) by (auto simp: word_le_nat_alt)
  next
    case False
    moreover have "s < s + PAGE_SIZE"
      using step.hyps(3) by (simp add: word_less_nat_alt)
    ultimately show ?thesis
      using \<open>page_aligned s\<close> by auto
  qed
  have "set (page_range s e) = insert s {a. page_aligned a \<and> s + PAGE_SIZE \<le> a \<and> a < e}"
    using step.IH by (simp add: page_range_step [OF step.hyps(1) assms(2) step.hyps(2)])
  also have "\<dots> = {a. page_aligned a \<and> s \<le> a \<and> a < e}"
    using split step.hyps(2) by blast
  finally show ?case .
qed

lemma distinct_page_range:
  assumes "page_aligned s" and "page_aligned e"
  shows "distinct (page_range s e)"
  using assms
proof (induction rule: page_range_induct)
  case (stop s)
  then show ?case by (simp add: page_range_done)
next
  case (step s)
  have "s < s + PAGE_SIZE"
    using step by (simp add: word_less_nat_alt)
  then have "s \<notin> set (page_range (s + PAGE_SIZE) e)"
    using step assms(2) by (auto simp: set_page_range)
  with step.IH show ?case
    by (simp add: page_range_step [OF step.hyps(1) assms(2) step.hyps(2)])
qed

lemma length_page_range: "length (page_range s e) = (unat e - unat s) div 4096"
  by (simp add: page_range_def)

text \<open>At most \<open>2 ^ 52\<close> distinct pages exist, so a page count does not wrap.\<close>

lemma aligned_distinct_bound:
  assumes "distinct as" and "\<And>a. a \<in> set as \<Longrightarrow> page_aligned a"
  shows "length as \<le> 2 ^ 52"
proof -
  have "length as = card (set as)"
    using assms(1) by (simp add: distinct_card)
  also have "\<dots> = card ((\<lambda>a. unat a div 4096) ` set as)"
  proof (rule card_image [symmetric], rule inj_onI)
    fix a b assume "a \<in> set as" "b \<in> set as" and "unat a div 4096 = unat b div 4096"
    with assms(2) have "unat a = unat b"
      unfolding page_aligned_def by (metis dvd_div_mult_self)
    then show "a = b" by (simp add: word_unat_eq_iff)
  qed
  also have "\<dots> \<le> card {..<(2::nat) ^ 52}"
  proof (rule card_mono)
    show "(\<lambda>a. unat a div 4096) ` set as \<subseteq> {..<(2::nat) ^ 52}"
    proof
      fix k assume "k \<in> (\<lambda>a. unat a div 4096) ` set as"
      then obtain a :: u64 where "k = unat a div 4096" by blast
      then show "k \<in> {..<2 ^ 52}"
        using unat_lt_64 [of a] by (simp add: div_less_iff_less_mult)
    qed
  qed simp
  finally show ?thesis by simp
qed

end
