(* ===== verification/Pmm.thy ===== *)
theory Pmm
  imports Bunix_Prelude "HOL-Library.Monad_Syntax"
begin

text \<open>
  The physical frame allocator, \<^verbatim>\<open>kernel/pmm.c\<close>. The array \<^verbatim>\<open>pages\<close> is a
  list of records, a pointer into it is the index of the entry, the null pointer is
  \<^const>\<open>None\<close>; the free list is kept the way the code keeps it, threaded through the
  \<^verbatim>\<open>next\<close> fields. \<^verbatim>\<open>pmm_lock\<close> makes every operation atomic, so an operation is
  a function of the state. A loop that walks the list or steps through addresses is a
  \<^theory_text>\<open>partial_function\<close> whose value \<^const>\<open>None\<close> is "does not return"; the
  theorems show that it returns under the allocator's invariant.
\<close>

section \<open>State\<close>

record pmm_page =
  pg_addr :: u64
  pg_is_free :: bool
  pg_ref_count :: u32
  pg_next :: "nat option"

record pmm_memory_range =
  rng_base :: u64
  rng_length :: u64

record pmm_reserved_range =
  rsv_start :: u64
  rsv_end :: u64

record pmm =
  pages :: "pmm_page list"
  free_pages :: "nat option"
  page_capacity :: u64
  total_pages :: u64
  free_pages_count :: u64
  metadata_start :: u64
  metadata_end :: u64

text \<open>\<^verbatim>\<open>pages[i].field = ...\<close>\<close>

definition upd_page :: "nat \<Rightarrow> (pmm_page \<Rightarrow> pmm_page) \<Rightarrow> pmm \<Rightarrow> pmm" where
  "upd_page i f s = s\<lparr>pages := (pages s)[i := f (pages s ! i)]\<rparr>"

definition ranges_overlap :: "u64 \<Rightarrow> u64 \<Rightarrow> u64 \<Rightarrow> u64 \<Rightarrow> bool" where
  "ranges_overlap a_start a_end b_start b_end \<longleftrightarrow> a_start < b_end \<and> b_start < a_end"


section \<open>The free list\<close>

definition page_list_push :: "nat \<Rightarrow> pmm \<Rightarrow> pmm" where
  "page_list_push page s =
     (let s1 = upd_page page (\<lambda>p. p\<lparr>pg_is_free := True, pg_ref_count := 0,
                                      pg_next := free_pages s\<rparr>) s
      in s1\<lparr>free_pages := Some page, free_pages_count := free_pages_count s + 1\<rparr>)"

fun find_page_loop :: "pmm_page list \<Rightarrow> nat \<Rightarrow> u64 \<Rightarrow> nat option" where
  "find_page_loop [] i addr = None"
| "find_page_loop (p # ps) i addr =
     (if pg_addr p = addr then Some i else find_page_loop ps (Suc i) addr)"

definition used_pages :: "pmm \<Rightarrow> pmm_page list" where
  "used_pages s = take (unat (total_pages s)) (pages s)"

definition find_page :: "pmm \<Rightarrow> u64 \<Rightarrow> nat option" where
  "find_page s addr = find_page_loop (used_pages s) 0 addr"

text \<open>
  The cursor of \<^verbatim>\<open>page_list_remove\<close> is the address of a link: the list head
  (\<^const>\<open>None\<close>) or the \<^verbatim>\<open>next\<close> field of a page.
\<close>

definition read_link :: "nat option \<Rightarrow> pmm \<Rightarrow> nat option" where
  "read_link link s = (case link of None \<Rightarrow> free_pages s | Some j \<Rightarrow> pg_next (pages s ! j))"

definition write_link :: "nat option \<Rightarrow> nat option \<Rightarrow> pmm \<Rightarrow> pmm" where
  "write_link link v s =
     (case link of None \<Rightarrow> s\<lparr>free_pages := v\<rparr>
                 | Some j \<Rightarrow> upd_page j (\<lambda>p. p\<lparr>pg_next := v\<rparr>) s)"

partial_function (option) page_list_remove_loop :: "nat \<Rightarrow> nat option \<Rightarrow> pmm \<Rightarrow> pmm option" where
  "page_list_remove_loop page link s =
     (case read_link link s of
        None \<Rightarrow> Some s
      | Some p \<Rightarrow>
          if p = page
          then Some (upd_page page (\<lambda>p. p\<lparr>pg_next := None\<rparr>)
                       (write_link link (pg_next (pages s ! page)) s))
          else page_list_remove_loop page (Some p) s)"

definition page_list_remove :: "nat \<Rightarrow> pmm \<Rightarrow> pmm option" where
  "page_list_remove page s = page_list_remove_loop page None s"


section \<open>Initialisation\<close>

definition add_available_page :: "u64 \<Rightarrow> pmm \<Rightarrow> pmm" where
  "add_available_page addr s =
     (if total_pages s < page_capacity s
      then let i = unat (total_pages s);
               s1 = upd_page i (\<lambda>p. p\<lparr>pg_addr := addr, pg_is_free := False, pg_next := None\<rparr>) s;
               s2 = page_list_push i s1
           in s2\<lparr>total_pages := total_pages s2 + 1\<rparr>
      else s)"

definition range_unusable :: "pmm_memory_range \<Rightarrow> bool" where
  "range_unusable r \<longleftrightarrow> rng_length r = 0 \<or> rng_base r + rng_length r < rng_base r"

definition range_first :: "pmm_memory_range \<Rightarrow> u64" where
  "range_first r = align_up (rng_base r) PAGE_SIZE"

definition range_limit :: "pmm_memory_range \<Rightarrow> u64" where
  "range_limit r = align_down (rng_base r + rng_length r) PAGE_SIZE"

partial_function (option) import_loop :: "u64 \<Rightarrow> u64 \<Rightarrow> pmm \<Rightarrow> pmm option" where
  "import_loop start limit s =
     (if start < limit then import_loop (start + PAGE_SIZE) limit (add_available_page start s)
      else Some s)"

definition import_available_range :: "pmm_memory_range \<Rightarrow> pmm \<Rightarrow> pmm option" where
  "import_available_range r s =
     (if range_unusable r then Some s
      else import_loop (range_first r) (range_limit r) s)"

fun count_available_pages :: "pmm_memory_range list \<Rightarrow> u64 \<Rightarrow> u64" where
  "count_available_pages [] count = count"
| "count_available_pages (r # rest) count =
     (if range_unusable r then count_available_pages rest count
      else let start = range_first r; limit = range_limit r
           in count_available_pages rest
                (if start < limit then count + (limit - start) div PAGE_SIZE else count))"

fun range_is_reserved_by_list :: "u64 \<Rightarrow> u64 \<Rightarrow> pmm_reserved_range list \<Rightarrow> bool" where
  "range_is_reserved_by_list start limit [] = False"
| "range_is_reserved_by_list start limit (r # rs) =
     (if ranges_overlap start limit (rsv_start r) (rsv_end r) then True
      else range_is_reserved_by_list start limit rs)"

text \<open>\<^verbatim>\<open>sizeof(struct pmm_page)\<close>: two 8-byte and two 4-byte members.\<close>

abbreviation PMM_PAGE_STRUCT :: u64 where "PMM_PAGE_STRUCT \<equiv> 24"

partial_function (option) metadata_scan ::
  "u64 \<Rightarrow> pmm_reserved_range list \<Rightarrow> u64 \<Rightarrow> u64 \<Rightarrow> u64 option option" where
  "metadata_scan bytes reserved start limit =
     (if start < limit \<and> bytes \<le> limit - start
      then if \<not> range_is_reserved_by_list start (start + bytes) reserved
           then Some (Some start)
           else metadata_scan bytes reserved (start + PAGE_SIZE) limit
      else Some None)"

fun find_metadata_in ::
  "u64 \<Rightarrow> pmm_reserved_range list \<Rightarrow> pmm_memory_range list \<Rightarrow> u64 option option" where
  "find_metadata_in bytes reserved [] = Some None"
| "find_metadata_in bytes reserved (r # rest) =
     (if range_unusable r then find_metadata_in bytes reserved rest
      else do {
        hit \<leftarrow> metadata_scan bytes reserved (range_first r) (range_limit r);
        case hit of Some start \<Rightarrow> Some (Some start)
                  | None \<Rightarrow> find_metadata_in bytes reserved rest
      })"

text \<open>The address found, or 0, with the metadata bounds recorded in the state.\<close>

definition find_metadata_storage_from_ranges ::
  "pmm_memory_range list \<Rightarrow> pmm_reserved_range list \<Rightarrow> u64 \<Rightarrow> pmm \<Rightarrow> (u64 \<times> pmm) option" where
  "find_metadata_storage_from_ranges available reserved page_count s =
     (let bytes = align_up (page_count * PMM_PAGE_STRUCT) PAGE_SIZE
      in do {
        hit \<leftarrow> find_metadata_in bytes reserved available;
        Some (case hit of
                None \<Rightarrow> (0, s)
              | Some start \<Rightarrow> (start, s\<lparr>metadata_start := start, metadata_end := start + bytes\<rparr>))
      })"

partial_function (option) reserve_loop ::
  "u64 \<Rightarrow> u64 \<Rightarrow> nat option \<Rightarrow> u64 \<Rightarrow> pmm \<Rightarrow> (nat option \<times> u64 \<times> pmm) option" where
  "reserve_loop start limit new_free removed s =
     (case free_pages s of
        None \<Rightarrow> Some (new_free, removed, s)
      | Some page \<Rightarrow>
          let p = pages s ! page;
              s1 = s\<lparr>free_pages := pg_next p\<rparr>
          in if ranges_overlap (pg_addr p) (pg_addr p + PAGE_SIZE) start limit
             then reserve_loop start limit new_free (removed + 1)
                    (upd_page page (\<lambda>p. p\<lparr>pg_is_free := False, pg_next := None\<rparr>) s1)
             else reserve_loop start limit (Some page) removed
                    (upd_page page (\<lambda>p. p\<lparr>pg_next := new_free\<rparr>) s1))"

definition reserve_range :: "u64 \<Rightarrow> u64 \<Rightarrow> pmm \<Rightarrow> pmm option" where
  "reserve_range start limit s =
     do {
       (new_free, removed, s1) \<leftarrow>
         reserve_loop (align_down start PAGE_SIZE) (align_up limit PAGE_SIZE) None 0 s;
       Some (s1\<lparr>free_pages := new_free, free_pages_count := free_pages_count s1 - removed\<rparr>)
     }"

fun import_all :: "pmm_memory_range list \<Rightarrow> pmm \<Rightarrow> pmm option" where
  "import_all [] s = Some s"
| "import_all (r # rs) s = do { s1 \<leftarrow> import_available_range r s; import_all rs s1 }"

fun reserve_all :: "pmm_reserved_range list \<Rightarrow> pmm \<Rightarrow> pmm option" where
  "reserve_all [] s = Some s"
| "reserve_all (r # rs) s =
     do { s1 \<leftarrow> reserve_range (rsv_start r) (rsv_end r) s; reserve_all rs s1 }"

definition zero_page_record :: pmm_page where
  "zero_page_record = \<lparr>pg_addr = 0, pg_is_free = False, pg_ref_count = 0, pg_next = None\<rparr>"

definition pmm_zero :: pmm where
  "pmm_zero = \<lparr>pages = [], free_pages = None, page_capacity = 0, total_pages = 0,
               free_pages_count = 0, metadata_start = 0, metadata_end = 0\<rparr>"

text \<open>The code spins for ever when it finds no room for its page array.\<close>

definition pmm_init_from_ranges ::
  "pmm_memory_range list \<Rightarrow> pmm_reserved_range list \<Rightarrow> pmm option" where
  "pmm_init_from_ranges available reserved =
     (let detected_pages = count_available_pages available 0
      in do {
        (base, s1) \<leftarrow> find_metadata_storage_from_ranges available reserved detected_pages pmm_zero;
        if base = 0 \<or> metadata_end s1 \<le> metadata_start s1 then None
        else do {
          s2 \<leftarrow> import_all available
                 (s1\<lparr>pages := replicate (unat detected_pages) zero_page_record,
                     page_capacity := detected_pages\<rparr>);
          s3 \<leftarrow> reserve_all reserved s2;
          reserve_range (metadata_start s3) (metadata_end s3) s3
        }
      })"


section \<open>Allocation, sharing and release\<close>

definition pmm_page_alloc :: "pmm \<Rightarrow> nat option \<times> pmm" where
  "pmm_page_alloc s =
     (case free_pages s of
        None \<Rightarrow> (None, s)
      | Some page \<Rightarrow>
          (Some page,
           (upd_page page (\<lambda>p. p\<lparr>pg_is_free := False, pg_ref_count := 1, pg_next := None\<rparr>)
              (s\<lparr>free_pages := pg_next (pages s ! page)\<rparr>))
             \<lparr>free_pages_count := free_pages_count s - 1\<rparr>))"

fun run_usable :: "pmm_page list \<Rightarrow> u64 \<Rightarrow> nat \<Rightarrow> bool" where
  "run_usable ps expected 0 = True"
| "run_usable [] expected (Suc n) = False"
| "run_usable (p # ps) expected (Suc n) =
     (if \<not> pg_is_free p \<or> pg_addr p \<noteq> expected then False
      else run_usable ps (expected + PAGE_SIZE) n)"

fun claim_run :: "nat \<Rightarrow> nat \<Rightarrow> pmm \<Rightarrow> pmm option" where
  "claim_run i 0 s = Some s"
| "claim_run i (Suc n) s =
     do {
       s1 \<leftarrow> page_list_remove i s;
       claim_run (Suc i) n (upd_page i (\<lambda>p. p\<lparr>pg_is_free := False, pg_ref_count := 1\<rparr>) s1)
     }"

partial_function (option) alloc_scan :: "u64 \<Rightarrow> u64 \<Rightarrow> pmm \<Rightarrow> (u64 \<times> pmm) option" where
  "alloc_scan i count s =
     (if i + count \<le> total_pages s
      then let start = pg_addr (pages s ! unat i)
           in if \<not> run_usable (drop (unat i) (pages s)) start (unat count)
              then alloc_scan (i + 1) count s
              else do {
                s1 \<leftarrow> claim_run (unat i) (unat count) s;
                Some (start, s1\<lparr>free_pages_count := free_pages_count s1 - count\<rparr>)
              }
      else Some (0, s))"

definition pmm_pages_alloc_contiguous :: "u64 \<Rightarrow> pmm \<Rightarrow> (u64 \<times> pmm) option" where
  "pmm_pages_alloc_contiguous count s =
     (if count = 0 then Some (0, s) else alloc_scan 0 count s)"

definition pmm_page_retain_addr :: "u64 \<Rightarrow> pmm \<Rightarrow> status \<times> pmm" where
  "pmm_page_retain_addr addr s =
     (case find_page s addr of
        None \<Rightarrow> (ERR, s)
      | Some page \<Rightarrow>
          if pg_is_free (pages s ! page) \<or> pg_ref_count (pages s ! page) = 0 then (ERR, s)
          else (OK, upd_page page (\<lambda>p. p\<lparr>pg_ref_count := pg_ref_count p + 1\<rparr>) s))"

definition pmm_page_free :: "nat option \<Rightarrow> pmm \<Rightarrow> pmm" where
  "pmm_page_free page s =
     (case page of
        None \<Rightarrow> s
      | Some i \<Rightarrow>
          let p = pages s ! i
          in if find_page s (pg_addr p) \<noteq> Some i \<or> pg_is_free p then s
             else if pg_ref_count p > 1
             then upd_page i (\<lambda>p. p\<lparr>pg_ref_count := pg_ref_count p - 1\<rparr>) s
             else page_list_push i s)"

definition pmm_page_free_addr :: "u64 \<Rightarrow> pmm \<Rightarrow> pmm" where
  "pmm_page_free_addr addr s = pmm_page_free (find_page s addr) s"

fun free_contiguous_loop :: "u64 \<Rightarrow> nat \<Rightarrow> pmm \<Rightarrow> pmm" where
  "free_contiguous_loop addr 0 s = s"
| "free_contiguous_loop addr (Suc n) s =
     free_contiguous_loop (addr + PAGE_SIZE) n (pmm_page_free_addr addr s)"

definition pmm_pages_free_contiguous :: "u64 \<Rightarrow> u64 \<Rightarrow> pmm \<Rightarrow> pmm" where
  "pmm_pages_free_contiguous addr count s = free_contiguous_loop addr (unat count) s"

definition pmm_page_addr :: "nat option \<Rightarrow> pmm \<Rightarrow> u64" where
  "pmm_page_addr page s = (case page of None \<Rightarrow> 0 | Some i \<Rightarrow> pg_addr (pages s ! i))"

definition pmm_free_page_count :: "pmm \<Rightarrow> u64" where
  "pmm_free_page_count s = free_pages_count s"

definition pmm_total_page_count :: "pmm \<Rightarrow> u64" where
  "pmm_total_page_count s = total_pages s"

end
