(* ===== verification/Pmm_Proofs.thy ===== *)
theory Pmm_Proofs
  imports Pmm
begin

text \<open>
  Correctness of the frame allocator: the invariant of its page array and free list, the
  abstract view (which frames it manages and in which state each is), the effect of every
  operation on that view, and the interface \<open>frame_store\<close> through which the slab
  allocator and the VM layer rely on it.
\<close>

section \<open>Free-list segments\<close>

fun free_seg :: "pmm_page list \<Rightarrow> nat option \<Rightarrow> nat list \<Rightarrow> nat option \<Rightarrow> bool" where
  "free_seg ps h [] t = (h = t)"
| "free_seg ps h (x # xs) t = (h = Some x \<and> x < length ps \<and> free_seg ps (pg_next (ps ! x)) xs t)"

lemma free_seg_append:
  "free_seg ps h (xs @ ys) t = (\<exists>m. free_seg ps h xs m \<and> free_seg ps m ys t)"
  by (induction xs arbitrary: h) auto

lemma free_seg_update_other [simp]:
  "i \<notin> set xs \<Longrightarrow> free_seg (ps[i := p]) h xs t = free_seg ps h xs t"
  by (induction xs arbitrary: h) auto

lemma free_seg_update_next:
  "i \<notin> set xs \<Longrightarrow> i < length ps \<Longrightarrow> free_seg ps h xs (Some i) \<Longrightarrow>
   free_seg (ps[i := p]) h (xs @ [i]) (pg_next p)"
  by (auto simp: free_seg_append)

lemma free_seg_bound: "free_seg ps h xs t \<Longrightarrow> x \<in> set xs \<Longrightarrow> x < length ps"
  by (induction xs arbitrary: h) auto

lemma free_seg_cong:
  "length ps = length qs \<Longrightarrow> (\<And>x. x \<in> set xs \<Longrightarrow> pg_next (ps ! x) = pg_next (qs ! x)) \<Longrightarrow>
   free_seg ps h xs t = free_seg qs h xs t"
  by (induction xs arbitrary: h) auto


section \<open>Invariant and abstract view\<close>

text \<open>
  \<open>pmm_core s xs\<close>: the array has its capacity, the entries in use carry distinct page
  addresses, and the free list visits, each once and in the order \<open>xs\<close>, exactly the
  entries in use that are marked free, whose reference counts are 0.
\<close>

definition pmm_core :: "pmm \<Rightarrow> nat list \<Rightarrow> bool" where
  "pmm_core s xs \<longleftrightarrow>
     length (pages s) = unat (page_capacity s) \<and>
     total_pages s \<le> page_capacity s \<and>
     distinct (map pg_addr (used_pages s)) \<and>
     (\<forall>p \<in> set (used_pages s). page_aligned (pg_addr p) \<and>
        (pg_is_free p \<longrightarrow> pg_ref_count p = 0)) \<and>
     free_seg (pages s) (free_pages s) xs None \<and>
     distinct xs \<and>
     set xs = {i. i < unat (total_pages s) \<and> pg_is_free (pages s ! i)}"

definition pmm_inv :: "pmm \<Rightarrow> bool" where
  "pmm_inv s \<longleftrightarrow> (\<exists>xs. pmm_core s xs \<and> unat (free_pages_count s) = length xs)"

text \<open>
  The abstract view: a map from the addresses of managed frames to their state. A frame
  held with count 0 is a reserved one: never allocated, and not on the free list.
\<close>

datatype frame = Free | Held u32

definition frame_of :: "pmm_page \<Rightarrow> frame" where
  "frame_of p = (if pg_is_free p then Free else Held (pg_ref_count p))"

definition frames :: "pmm \<Rightarrow> (u64 \<times> frame) list" where
  "frames s = map (\<lambda>p. (pg_addr p, frame_of p)) (used_pages s)"

definition frame_at :: "pmm \<Rightarrow> u64 \<Rightarrow> frame option" where
  "frame_at s = map_of (frames s)"

definition free_frames :: "pmm \<Rightarrow> u64 set" where
  "free_frames s = {a. frame_at s a = Some Free}"

lemma map_fst_frames [simp]: "map fst (frames s) = map pg_addr (used_pages s)"
  by (simp add: frames_def comp_def)

lemma length_used_pages:
  "pmm_core s xs \<Longrightarrow> length (used_pages s) = unat (total_pages s)"
  by (simp add: pmm_core_def used_pages_def word_le_nat_alt)

lemma total_le_length: "pmm_core s xs \<Longrightarrow> unat (total_pages s) \<le> length (pages s)"
  by (simp add: pmm_core_def word_le_nat_alt)

lemma nth_used_pages:
  "i < unat (total_pages s) \<Longrightarrow> used_pages s ! i = pages s ! i"
  by (simp add: used_pages_def)

lemma frame_at_index:
  assumes "pmm_core s xs" and "i < unat (total_pages s)"
  shows "frame_at s (pg_addr (pages s ! i)) = Some (frame_of (pages s ! i))"
proof -
  have "distinct (map fst (frames s))"
    using assms(1) by (simp add: pmm_core_def)
  moreover have "(pg_addr (pages s ! i), frame_of (pages s ! i)) \<in> set (frames s)"
    using assms length_used_pages [OF assms(1)]
    by (force simp: frames_def in_set_conv_nth nth_used_pages)
  ultimately show ?thesis
    by (simp add: frame_at_def)
qed

lemma frame_at_Some_index:
  assumes "pmm_core s xs" and "frame_at s a = Some f"
  obtains i where "i < unat (total_pages s)" and "pg_addr (pages s ! i) = a"
    and "frame_of (pages s ! i) = f"
proof -
  from assms(2) have "(a, f) \<in> set (frames s)"
    by (auto simp: frame_at_def dest: map_of_SomeD)
  then show ?thesis
    using that length_used_pages [OF assms(1)]
    by (auto simp: frames_def in_set_conv_nth nth_used_pages)
qed

lemma frame_at_None_iff:
  "pmm_core s xs \<Longrightarrow>
   frame_at s a = None \<longleftrightarrow> (\<forall>i < unat (total_pages s). pg_addr (pages s ! i) \<noteq> a)"
  by (metis frame_at_Some_index frame_at_index not_None_eq)

lemma addr_inj:
  assumes "pmm_core s xs" and "i < unat (total_pages s)" and "j < unat (total_pages s)"
    and "pg_addr (pages s ! i) = pg_addr (pages s ! j)"
  shows "i = j"
proof -
  have "distinct (map pg_addr (used_pages s))"
    using assms(1) by (simp add: pmm_core_def)
  then show ?thesis
    using assms length_used_pages [OF assms(1)]
    by (simp add: distinct_conv_nth nth_used_pages) blast
qed

lemma find_page_loop_Some:
  "find_page_loop ps k a = Some i \<Longrightarrow> k \<le> i \<and> i - k < length ps \<and> pg_addr (ps ! (i - k)) = a"
  by (induction ps k a rule: find_page_loop.induct)
    (auto split: if_splits simp: nth_Cons' Suc_diff_le)

lemma find_page_loop_None: "find_page_loop ps k a = None \<longleftrightarrow> a \<notin> pg_addr ` set ps"
  by (induction ps k a rule: find_page_loop.induct) auto

lemma find_page_eq_Some:
  assumes "pmm_core s xs"
  shows "find_page s a = Some i \<longleftrightarrow> i < unat (total_pages s) \<and> pg_addr (pages s ! i) = a"
proof
  assume "find_page s a = Some i"
  then show "i < unat (total_pages s) \<and> pg_addr (pages s ! i) = a"
    using find_page_loop_Some [of "used_pages s" 0 a i] length_used_pages [OF assms]
    by (auto simp: find_page_def nth_used_pages)
next
  assume i: "i < unat (total_pages s) \<and> pg_addr (pages s ! i) = a"
  then have "a \<in> pg_addr ` set (used_pages s)"
    using length_used_pages [OF assms] by (metis image_eqI nth_mem nth_used_pages)
  then obtain j where j: "find_page s a = Some j"
    using find_page_loop_None [of "used_pages s" 0 a] by (auto simp: find_page_def)
  then have "j < unat (total_pages s)" and "pg_addr (pages s ! j) = a"
    using find_page_loop_Some [of "used_pages s" 0 a j] length_used_pages [OF assms]
    by (auto simp: find_page_def nth_used_pages)
  with i j show "find_page s a = Some i"
    using addr_inj [OF assms] by metis
qed

lemma find_page_eq_None:
  "pmm_core s xs \<Longrightarrow> find_page s a = None \<longleftrightarrow> frame_at s a = None"
  by (metis find_page_eq_Some frame_at_None_iff not_None_eq)


section \<open>One page record changes\<close>

text \<open>
  Every operation on an initialised allocator changes the state of one frame at a time.
  \<open>only_page i s t\<close>: apart from the links, the two states differ in page \<open>i\<close>
  at most, and not in its address.
\<close>

definition same_page :: "pmm_page \<Rightarrow> pmm_page \<Rightarrow> bool" where
  "same_page p q \<longleftrightarrow> pg_addr p = pg_addr q \<and> pg_is_free p = pg_is_free q \<and>
                     pg_ref_count p = pg_ref_count q"

definition only_page :: "nat \<Rightarrow> pmm \<Rightarrow> pmm \<Rightarrow> bool" where
  "only_page i s t \<longleftrightarrow>
     length (pages t) = length (pages s) \<and> total_pages t = total_pages s \<and>
     page_capacity t = page_capacity s \<and>
     (\<forall>j < length (pages s). j \<noteq> i \<longrightarrow> same_page (pages t ! j) (pages s ! j)) \<and>
     pg_addr (pages t ! i) = pg_addr (pages s ! i)"

lemma only_page_nth:
  assumes "only_page i s t" and "pmm_core s xs" and "j < unat (total_pages s)" and "j \<noteq> i"
  shows "pg_addr (pages t ! j) = pg_addr (pages s ! j)"
    and "pg_is_free (pages t ! j) = pg_is_free (pages s ! j)"
    and "pg_ref_count (pages t ! j) = pg_ref_count (pages s ! j)"
    and "frame_of (pages t ! j) = frame_of (pages s ! j)"
proof -
  have "j < length (pages s)"
    using assms(3) total_le_length [OF assms(2)] by linarith
  with assms(1,4) have "same_page (pages t ! j) (pages s ! j)"
    by (simp add: only_page_def)
  then show "pg_addr (pages t ! j) = pg_addr (pages s ! j)"
    and "pg_is_free (pages t ! j) = pg_is_free (pages s ! j)"
    and "pg_ref_count (pages t ! j) = pg_ref_count (pages s ! j)"
    and "frame_of (pages t ! j) = frame_of (pages s ! j)"
    by (simp_all add: same_page_def frame_of_def)
qed

lemma only_page_addrs:
  assumes "only_page i s t" and "pmm_core s xs"
  shows "map pg_addr (used_pages t) = map pg_addr (used_pages s)"
proof (rule nth_equalityI)
  have len: "length (used_pages t) = length (used_pages s)"
    using assms(1) by (simp add: only_page_def used_pages_def)
  then show "length (map pg_addr (used_pages t)) = length (map pg_addr (used_pages s))"
    by simp
  fix j assume "j < length (map pg_addr (used_pages t))"
  then have j: "j < unat (total_pages s)" and j': "j < length (used_pages s)"
    and tot: "total_pages t = total_pages s"
    using len length_used_pages [OF assms(2)] assms(1) by (simp_all add: only_page_def)
  have "pg_addr (pages t ! j) = pg_addr (pages s ! j)"
    using only_page_nth(1) [OF assms j] assms(1) by (cases "j = i") (auto simp: only_page_def)
  with j j' len tot show "map pg_addr (used_pages t) ! j = map pg_addr (used_pages s) ! j"
    by (simp add: nth_used_pages)
qed

lemma core_only_page:
  assumes core: "pmm_core s xs" and only: "only_page i s t" and i: "i < unat (total_pages s)"
    and rc: "pg_is_free (pages t ! i) \<Longrightarrow> pg_ref_count (pages t ! i) = 0"
    and chain: "free_seg (pages t) (free_pages t) ys None" "distinct ys"
    and ys: "set ys = (if pg_is_free (pages t ! i) then insert i (set xs) else set xs - {i})"
  shows "pmm_core t ys"
    and "frame_at t = (frame_at s)(pg_addr (pages s ! i) \<mapsto> frame_of (pages t ! i))"
proof -
  have fields: "length (pages t) = length (pages s)" "total_pages t = total_pages s"
    "page_capacity t = page_capacity s" "pg_addr (pages t ! i) = pg_addr (pages s ! i)"
    using only by (simp_all add: only_page_def)
  have set_xs: "set xs = {j. j < unat (total_pages s) \<and> pg_is_free (pages s ! j)}"
    using core by (simp add: pmm_core_def)
  have "set ys = {j. j < unat (total_pages s) \<and> pg_is_free (pages t ! j)}"
    unfolding ys set_xs using only_page_nth(2) [OF only core] i
    by (auto split: if_splits)
  moreover have "\<forall>p \<in> set (used_pages t). page_aligned (pg_addr p) \<and>
                   (pg_is_free p \<longrightarrow> pg_ref_count p = 0)"
  proof
    fix p assume "p \<in> set (used_pages t)"
    then obtain j where j: "j < unat (total_pages s)" and p: "p = pages t ! j"
      using fields total_le_length [OF core]
      by (auto simp: in_set_conv_nth used_pages_def)
    have "pages s ! j \<in> set (used_pages s)"
      using j length_used_pages [OF core] by (metis nth_mem nth_used_pages)
    then have "page_aligned (pg_addr (pages s ! j)) \<and>
               (pg_is_free (pages s ! j) \<longrightarrow> pg_ref_count (pages s ! j) = 0)"
      using core by (auto simp: pmm_core_def)
    then show "page_aligned (pg_addr p) \<and> (pg_is_free p \<longrightarrow> pg_ref_count p = 0)"
      using only_page_nth [OF only core j] fields(4) rc p by (cases "j = i") auto
  qed
  ultimately show t: "pmm_core t ys"
    using core chain only_page_addrs [OF only core] by (simp add: pmm_core_def fields)
  show "frame_at t = (frame_at s)(pg_addr (pages s ! i) \<mapsto> frame_of (pages t ! i))"
  proof
    fix a
    show "frame_at t a = ((frame_at s)(pg_addr (pages s ! i) \<mapsto> frame_of (pages t ! i))) a"
    proof (cases "a = pg_addr (pages s ! i)")
      case True
      then show ?thesis
        using frame_at_index [OF t, of i] i fields by simp
    next
      case False
      show ?thesis
      proof (cases "frame_at s a")
        case None
        then have "\<forall>j < unat (total_pages s). pg_addr (pages t ! j) \<noteq> a"
          using frame_at_None_iff [OF core] only_page_nth(1) [OF only core] fields(4) False
          by metis
        then have "frame_at t a = None"
          using frame_at_None_iff [OF t] fields(2) by simp
        with None False show ?thesis by simp
      next
        case (Some f)
        then obtain j where j: "j < unat (total_pages s)" "pg_addr (pages s ! j) = a"
          "frame_of (pages s ! j) = f"
          using frame_at_Some_index [OF core] by metis
        with False have "j \<noteq> i" by auto
        with j show ?thesis
          using frame_at_index [OF t, of j] only_page_nth [OF only core j(1)] fields False Some
          by simp
      qed
    qed
  qed
qed

lemma only_page_upd [simp]:
  "pg_addr (f (pages s ! i)) = pg_addr (pages s ! i) \<Longrightarrow> only_page i s (upd_page i f s)"
  by (cases "i < length (pages s)") (auto simp: only_page_def upd_page_def same_page_def list_update_beyond)

lemma only_page_more [simp]:
  "only_page i s (t\<lparr>free_pages := x\<rparr>) = only_page i s t"
  "only_page i s (t\<lparr>free_pages_count := n\<rparr>) = only_page i s t"
  "only_page i (s\<lparr>free_pages := x\<rparr>) t = only_page i s t"
  "only_page i (s\<lparr>free_pages_count := n\<rparr>) t = only_page i s t"
  by (simp_all add: only_page_def)

lemma upd_page_sel [simp]:
  "free_pages (upd_page i f s) = free_pages s"
  "free_pages_count (upd_page i f s) = free_pages_count s"
  "total_pages (upd_page i f s) = total_pages s"
  "page_capacity (upd_page i f s) = page_capacity s"
  "pages (upd_page i f s) = (pages s)[i := f (pages s ! i)]"
  "metadata_start (upd_page i f s) = metadata_start s"
  "metadata_end (upd_page i f s) = metadata_end s"
  by (simp_all add: upd_page_def)

lemma page_list_push_sel [simp]:
  "free_pages (page_list_push i s) = Some i"
  "free_pages_count (page_list_push i s) = free_pages_count s + 1"
  "total_pages (page_list_push i s) = total_pages s"
  "page_capacity (page_list_push i s) = page_capacity s"
  "pages (page_list_push i s) =
     (pages s)[i := (pages s ! i)\<lparr>pg_is_free := True, pg_ref_count := 0, pg_next := free_pages s\<rparr>]"
  "metadata_start (page_list_push i s) = metadata_start s"
  "metadata_end (page_list_push i s) = metadata_end s"
  by (simp_all add: page_list_push_def Let_def)


lemma core_head:
  assumes "pmm_core s xs" and "free_pages s = Some p"
  obtains ys where "xs = p # ys" and "p \<notin> set ys" and "distinct ys"
    and "free_seg (pages s) (pg_next (pages s ! p)) ys None"
    and "p < unat (total_pages s)" and "p < length (pages s)" and "pg_is_free (pages s ! p)"
proof (cases xs)
  case Nil
  then show ?thesis using assms by (simp add: pmm_core_def)
next
  case (Cons x ys)
  then have x: "x = p" and seg: "free_seg (pages s) (pg_next (pages s ! p)) ys None"
    using assms by (auto simp: pmm_core_def)
  moreover have "p \<notin> set ys" "distinct ys" "p \<in> set xs"
    using assms Cons x by (auto simp: pmm_core_def)
  moreover have "set xs = {i. i < unat (total_pages s) \<and> pg_is_free (pages s ! i)}"
    using assms(1) by (simp add: pmm_core_def)
  ultimately show ?thesis
    using that Cons total_le_length [OF assms(1)] by auto
qed

lemma core_page:
  assumes "pmm_core s xs" and "i < unat (total_pages s)"
  shows "i < length (pages s)"
    and "pg_is_free (pages s ! i) \<longleftrightarrow> i \<in> set xs"
    and "page_aligned (pg_addr (pages s ! i))"
proof -
  show "i < length (pages s)"
    using assms total_le_length [OF assms(1)] by linarith
  show "pg_is_free (pages s ! i) \<longleftrightarrow> i \<in> set xs"
    using assms by (auto simp: pmm_core_def)
  have "pages s ! i \<in> set (used_pages s)"
    using assms length_used_pages [OF assms(1)] by (metis nth_mem nth_used_pages)
  then show "page_aligned (pg_addr (pages s ! i))"
    using assms(1) by (auto simp: pmm_core_def)
qed

lemma core_length_xs: "pmm_core s xs \<Longrightarrow> length xs \<le> unat (total_pages s)"
proof -
  assume core: "pmm_core s xs"
  then have "length xs = card {i. i < unat (total_pages s) \<and> pg_is_free (pages s ! i)}"
    unfolding pmm_core_def using distinct_card by metis
  also have "\<dots> \<le> card {i. i < unat (total_pages s)}"
    by (rule card_mono) auto
  finally show ?thesis by simp
qed


section \<open>Allocating one frame\<close>

lemma alloc_core:
  assumes core: "pmm_core s xs" and head: "free_pages s = Some p"
    and alloc: "pmm_page_alloc s = (r, t)"
  shows "r = Some p" and "pmm_core t (tl xs)" and "xs \<noteq> []"
    and "frame_at t = (frame_at s)(pg_addr (pages s ! p) \<mapsto> Held 1)"
    and "frame_at s (pg_addr (pages s ! p)) = Some Free"
    and "free_pages_count t = free_pages_count s - 1"
    and "pg_addr (pages t ! p) = pg_addr (pages s ! p)"
    and "total_pages t = total_pages s"
proof -
  obtain ys where ys: "xs = p # ys" "p \<notin> set ys" "distinct ys"
    "free_seg (pages s) (pg_next (pages s ! p)) ys None" "p < unat (total_pages s)"
    "p < length (pages s)" "pg_is_free (pages s ! p)"
    using core_head [OF core head] by metis
  have t: "t = (upd_page p (\<lambda>q. q\<lparr>pg_is_free := False, pg_ref_count := 1, pg_next := None\<rparr>)
              (s\<lparr>free_pages := pg_next (pages s ! p)\<rparr>))\<lparr>free_pages_count := free_pages_count s - 1\<rparr>"
    and r: "r = Some p"
    using alloc by (simp_all add: pmm_page_alloc_def head)
  have only: "only_page p s t"
    using only_page_upd [of "\<lambda>q. q\<lparr>pg_is_free := False, pg_ref_count := 1, pg_next := None\<rparr>"
        "s\<lparr>free_pages := pg_next (pages s ! p)\<rparr>" p]
    by (simp add: t)
  have pt: "pages t ! p = (pages s ! p)\<lparr>pg_is_free := False, pg_ref_count := 1, pg_next := None\<rparr>"
    using ys(6) by (simp add: t)
  show "r = Some p" "xs \<noteq> []" by (simp_all add: r ys)
  have chain: "free_seg (pages t) (free_pages t) ys None"
    using ys by (simp add: t)
  have set_ys: "set ys = (if pg_is_free (pages t ! p) then insert p (set xs) else set xs - {p})"
    using ys pt by auto
  have rc: "pg_is_free (pages t ! p) \<Longrightarrow> pg_ref_count (pages t ! p) = 0"
    by (simp add: pt)
  note core_only = core_only_page [OF core only ys(5) rc chain ys(3) set_ys]
  from core_only(1) ys(1) show "pmm_core t (tl xs)" by simp
  from core_only(2) show "frame_at t = (frame_at s)(pg_addr (pages s ! p) \<mapsto> Held 1)"
    by (simp add: pt frame_of_def)
  show "frame_at s (pg_addr (pages s ! p)) = Some Free"
    using frame_at_index [OF core ys(5)] ys(7) by (simp add: frame_of_def)
  show "free_pages_count t = free_pages_count s - 1" by (simp add: t)
  show "pg_addr (pages t ! p) = pg_addr (pages s ! p)" by (simp add: pt)
  show "total_pages t = total_pages s" by (simp add: t)
qed

lemma pmm_page_alloc_some:
  assumes inv: "pmm_inv s" and alloc: "pmm_page_alloc s = (Some p, t)"
  shows "pmm_inv t"
    and "frame_at s (pmm_page_addr (Some p) s) = Some Free"
    and "frame_at t = (frame_at s)(pmm_page_addr (Some p) s \<mapsto> Held 1)"
    and "pmm_page_addr (Some p) t = pmm_page_addr (Some p) s"
proof -
  obtain xs where core: "pmm_core s xs" and len: "unat (free_pages_count s) = length xs"
    using inv by (auto simp: pmm_inv_def)
  have head: "free_pages s = Some p"
    using alloc by (auto simp: pmm_page_alloc_def split: option.splits)
  note a = alloc_core [OF core head alloc]
  have "unat (free_pages_count s - 1) = length (tl xs)"
    using a(3) len by (simp add: unat_dec_64)
  with a show "pmm_inv t" by (auto simp: pmm_inv_def)
  show "frame_at s (pmm_page_addr (Some p) s) = Some Free"
    and "frame_at t = (frame_at s)(pmm_page_addr (Some p) s \<mapsto> Held 1)"
    and "pmm_page_addr (Some p) t = pmm_page_addr (Some p) s"
    using a by (simp_all add: pmm_page_addr_def)
qed

lemma pmm_page_alloc_none:
  assumes inv: "pmm_inv s" and alloc: "pmm_page_alloc s = (None, t)"
  shows "t = s" and "free_frames s = {}"
proof -
  obtain xs where core: "pmm_core s xs"
    using inv by (auto simp: pmm_inv_def)
  have head: "free_pages s = None"
    using alloc by (auto simp: pmm_page_alloc_def split: option.splits)
  then show "t = s" using alloc by (simp add: pmm_page_alloc_def)
  have "xs = []"
    using core head by (cases xs) (auto simp: pmm_core_def)
  then have "\<not> pg_is_free (pages s ! i)" if "i < unat (total_pages s)" for i
    using core_page(2) [OF core that] by simp
  then show "free_frames s = {}"
    using frame_at_Some_index [OF core]
    by (fastforce simp: free_frames_def frame_of_def split: if_splits)
qed


section \<open>Sharing and releasing frames\<close>

lemma push_core:
  assumes core: "pmm_core s xs" and i: "i < unat (total_pages s)"
    and held: "\<not> pg_is_free (pages s ! i)"
  shows "pmm_core (page_list_push i s) (i # xs)"
    and "frame_at (page_list_push i s) = (frame_at s)(pg_addr (pages s ! i) \<mapsto> Free)"
proof -
  let ?t = "page_list_push i s"
  have bound: "i < length (pages s)" and notin: "i \<notin> set xs"
    using core_page [OF core i] held by auto
  have pt: "pages ?t ! i =
      (pages s ! i)\<lparr>pg_is_free := True, pg_ref_count := 0, pg_next := free_pages s\<rparr>"
    using bound by simp
  have only: "only_page i s ?t"
    using bound by (auto simp: only_page_def same_page_def)
  have chain: "free_seg (pages ?t) (free_pages ?t) (i # xs) None"
    using core bound notin by (simp add: pmm_core_def)
  have "distinct (i # xs)"
    using core notin by (simp add: pmm_core_def)
  note res = core_only_page [OF core only i _ chain this]
  show "pmm_core ?t (i # xs)" by (rule res) (simp_all add: bound)
  show "frame_at ?t = (frame_at s)(pg_addr (pages s ! i) \<mapsto> Free)"
    by (subst res(2)) (simp_all add: bound frame_of_def)
qed

lemma push_inv:
  assumes inv: "pmm_inv s" and i: "i < unat (total_pages s)"
    and held: "\<not> pg_is_free (pages s ! i)"
  shows "pmm_inv (page_list_push i s)"
proof -
  obtain xs where core: "pmm_core s xs" and len: "unat (free_pages_count s) = length xs"
    using inv by (auto simp: pmm_inv_def)
  have "length (i # xs) \<le> unat (total_pages s)"
    using core_length_xs [OF push_core(1) [OF core i held]] by simp
  then have "unat (free_pages_count s) < unat (total_pages s)"
    using len by simp
  then have "unat (free_pages_count s + 1) = Suc (length xs)"
    using unat_inc_64 [of "free_pages_count s" "unat (total_pages s)"] len by simp
  then show ?thesis
    unfolding pmm_inv_def using push_core(1) [OF core i held] by fastforce
qed

lemma count_upd_core:
  assumes core: "pmm_core s xs" and i: "i < unat (total_pages s)"
    and held: "\<not> pg_is_free (pages s ! i)"
  shows "pmm_core (upd_page i (\<lambda>p. p\<lparr>pg_ref_count := g p\<rparr>) s) xs"
    and "frame_at (upd_page i (\<lambda>p. p\<lparr>pg_ref_count := g p\<rparr>) s) =
           (frame_at s)(pg_addr (pages s ! i) \<mapsto> Held (g (pages s ! i)))"
proof -
  let ?t = "upd_page i (\<lambda>p. p\<lparr>pg_ref_count := g p\<rparr>) s"
  have bound: "i < length (pages s)" and notin: "i \<notin> set xs"
    using core_page [OF core i] held by auto
  have only: "only_page i s ?t" by (rule only_page_upd) simp
  have chain: "free_seg (pages ?t) (free_pages ?t) xs None" "distinct xs"
    using core notin by (simp_all add: pmm_core_def)
  note res = core_only_page [OF core only i _ chain]
  show "pmm_core ?t xs" by (rule res) (simp_all add: bound held notin)
  show "frame_at ?t = (frame_at s)(pg_addr (pages s ! i) \<mapsto> Held (g (pages s ! i)))"
    by (subst res(2)) (simp_all add: bound held notin frame_of_def)
qed


text \<open>What dropping and taking one reference mean for the state of a frame.\<close>

definition release_frame :: "frame option \<Rightarrow> frame option" where
  "release_frame f =
     (case f of Some (Held n) \<Rightarrow> Some (if 1 < n then Held (n - 1) else Free) | _ \<Rightarrow> f)"

definition retain_frame :: "frame option \<Rightarrow> status \<times> frame option" where
  "retain_frame f =
     (case f of Some (Held n) \<Rightarrow> if n = 0 then (ERR, f) else (OK, Some (Held (n + 1)))
              | _ \<Rightarrow> (ERR, f))"

lemma free_addr_refines:
  assumes inv: "pmm_inv s"
  shows "pmm_inv (pmm_page_free_addr a s)"
    and "frame_at (pmm_page_free_addr a s) = (frame_at s)(a := release_frame (frame_at s a))"
proof -
  obtain xs where core: "pmm_core s xs" and len: "unat (free_pages_count s) = length xs"
    using inv by (auto simp: pmm_inv_def)
  have "pmm_inv (pmm_page_free_addr a s) \<and>
    frame_at (pmm_page_free_addr a s) = (frame_at s)(a := release_frame (frame_at s a))"
  proof (cases "find_page s a")
    case None
    then have "frame_at s a = None"
      using find_page_eq_None [OF core] by simp
    with None inv show ?thesis
      by (auto simp: pmm_page_free_addr_def pmm_page_free_def release_frame_def)
  next
    case (Some i)
    then have i: "i < unat (total_pages s)" and addr: "pg_addr (pages s ! i) = a"
      using find_page_eq_Some [OF core] by auto
    have at: "frame_at s a = Some (frame_of (pages s ! i))"
      using frame_at_index [OF core i] addr by simp
    show ?thesis
    proof (cases "pg_is_free (pages s ! i)")
      case True
      with Some at inv show ?thesis
        by (auto simp: pmm_page_free_addr_def pmm_page_free_def release_frame_def frame_of_def
            Let_def)
    next
      case held: False
      show ?thesis
      proof (cases "1 < pg_ref_count (pages s ! i)")
        case True
        then have "pmm_page_free_addr a s =
            upd_page i (\<lambda>p. p\<lparr>pg_ref_count := pg_ref_count p - 1\<rparr>) s"
          using Some addr held by (simp add: pmm_page_free_addr_def pmm_page_free_def)
        with count_upd_core [OF core i held, of "\<lambda>p. pg_ref_count p - 1"] len True held at addr
        show ?thesis
          by (auto simp: pmm_inv_def release_frame_def frame_of_def)
      next
        case False
        then have "pmm_page_free_addr a s = page_list_push i s"
          using Some addr held by (simp add: pmm_page_free_addr_def pmm_page_free_def)
        with push_core(2) [OF core i held] push_inv [OF inv i held] False held at addr
        show ?thesis
          by (simp add: release_frame_def frame_of_def)
      qed
    qed
  qed
  then show "pmm_inv (pmm_page_free_addr a s)"
    and "frame_at (pmm_page_free_addr a s) = (frame_at s)(a := release_frame (frame_at s a))"
    by auto
qed

lemma retain_refines:
  assumes inv: "pmm_inv s" and ret: "pmm_page_retain_addr a s = (r, t)"
  shows "pmm_inv t"
    and "r = fst (retain_frame (frame_at s a))"
    and "frame_at t = (frame_at s)(a := snd (retain_frame (frame_at s a)))"
proof -
  obtain xs where core: "pmm_core s xs" and len: "unat (free_pages_count s) = length xs"
    using inv by (auto simp: pmm_inv_def)
  have "pmm_inv t \<and> r = fst (retain_frame (frame_at s a)) \<and>
        frame_at t = (frame_at s)(a := snd (retain_frame (frame_at s a)))"
  proof (cases "find_page s a")
    case None
    then have "frame_at s a = None"
      using find_page_eq_None [OF core] by simp
    with None inv ret show ?thesis
      by (auto simp: pmm_page_retain_addr_def retain_frame_def)
  next
    case (Some i)
    then have i: "i < unat (total_pages s)" and addr: "pg_addr (pages s ! i) = a"
      using find_page_eq_Some [OF core] by auto
    have at: "frame_at s a = Some (frame_of (pages s ! i))"
      using frame_at_index [OF core i] addr by simp
    show ?thesis
    proof (cases "pg_is_free (pages s ! i) \<or> pg_ref_count (pages s ! i) = 0")
      case True
      with Some at inv ret show ?thesis
        by (auto simp: pmm_page_retain_addr_def retain_frame_def frame_of_def)
    next
      case False
      then have held: "\<not> pg_is_free (pages s ! i)" by simp
      have "r = OK" and t: "t = upd_page i (\<lambda>p. p\<lparr>pg_ref_count := pg_ref_count p + 1\<rparr>) s"
        using ret Some False by (auto simp: pmm_page_retain_addr_def)
      with count_upd_core [OF core i held, of "\<lambda>p. pg_ref_count p + 1"] len False at addr
      show ?thesis
        by (auto simp: pmm_inv_def retain_frame_def frame_of_def)
    qed
  qed
  then show "pmm_inv t" and "r = fst (retain_frame (frame_at s a))"
    and "frame_at t = (frame_at s)(a := snd (retain_frame (frame_at s a)))"
    by auto
qed


section \<open>Contiguous runs\<close>

lemma remove_loop_eval:
  assumes "free_seg (pages s) (read_link link s) (mid @ page # post) None" and "page \<notin> set mid"
  shows "page_list_remove_loop page link s =
     Some (upd_page page (\<lambda>p. p\<lparr>pg_next := None\<rparr>)
       (write_link (if mid = [] then link else Some (last mid)) (pg_next (pages s ! page)) s))"
  using assms
proof (induction mid arbitrary: link)
  case Nil
  then show ?case
    by (subst page_list_remove_loop.simps) simp
next
  case (Cons q mid)
  then have q: "read_link link s = Some q" "q \<noteq> page"
    by auto
  have "page_list_remove_loop page (Some q) s =
     Some (upd_page page (\<lambda>p. p\<lparr>pg_next := None\<rparr>)
       (write_link (if mid = [] then Some q else Some (last mid)) (pg_next (pages s ! page)) s))"
    using Cons by (intro Cons.IH) (auto simp: read_link_def)
  with q show ?case
    by (subst page_list_remove_loop.simps) simp
qed

lemma length_write_link [simp]: "length (pages (write_link link v s)) = length (pages s)"
  by (simp add: write_link_def split: option.split)

lemma same_page_upd_next:
  "j < length (pages s) \<Longrightarrow> same_page (pages (upd_page k (\<lambda>p. p\<lparr>pg_next := v\<rparr>) s) ! j) (pages s ! j)"
  by (cases "k = j") (simp_all add: same_page_def)

lemma same_page_write_link:
  "j < length (pages s) \<Longrightarrow> same_page (pages (write_link link v s) ! j) (pages s ! j)"
  using same_page_upd_next [of j s "the link" v]
  by (cases link) (simp_all add: write_link_def same_page_def del: upd_page_sel)

lemma page_list_remove_ok:
  assumes seg: "free_seg (pages s) (free_pages s) xs None" and dist: "distinct xs"
    and i: "i \<in> set xs"
  obtains t where "page_list_remove i s = Some t"
    and "free_seg (pages t) (free_pages t) (remove1 i xs) None"
    and "length (pages t) = length (pages s)"
    and "\<And>j. j < length (pages s) \<Longrightarrow> same_page (pages t ! j) (pages s ! j)"
    and "total_pages t = total_pages s" and "page_capacity t = page_capacity s"
    and "free_pages_count t = free_pages_count s"
proof -
  obtain mid post where xs: "xs = mid @ i # post" and mid: "i \<notin> set mid"
    using split_list_first [OF i] by blast
  have post: "i \<notin> set post" "set mid \<inter> set post = {}" "distinct mid" "distinct post"
    using dist xs by auto
  have bound: "i < length (pages s)"
    using free_seg_bound [OF seg] i by blast
  let ?link = "if mid = [] then None else Some (last mid)"
  let ?t = "upd_page i (\<lambda>p. p\<lparr>pg_next := None\<rparr>) (write_link ?link (pg_next (pages s ! i)) s)"
  have ev: "page_list_remove i s = Some ?t"
    unfolding page_list_remove_def
    using remove_loop_eval [of s None mid i post] seg mid xs by (simp add: read_link_def)
  have rem: "remove1 i xs = mid @ post"
    using mid by (simp add: xs remove1_append)
  have tail: "free_seg (pages s) (pg_next (pages s ! i)) post None"
    and front: "free_seg (pages s) (free_pages s) mid (Some i)"
    using seg by (auto simp: xs free_seg_append)
  have chain: "free_seg (pages ?t) (free_pages ?t) (remove1 i xs) None"
  proof (cases "mid = []")
    case True
    then show ?thesis
      using tail post by (simp add: rem write_link_def)
  next
    case False
    then obtain pre q where pq: "mid = pre @ [q]"
      by (metis append_butlast_last_id)
    then have q: "q \<noteq> i" "q \<notin> set pre" "q \<notin> set post" "i \<notin> set pre"
      using mid post by auto
    have qb: "q < length (pages s)" and qseg: "free_seg (pages s) (free_pages s) pre (Some q)"
      using front by (auto simp: pq free_seg_append)
    show ?thesis
      using q qb qseg tail post by (simp add: rem pq write_link_def free_seg_append bound)
  qed
  have same: "same_page (pages ?t ! j) (pages s ! j)" if "j < length (pages s)" for j
    using that same_page_write_link [of j s ?link "pg_next (pages s ! i)"]
      same_page_upd_next [of j "write_link ?link (pg_next (pages s ! i)) s" i None]
    by (auto simp: same_page_def)
  have "length (pages ?t) = length (pages s)" "total_pages ?t = total_pages s"
    "page_capacity ?t = page_capacity s" "free_pages_count ?t = free_pages_count s"
    by (simp_all add: write_link_def)
  with ev chain same that show ?thesis by blast
qed


lemma claim_step:
  assumes core: "pmm_core s xs" and i: "i < unat (total_pages s)"
    and free: "pg_is_free (pages s ! i)"
  obtains s1 t where "page_list_remove i s = Some s1"
    and "t = upd_page i (\<lambda>p. p\<lparr>pg_is_free := False, pg_ref_count := 1\<rparr>) s1"
    and "pmm_core t (remove1 i xs)" and "i \<in> set xs"
    and "frame_at t = (frame_at s)(pg_addr (pages s ! i) \<mapsto> Held 1)"
    and "only_page i s t" and "free_pages_count t = free_pages_count s"
proof -
  have bound: "i < length (pages s)" and mem: "i \<in> set xs"
    using core_page [OF core i] free by auto
  have seg: "free_seg (pages s) (free_pages s) xs None" and dist: "distinct xs"
    using core by (simp_all add: pmm_core_def)
  obtain s1 where s1: "page_list_remove i s = Some s1"
    "free_seg (pages s1) (free_pages s1) (remove1 i xs) None"
    "length (pages s1) = length (pages s)"
    "\<And>j. j < length (pages s) \<Longrightarrow> same_page (pages s1 ! j) (pages s ! j)"
    "total_pages s1 = total_pages s" "page_capacity s1 = page_capacity s"
    "free_pages_count s1 = free_pages_count s"
    using page_list_remove_ok [OF seg dist mem] by metis
  let ?t = "upd_page i (\<lambda>p. p\<lparr>pg_is_free := False, pg_ref_count := 1\<rparr>) s1"
  have only: "only_page i s ?t"
    using s1(3-6) s1(4) [OF bound] bound by (auto simp: only_page_def same_page_def)
  have notin: "i \<notin> set (remove1 i xs)"
    using dist by simp
  have chain: "free_seg (pages ?t) (free_pages ?t) (remove1 i xs) None"
    using s1(2) notin by simp
  have pt: "\<not> pg_is_free (pages ?t ! i)" "frame_of (pages ?t ! i) = Held 1"
    using s1(3) bound by (simp_all add: frame_of_def)
  have "set (remove1 i xs) = set xs - {i}"
    using dist by simp
  with pt(1) have set_eq: "set (remove1 i xs) =
      (if pg_is_free (pages ?t ! i) then insert i (set xs) else set xs - {i})"
    by simp
  have "distinct (remove1 i xs)" using dist by simp
  note res = core_only_page [OF core only i _ chain this set_eq]
  have "pmm_core ?t (remove1 i xs)"
    by (rule res(1)) (use pt in simp)
  moreover have "frame_at ?t = (frame_at s)(pg_addr (pages s ! i) \<mapsto> Held 1)"
    using res(2) pt by simp
  ultimately show ?thesis
    using that [OF s1(1) refl] mem only s1(7) by simp
qed

lemma claim_run_ok:
  assumes "pmm_core s xs" and "i + n \<le> unat (total_pages s)"
    and "\<And>j. i \<le> j \<Longrightarrow> j < i + n \<Longrightarrow> pg_is_free (pages s ! j)"
  shows "\<exists>t ys. claim_run i n s = Some t \<and> pmm_core t ys \<and> length ys + n = length xs \<and>
     free_pages_count t = free_pages_count s \<and> total_pages t = total_pages s \<and>
     (\<forall>a. frame_at t a =
        (if a \<in> (\<lambda>j. pg_addr (pages s ! j)) ` {i..<i + n} then Some (Held 1) else frame_at s a))"
  using assms
proof (induction n arbitrary: i s xs)
  case 0
  then show ?case by auto
next
  case (Suc n)
  then have i: "i < unat (total_pages s)" and free: "pg_is_free (pages s ! i)" by auto
  from claim_step [OF Suc.prems(1) i free] obtain s1 t where
    rem: "page_list_remove i s = Some s1" and
    t: "t = upd_page i (\<lambda>p. p\<lparr>pg_is_free := False, pg_ref_count := 1\<rparr>) s1" and
    core: "pmm_core t (remove1 i xs)" and mem: "i \<in> set xs" and
    at: "frame_at t = (frame_at s)(pg_addr (pages s ! i) \<mapsto> Held 1)" and
    only: "only_page i s t" and cnt: "free_pages_count t = free_pages_count s" by metis
  have tot: "total_pages t = total_pages s"
    using only by (simp add: only_page_def)
  have same: "pg_addr (pages t ! j) = pg_addr (pages s ! j)"
    "pg_is_free (pages t ! j) = pg_is_free (pages s ! j)" if "Suc i \<le> j" "j < Suc i + n" for j
    using only_page_nth(1,2) [OF only Suc.prems(1), of j] that Suc.prems(2) by auto
  have "\<exists>u ys. claim_run (Suc i) n t = Some u \<and> pmm_core u ys \<and> length ys + n = length (remove1 i xs) \<and>
     free_pages_count u = free_pages_count t \<and> total_pages u = total_pages t \<and>
     (\<forall>a. frame_at u a = (if a \<in> (\<lambda>j. pg_addr (pages t ! j)) ` {Suc i..<Suc i + n}
                          then Some (Held 1) else frame_at t a))"
    using Suc.prems same tot by (intro Suc.IH [OF core]) auto
  then obtain u ys where u: "claim_run (Suc i) n t = Some u" "pmm_core u ys"
    "length ys + n = length (remove1 i xs)" "free_pages_count u = free_pages_count t"
    "total_pages u = total_pages t"
    and at_u: "\<And>a. frame_at u a = (if a \<in> (\<lambda>j. pg_addr (pages t ! j)) ` {Suc i..<Suc i + n}
                          then Some (Held 1) else frame_at t a)" by auto
  have img: "(\<lambda>j. pg_addr (pages t ! j)) ` {Suc i..<Suc i + n} =
             (\<lambda>j. pg_addr (pages s ! j)) ` {Suc i..<Suc i + n}"
    using same by (intro image_cong) auto
  have "{i..<i + Suc n} = insert i {Suc i..<Suc i + n}" by auto
  then have "\<forall>a. frame_at u a = (if a \<in> (\<lambda>j. pg_addr (pages s ! j)) ` {i..<i + Suc n}
                           then Some (Held 1) else frame_at s a)"
    unfolding at_u img by (simp add: at)
  moreover have "length ys + Suc n = length xs"
    using u(3) mem by (simp add: length_remove1) (metis Suc_pred length_pos_if_in_set)
  moreover have "claim_run i (Suc n) s = Some u"
    using u(1) by (simp add: rem t)
  ultimately show ?case
    using u cnt tot by auto
qed


lemma run_usable_drop:
  "i + n \<le> length ps \<Longrightarrow>
   run_usable (drop i ps) e n \<longleftrightarrow>
   (\<forall>j < n. pg_is_free (ps ! (i + j)) \<and> pg_addr (ps ! (i + j)) = e + of_nat j * PAGE_SIZE)"
proof (induction n arbitrary: i e)
  case 0
  then show ?case by simp
next
  case (Suc n)
  then have drop: "drop i ps = ps ! i # drop (Suc i) ps"
    by (metis Cons_nth_drop_Suc add_Suc_right less_add_Suc1 order_less_le_trans)
  have split: "(\<forall>j < Suc n. P j) \<longleftrightarrow> P 0 \<and> (\<forall>j < n. P (Suc j))" for P
    using less_Suc_eq_0_disj by auto
  have "run_usable (drop (Suc i) ps) (e + PAGE_SIZE) n \<longleftrightarrow>
     (\<forall>j < n. pg_is_free (ps ! (Suc i + j)) \<and>
             pg_addr (ps ! (Suc i + j)) = e + PAGE_SIZE + of_nat j * PAGE_SIZE)"
    using Suc.prems by (intro Suc.IH) simp
  then show ?case
    unfolding split by (auto simp: drop distrib_right add.assoc)
qed

text \<open>Distinct page addresses: an allocator never manages more than \<open>2 ^ 52\<close> frames.\<close>

lemma total_pages_bound:
  assumes "pmm_core s xs"
  shows "unat (total_pages s) \<le> 2 ^ 52"
proof -
  have "length (map pg_addr (used_pages s)) \<le> 2 ^ 52"
    using assms by (intro aligned_distinct_bound) (auto simp: pmm_core_def)
  then show ?thesis
    using length_used_pages [OF assms] by simp
qed

text \<open>
  A run of \<open>n\<close> consecutive array entries from \<open>i\<close> that are free and adjacent in
  memory, which is what the scan looks for.
\<close>

definition free_run :: "pmm \<Rightarrow> nat \<Rightarrow> nat \<Rightarrow> bool" where
  "free_run s i n \<longleftrightarrow> i + n \<le> unat (total_pages s) \<and>
     (\<forall>j < n. pg_is_free (pages s ! (i + j)) \<and>
             pg_addr (pages s ! (i + j)) = pg_addr (pages s ! i) + of_nat j * PAGE_SIZE)"

definition run_addrs :: "u64 \<Rightarrow> nat \<Rightarrow> u64 set" where
  "run_addrs base n = (\<lambda>j. base + of_nat j * PAGE_SIZE) ` {..<n}"

lemma alloc_scan_ok:
  assumes inv: "pmm_inv s" and count: "count \<noteq> 0" and i: "unat i + unat count \<le> unat (total_pages s) + 1"
  shows "(\<exists>k t. unat i \<le> k \<and> free_run s k (unat count) \<and>
            alloc_scan i count s = Some (pg_addr (pages s ! k), t) \<and> pmm_inv t \<and>
            (\<forall>a. frame_at t a = (if a \<in> run_addrs (pg_addr (pages s ! k)) (unat count)
                                 then Some (Held 1) else frame_at s a)))
         \<or> (alloc_scan i count s = Some (0, s) \<and> (\<forall>k \<ge> unat i. \<not> free_run s k (unat count)))"
proof -
  obtain xs where core: "pmm_core s xs" and len: "unat (free_pages_count s) = length xs"
    using inv by (auto simp: pmm_inv_def)
  have tot: "unat (total_pages s) < 2 ^ 63"
    using total_pages_bound [OF core] by simp
  show ?thesis
    using i
  proof (induction "unat (total_pages s) + 1 - unat i" arbitrary: i rule: less_induct)
    case less
    have sum: "unat (i + count) = unat i + unat count"
      using less.prems tot by (simp add: unat_add_64)
    let ?start = "pg_addr (pages s ! unat i)"
    show ?case
    proof (cases "i + count \<le> total_pages s")
      case False
      then have "alloc_scan i count s = Some (0, s)"
        by (subst alloc_scan.simps) simp
      moreover have "\<not> free_run s k (unat count)" if "unat i \<le> k" for k
        using that False sum by (simp add: free_run_def word_le_nat_alt)
      ultimately show ?thesis by blast
    next
      case True
      then have fits: "unat i + unat count \<le> unat (total_pages s)"
        using sum by (simp add: word_le_nat_alt)
      then have run: "run_usable (drop (unat i) (pages s)) ?start (unat count)
                       \<longleftrightarrow> free_run s (unat i) (unat count)"
        using run_usable_drop [of "unat i" "unat count" "pages s" ?start] total_le_length [OF core]
        by (simp add: free_run_def)
      show ?thesis
      proof (cases "free_run s (unat i) (unat count)")
        case fr: True
        have "pg_is_free (pages s ! j)" if "unat i \<le> j" "j < unat i + unat count" for j
        proof -
          have "pg_is_free (pages s ! (unat i + (j - unat i)))"
            using fr that unfolding free_run_def by (metis add_diff_inverse_nat
                nat_add_left_cancel_less not_less)
          then show ?thesis using that by simp
        qed
        from claim_run_ok [OF core fits this] obtain t ys where
          t: "claim_run (unat i) (unat count) s = Some t" "pmm_core t ys"
            "length ys + unat count = length xs" "free_pages_count t = free_pages_count s" and
          at: "\<And>a. frame_at t a = (if a \<in> (\<lambda>j. pg_addr (pages s ! j)) ` {unat i..<unat i + unat count}
                 then Some (Held 1) else frame_at s a)"
          by auto
        let ?t = "t\<lparr>free_pages_count := free_pages_count t - count\<rparr>"
        have "alloc_scan i count s = Some (?start, ?t)"
          using True fr run t(1) by (subst alloc_scan.simps) simp
        moreover have "pmm_inv ?t"
        proof -
          have "unat (free_pages_count t - count) = length ys"
            using t(3,4) len by (subst unat_sub) (simp_all add: word_le_nat_alt)
          moreover have "pmm_core ?t ys"
            using t(2) by (simp add: pmm_core_def used_pages_def)
          ultimately show ?thesis by (auto simp: pmm_inv_def)
        qed
        moreover have "(\<lambda>j. pg_addr (pages s ! j)) ` {unat i..<unat i + unat count} =
                       run_addrs ?start (unat count)"
        proof -
          have "{unat i..<unat i + unat count} = (\<lambda>j. unat i + j) ` {..<unat count}"
            by (auto simp: image_iff) (metis add_diff_inverse_nat lessThan_iff
                nat_add_left_cancel_less not_less)
          then show ?thesis
            using fr unfolding run_addrs_def free_run_def by (simp add: image_image)
        qed
        moreover have "frame_at ?t = frame_at t"
          by (simp add: frame_at_def frames_def used_pages_def)
        ultimately show ?thesis
          using fr at by fastforce
      next
        case False
        then have eq: "alloc_scan i count s = alloc_scan (i + 1) count s"
          using True run by (subst alloc_scan.simps) simp
        have i1: "unat (i + 1) = Suc (unat i)"
          using fits tot count by (simp add: unat_add_64)
        have "unat count \<noteq> 0" using count by (simp add: unat_eq_0)
        then have "unat (total_pages s) + 1 - unat (i + 1) < unat (total_pages s) + 1 - unat i"
          using fits i1 by linarith
        moreover have "unat (i + 1) + unat count \<le> unat (total_pages s) + 1"
          using fits i1 by simp
        ultimately have IH: "(\<exists>k t. unat (i + 1) \<le> k \<and> free_run s k (unat count) \<and>
            alloc_scan (i + 1) count s = Some (pg_addr (pages s ! k), t) \<and> pmm_inv t \<and>
            (\<forall>a. frame_at t a = (if a \<in> run_addrs (pg_addr (pages s ! k)) (unat count)
                                 then Some (Held 1) else frame_at s a)))
         \<or> (alloc_scan (i + 1) count s = Some (0, s) \<and> (\<forall>k \<ge> unat (i + 1). \<not> free_run s k (unat count)))"
          by (rule less.hyps)
        have ge: "unat i \<le> k \<longleftrightarrow> k = unat i \<or> unat (i + 1) \<le> k" for k
          using i1 by auto
        from IH show ?thesis
          unfolding eq ge using False by blast
      qed
    qed
  qed
qed

end
