(* ===== verification/Pmm_Init.thy ===== *)
theory Pmm_Init
  imports Pmm_Proofs
begin

text \<open>
  Start-up of the frame allocator (\<^verbatim>\<open>pmm_init_from_ranges\<close>): the page-stepping
  loops return and visit exactly the pages of a range, importing a page makes it free,
  reserving a range takes exactly the overlapping pages off the free list, and the whole
  of start-up leaves free exactly the pages that are available, not reserved and not
  used for the allocator's own page array.
\<close>

section \<open>The pages of the boot memory map\<close>

definition range_pages :: "pmm_memory_range \<Rightarrow> u64 list" where
  "range_pages r = (if range_unusable r then [] else page_range (range_first r) (range_limit r))"

definition boot_pages :: "pmm_memory_range list \<Rightarrow> u64 list" where
  "boot_pages available = concat (map range_pages available)"

lemma page_aligned_range [simp]: "page_aligned (range_first r)" "page_aligned (range_limit r)"
  by (simp_all add: range_first_def range_limit_def)

lemma import_loop_eq:
  assumes "page_aligned start" and "page_aligned limit"
  shows "import_loop start limit s = Some (fold add_available_page (page_range start limit) s)"
  using assms
proof (induction arbitrary: s rule: page_range_induct)
  case (stop start)
  then show ?case
    by (subst import_loop.simps) (simp add: page_range_done)
next
  case (step start)
  then show ?case
    by (subst import_loop.simps) (simp add: page_range_step [OF step.hyps(1) assms(2)])
qed

lemma import_all_eq: "import_all available s = Some (fold add_available_page (boot_pages available) s)"
proof (induction available arbitrary: s)
  case Nil
  then show ?case by (simp add: boot_pages_def)
next
  case (Cons r rs)
  have "import_available_range r s = Some (fold add_available_page (range_pages r) s)"
    by (simp add: import_available_range_def range_pages_def import_loop_eq)
  with Cons show ?case
    by (simp add: boot_pages_def)
qed

lemma length_page_range_word:
  "start < limit \<Longrightarrow> (limit - start) div PAGE_SIZE = of_nat (length (page_range start limit))"
proof (rule word_unat_eq_iff [THEN iffD2])
  assume "start < limit"
  then have "unat (limit - start) = unat limit - unat start"
    by (intro unat_sub) simp
  moreover have "(unat limit - unat start) div 4096 \<le> unat limit"
    by (meson diff_le_self div_le_dividend le_trans)
  then have "(unat limit - unat start) div 4096 < 2 ^ 64"
    using unat_lt_64 [of limit] by (simp add: le_less_trans)
  ultimately show "unat ((limit - start) div PAGE_SIZE) =
      unat (of_nat (length (page_range start limit)) :: u64)"
    by (simp add: unat_div length_page_range unat_of_nat)
qed

lemma count_available_pages_eq:
  "count_available_pages available c = c + of_nat (length (boot_pages available))"
proof (induction available arbitrary: c)
  case Nil
  then show ?case by (simp add: boot_pages_def)
next
  case (Cons r rs)
  then show ?case
    by (auto simp: boot_pages_def range_pages_def Let_def length_page_range_word
        page_range_done algebra_simps)
qed

lemma boot_pages_aligned: "a \<in> set (boot_pages available) \<Longrightarrow> page_aligned a"
  by (auto simp: boot_pages_def range_pages_def set_page_range split: if_splits)

lemma unat_detected_pages:
  assumes "distinct (boot_pages available)"
  shows "unat (count_available_pages available 0) = length (boot_pages available)"
proof -
  have "length (boot_pages available) \<le> 2 ^ 52"
    by (rule aligned_distinct_bound [OF assms]) (rule boot_pages_aligned)
  then show ?thesis
    by (simp add: count_available_pages_eq unat_of_nat)
qed


section \<open>Importing pages\<close>

lemma add_available_page_ok:
  assumes core: "pmm_core s xs" and cnt: "unat (free_pages_count s) = length xs"
    and room: "total_pages s < page_capacity s"
    and new: "frame_at s a = None" and al: "page_aligned a"
  shows "pmm_core (add_available_page a s) (unat (total_pages s) # xs)"
    and "frame_at (add_available_page a s) = (frame_at s)(a \<mapsto> Free)"
    and "unat (free_pages_count (add_available_page a s)) = Suc (length xs)"
    and "unat (total_pages (add_available_page a s)) = Suc (unat (total_pages s))"
    and "page_capacity (add_available_page a s) = page_capacity s"
    and "metadata_start (add_available_page a s) = metadata_start s"
    and "metadata_end (add_available_page a s) = metadata_end s"
proof -
  let ?i = "unat (total_pages s)"
  let ?q = "(pages s ! ?i)\<lparr>pg_addr := a, pg_is_free := True, pg_ref_count := 0,
              pg_next := free_pages s\<rparr>"
  let ?t = "add_available_page a s"
  have lt: "?i < unat (page_capacity s)"
    using room by (simp add: word_less_nat_alt)
  then have bound: "?i < length (pages s)"
    using core by (simp add: pmm_core_def)
  have pt: "pages ?t = (pages s)[?i := ?q]"
    using room bound by (simp add: add_available_page_def Let_def)
  have sel: "free_pages ?t = Some ?i" "total_pages ?t = total_pages s + 1"
    "free_pages_count ?t = free_pages_count s + 1"
    using room by (simp_all add: add_available_page_def Let_def)
  show cap: "page_capacity ?t = page_capacity s" "metadata_start ?t = metadata_start s"
    "metadata_end ?t = metadata_end s"
    using room by (simp_all add: add_available_page_def Let_def)
  show tot: "unat (total_pages ?t) = Suc ?i"
    using lt unat_inc_64 [of "total_pages s" "unat (page_capacity s)"] sel by simp
  have "length xs \<le> ?i"
    by (rule core_length_xs [OF core])
  then show "unat (free_pages_count ?t) = Suc (length xs)"
    using lt unat_inc_64 [of "free_pages_count s" "unat (page_capacity s)"] sel cnt by simp
  have used: "used_pages ?t = used_pages s @ [?q]"
    unfolding used_pages_def tot pt using bound by (simp add: take_Suc_conv_app_nth)
  have notin: "?i \<notin> set xs"
    using core by (auto simp: pmm_core_def)
  have "a \<notin> pg_addr ` set (used_pages s)"
    using new by (auto simp: frame_at_def frames_def map_of_eq_None_iff image_image)
  moreover have "set (?i # xs) = {i. i < Suc ?i \<and> pg_is_free (pages ?t ! i)}"
  proof -
    have "set xs = {i. i < ?i \<and> pg_is_free (pages s ! i)}"
      using core by (simp add: pmm_core_def)
    moreover have "{i. i < Suc ?i \<and> pg_is_free (pages ?t ! i)} =
        insert ?i {i. i < ?i \<and> pg_is_free (pages s ! i)}"
      using bound by (auto simp: pt less_Suc_eq nth_list_update)
    ultimately show ?thesis by simp
  qed
  moreover have "free_seg (pages ?t) (Some ?i) (?i # xs) None"
    using core bound notin by (simp add: pt pmm_core_def)
  ultimately show "pmm_core ?t (?i # xs)"
    using core al notin lt tot cap
    by (simp add: pmm_core_def used sel(1) pt word_le_nat_alt)
  have "frames ?t = frames s @ [(a, Free)]"
    by (simp add: frames_def used frame_of_def)
  then show "frame_at ?t = (frame_at s)(a \<mapsto> Free)"
    using new unfolding frame_at_def by (auto simp: map_add_def fun_eq_iff split: option.split)
qed

lemma import_pages_ok:
  assumes "pmm_inv s" and "distinct as"
    and "\<And>a. a \<in> set as \<Longrightarrow> page_aligned a \<and> frame_at s a = None"
    and "unat (total_pages s) + length as \<le> unat (page_capacity s)"
  shows "pmm_inv (fold add_available_page as s) \<and>
    frame_at (fold add_available_page as s) = (\<lambda>a. if a \<in> set as then Some Free else frame_at s a) \<and>
    metadata_start (fold add_available_page as s) = metadata_start s \<and>
    metadata_end (fold add_available_page as s) = metadata_end s"
  using assms
proof (induction as arbitrary: s)
  case Nil
  then show ?case by simp
next
  case (Cons a as)
  obtain xs where core: "pmm_core s xs" and len: "unat (free_pages_count s) = length xs"
    using Cons.prems(1) by (auto simp: pmm_inv_def)
  have room: "total_pages s < page_capacity s"
    using Cons.prems(4) by (simp add: word_less_nat_alt)
  have new: "frame_at s a = None" and al: "page_aligned a"
    using Cons.prems(3) by auto
  note ad = add_available_page_ok [OF core len room new al]
  let ?t = "add_available_page a s"
  have "pmm_inv ?t"
    unfolding pmm_inv_def using ad(1,3) by fastforce
  moreover have "page_aligned b \<and> frame_at ?t b = None" if "b \<in> set as" for b
    using Cons.prems(2,3) that ad(2) by auto
  moreover have "unat (total_pages ?t) + length as \<le> unat (page_capacity ?t)"
    using Cons.prems(4) ad(4,5) by simp
  ultimately show ?case
    using Cons.IH [of ?t] Cons.prems(2) ad(2,6,7) by (auto simp: fun_eq_iff)
qed


section \<open>Reserving ranges\<close>

definition page_hit :: "u64 \<Rightarrow> u64 \<Rightarrow> u64 \<Rightarrow> bool" where
  "page_hit a start limit \<longleftrightarrow>
     ranges_overlap a (a + PAGE_SIZE) (align_down start PAGE_SIZE) (align_up limit PAGE_SIZE)"

lemma reserve_loop_ok:
  fixes start limit :: u64
  defines "hit ps \<equiv> \<lambda>i. ranges_overlap (pg_addr (ps ! i)) (pg_addr (ps ! i) + PAGE_SIZE) start limit"
  assumes "free_seg (pages s) (free_pages s) xs None" and "free_seg (pages s) nf ys None"
    and "distinct (xs @ ys)"
  shows "\<exists>nf' t. reserve_loop start limit nf removed s =
      Some (nf', removed + of_nat (length (filter (hit (pages s)) xs)), t) \<and>
    free_seg (pages t) nf' (rev (filter (\<lambda>i. \<not> hit (pages s) i) xs) @ ys) None \<and>
    length (pages t) = length (pages s) \<and> total_pages t = total_pages s \<and>
    page_capacity t = page_capacity s \<and> free_pages_count t = free_pages_count s \<and>
    metadata_start t = metadata_start s \<and> metadata_end t = metadata_end s \<and>
    (\<forall>j < length (pages s). pg_addr (pages t ! j) = pg_addr (pages s ! j) \<and>
        pg_ref_count (pages t ! j) = pg_ref_count (pages s ! j) \<and>
        (pg_is_free (pages t ! j) \<longleftrightarrow>
           pg_is_free (pages s ! j) \<and> \<not> (j \<in> set xs \<and> hit (pages s) j)))"
  using assms(2-)
proof (induction xs arbitrary: s nf ys removed)
  case Nil
  then show ?case
    by (subst reserve_loop.simps) simp
next
  case (Cons x xs)
  then have head: "free_pages s = Some x" and bound: "x < length (pages s)"
    and tail: "free_seg (pages s) (pg_next (pages s ! x)) xs None"
    and notin: "x \<notin> set xs" "x \<notin> set ys" and dist: "distinct (xs @ ys)"
    by auto
  show ?case
  proof (cases "hit (pages s) x")
    case True
    let ?s = "upd_page x (\<lambda>p. p\<lparr>pg_is_free := False, pg_next := None\<rparr>)
                (s\<lparr>free_pages := pg_next (pages s ! x)\<rparr>)"
    have eq: "reserve_loop start limit nf removed s = reserve_loop start limit nf (removed + 1) ?s"
      using True head by (subst reserve_loop.simps) (simp add: hit_def)
    have hits: "hit (pages ?s) j = hit (pages s) j" if "j < length (pages s)" for j
      using that by (cases "j = x") (simp_all add: hit_def)
    have seg1: "free_seg (pages ?s) (free_pages ?s) xs None"
      and seg2: "free_seg (pages ?s) nf ys None"
      using tail Cons.prems(2) notin by simp_all
    have in_bounds: "j < length (pages s)" if "j \<in> set xs" for j
      using free_seg_bound [OF tail that] .
    have filt: "filter (hit (pages ?s)) xs = filter (hit (pages s)) xs"
      "filter (\<lambda>i. \<not> hit (pages ?s) i) xs = filter (\<lambda>i. \<not> hit (pages s) i) xs"
      using hits in_bounds by (auto intro: filter_cong)
    from Cons.IH [OF seg1 seg2 dist, of "removed + 1"] show ?thesis
      unfolding eq filt using True notin bound hits
      by (auto simp: nth_list_update algebra_simps)
  next
    case False
    let ?s = "upd_page x (\<lambda>p. p\<lparr>pg_next := nf\<rparr>) (s\<lparr>free_pages := pg_next (pages s ! x)\<rparr>)"
    have eq: "reserve_loop start limit nf removed s = reserve_loop start limit (Some x) removed ?s"
      using False head by (subst reserve_loop.simps) (simp add: hit_def)
    have hits: "hit (pages ?s) j = hit (pages s) j" if "j < length (pages s)" for j
      using that by (cases "j = x") (simp_all add: hit_def)
    have seg1: "free_seg (pages ?s) (free_pages ?s) xs None"
      and seg2: "free_seg (pages ?s) (Some x) (x # ys) None"
      using tail Cons.prems(2) notin bound by simp_all
    have in_bounds: "j < length (pages s)" if "j \<in> set xs" for j
      using free_seg_bound [OF tail that] .
    have filt: "filter (hit (pages ?s)) xs = filter (hit (pages s)) xs"
      "filter (\<lambda>i. \<not> hit (pages ?s) i) xs = filter (\<lambda>i. \<not> hit (pages s) i) xs"
      using hits in_bounds by (auto intro: filter_cong)
    have dist': "distinct (xs @ x # ys)"
      using dist notin by auto
    from Cons.IH [OF seg1 seg2 dist', of removed] show ?thesis
      unfolding eq filt using False notin bound hits
      by (auto simp: nth_list_update)
  qed
qed


lemma core_same_addrs:
  assumes core: "pmm_core s xs"
    and same: "length (pages t) = length (pages s)" "total_pages t = total_pages s"
      "page_capacity t = page_capacity s"
    and addrs: "\<And>j. j < length (pages s) \<Longrightarrow> pg_addr (pages t ! j) = pg_addr (pages s ! j)"
    and rc: "\<And>j. j < unat (total_pages s) \<Longrightarrow> pg_is_free (pages t ! j) \<Longrightarrow> pg_ref_count (pages t ! j) = 0"
    and chain: "free_seg (pages t) (free_pages t) ys None" "distinct ys"
      "set ys = {j. j < unat (total_pages s) \<and> pg_is_free (pages t ! j)}"
  shows "pmm_core t ys"
    and "\<And>f. frame_at t a = Some f \<longleftrightarrow>
           (\<exists>j < unat (total_pages s). pg_addr (pages s ! j) = a \<and> frame_of (pages t ! j) = f)"
proof -
  have used: "map pg_addr (used_pages t) = map pg_addr (used_pages s)"
    using addrs same(1,2) total_le_length [OF core]
    by (intro nth_equalityI) (simp_all add: used_pages_def)
  have elems: "page_aligned (pg_addr p) \<and> (pg_is_free p \<longrightarrow> pg_ref_count p = 0)"
    if p: "p \<in> set (used_pages t)" for p
  proof -
    obtain j where j: "j < unat (total_pages s)" "p = pages t ! j"
      using p same(1,2) total_le_length [OF core] by (auto simp: in_set_conv_nth used_pages_def)
    then show ?thesis
      using core_page(1,3) [OF core j(1)] addrs rc by simp
  qed
  show t: "pmm_core t ys"
    using core same chain used elems by (simp add: pmm_core_def)
  show "frame_at t a = Some f \<longleftrightarrow>
      (\<exists>j < unat (total_pages s). pg_addr (pages s ! j) = a \<and> frame_of (pages t ! j) = f)" for f
    using frame_at_Some_index [OF t, of a f] frame_at_index [OF t] same(2) addrs
      core_page(1) [OF core] by metis
qed

text \<open>The view after the free frames that satisfy \<open>H\<close> are set aside.\<close>

definition set_aside :: "(u64 \<Rightarrow> bool) \<Rightarrow> (u64 \<Rightarrow> frame option) \<Rightarrow> u64 \<Rightarrow> frame option" where
  "set_aside H v = (\<lambda>a. if v a = Some Free \<and> H a then Some (Held 0) else v a)"

lemma set_aside_none [simp]: "set_aside (\<lambda>_. False) v = v"
  by (simp add: set_aside_def)

lemma set_aside_set_aside [simp]:
  "set_aside H (set_aside K v) = set_aside (\<lambda>a. K a \<or> H a) v"
  by (auto simp: set_aside_def fun_eq_iff)

lemma reserve_range_ok:
  assumes inv: "pmm_inv s"
  shows "\<exists>t. reserve_range start limit s = Some t \<and> pmm_inv t \<and>
    frame_at t = set_aside (\<lambda>a. page_hit a start limit) (frame_at s) \<and>
    metadata_start t = metadata_start s \<and> metadata_end t = metadata_end s"
proof -
  obtain xs where core: "pmm_core s xs" and len: "unat (free_pages_count s) = length xs"
    using inv by (auto simp: pmm_inv_def)
  define hit where "hit i \<longleftrightarrow> page_hit (pg_addr (pages s ! i)) start limit" for i
  have hit: "hit = (\<lambda>i. ranges_overlap (pg_addr (pages s ! i)) (pg_addr (pages s ! i) + PAGE_SIZE)
               (align_down start PAGE_SIZE) (align_up limit PAGE_SIZE))"
    by (simp add: hit_def page_hit_def fun_eq_iff)
  have chain: "free_seg (pages s) (free_pages s) xs None" and dist: "distinct (xs @ [])"
    using core by (simp_all add: pmm_core_def)
  obtain nf u where loop: "reserve_loop (align_down start PAGE_SIZE) (align_up limit PAGE_SIZE) None 0 s =
      Some (nf, of_nat (length (filter hit xs)), u)"
    and seg: "free_seg (pages u) nf (rev (filter (\<lambda>i. \<not> hit i) xs)) None"
    and u: "length (pages u) = length (pages s)" "total_pages u = total_pages s"
      "page_capacity u = page_capacity s" "free_pages_count u = free_pages_count s"
      "metadata_start u = metadata_start s" "metadata_end u = metadata_end s"
    and pg: "\<And>j. j < length (pages s) \<Longrightarrow> pg_addr (pages u ! j) = pg_addr (pages s ! j) \<and>
        pg_ref_count (pages u ! j) = pg_ref_count (pages s ! j) \<and>
        (pg_is_free (pages u ! j) \<longleftrightarrow> pg_is_free (pages s ! j) \<and> \<not> (j \<in> set xs \<and> hit j))"
    using reserve_loop_ok [OF chain _ dist, of None "align_down start PAGE_SIZE"
        "align_up limit PAGE_SIZE" 0]
    unfolding hit by auto
  let ?ys = "rev (filter (\<lambda>i. \<not> hit i) xs)"
  let ?t = "u\<lparr>free_pages := nf, free_pages_count := free_pages_count u - of_nat (length (filter hit xs))\<rparr>"
  have res: "reserve_range start limit s = Some ?t"
    by (simp add: reserve_range_def loop)
  have free_iff: "pg_is_free (pages u ! j) \<longleftrightarrow> j \<in> set xs \<and> \<not> hit j"
    if "j < unat (total_pages s)" for j
    using pg core_page [OF core that] by auto
  have xs_bound: "j \<in> set xs \<Longrightarrow> j < unat (total_pages s)" for j
    using core by (auto simp: pmm_core_def)
  have rc: "pg_ref_count (pages ?t ! j) = 0"
    if j: "j < unat (total_pages s)" and fr: "pg_is_free (pages ?t ! j)" for j
  proof -
    have "pages s ! j \<in> set (used_pages s)"
      using j length_used_pages [OF core] by (metis nth_mem nth_used_pages)
    moreover have "pg_is_free (pages s ! j)"
      using fr free_iff [OF j] core_page(2) [OF core j] by simp
    ultimately show ?thesis
      using core pg [OF core_page(1) [OF core j]] by (auto simp: pmm_core_def)
  qed
  have addrs: "pg_addr (pages ?t ! j) = pg_addr (pages s ! j)" if "j < length (pages s)" for j
    using pg [OF that] by simp
  have seg': "free_seg (pages ?t) (free_pages ?t) ?ys None" and dys: "distinct ?ys"
    using seg dist by simp_all
  have set_ys: "set ?ys = {j. j < unat (total_pages s) \<and> pg_is_free (pages ?t ! j)}"
    using free_iff xs_bound by auto
  have same: "length (pages ?t) = length (pages s)" "total_pages ?t = total_pages s"
    "page_capacity ?t = page_capacity s"
    using u by simp_all
  note t = core_same_addrs [OF core same addrs rc seg' dys set_ys]
  have "unat (free_pages_count ?t) = length ?ys"
  proof -
    have sum: "length (filter hit xs) + length (filter (\<lambda>i. \<not> hit i) xs) = length xs"
      by (rule sum_length_filter_compl)
    moreover have "length (filter hit xs) \<le> length xs"
      by (rule length_filter_le)
    moreover have "length xs < 2 ^ 64"
      using len unat_lt_64 [of "free_pages_count s"] by simp
    ultimately have "unat (of_nat (length (filter hit xs)) :: u64) = length (filter hit xs)"
      by (simp add: unat_of_nat)
    then show ?thesis
      using sum len u(4) by (simp, subst unat_sub) (simp_all add: word_le_nat_alt)
  qed
  with t(1) have "pmm_inv ?t"
    unfolding pmm_inv_def by blast
  moreover have "frame_at ?t = set_aside (\<lambda>a. page_hit a start limit) (frame_at s)"
  proof
    fix a
    show "frame_at ?t a = set_aside (\<lambda>a. page_hit a start limit) (frame_at s) a"
    proof (cases "frame_at s a")
      case None
      then have "frame_at ?t a \<noteq> Some f" for f
        using t(2) [of a f] frame_at_None_iff [OF core, of a] by auto
      then have "frame_at ?t a = None" by (cases "frame_at ?t a") auto
      with None show ?thesis by (simp add: set_aside_def)
    next
      case (Some f)
      then obtain j where j: "j < unat (total_pages s)" "pg_addr (pages s ! j) = a"
        "frame_of (pages s ! j) = f"
        using frame_at_Some_index [OF core] by metis
      then have at: "frame_at ?t a = Some (frame_of (pages u ! j))"
        using t(2) [of a "frame_of (pages u ! j)"] by auto
      have h: "hit j = page_hit a start limit"
        using j(2) by (simp add: hit_def)
      have "pg_ref_count (pages s ! j) = 0" if "pg_is_free (pages s ! j)"
      proof -
        have "pages s ! j \<in> set (used_pages s)"
          using j(1) length_used_pages [OF core] by (metis nth_mem nth_used_pages)
        with that core show ?thesis by (auto simp: pmm_core_def)
      qed
      then show ?thesis
        using at h j(3) Some free_iff [OF j(1)] core_page(2) [OF core j(1)]
          pg [OF core_page(1) [OF core j(1)]]
        by (auto simp: frame_of_def set_aside_def)
    qed
  qed
  ultimately show ?thesis
    using res u by auto
qed


definition any_hit :: "pmm_reserved_range list \<Rightarrow> u64 \<Rightarrow> bool" where
  "any_hit reserved a \<longleftrightarrow> (\<exists>r \<in> set reserved. page_hit a (rsv_start r) (rsv_end r))"

lemma reserve_all_ok:
  assumes "pmm_inv s"
  shows "\<exists>t. reserve_all reserved s = Some t \<and> pmm_inv t \<and>
    frame_at t = set_aside (any_hit reserved) (frame_at s) \<and>
    metadata_start t = metadata_start s \<and> metadata_end t = metadata_end s"
  using assms
proof (induction reserved arbitrary: s)
  case Nil
  then show ?case by (simp add: any_hit_def)
next
  case (Cons r rs)
  obtain u where u: "reserve_range (rsv_start r) (rsv_end r) s = Some u" "pmm_inv u"
    "frame_at u = set_aside (\<lambda>a. page_hit a (rsv_start r) (rsv_end r)) (frame_at s)"
    "metadata_start u = metadata_start s" "metadata_end u = metadata_end s"
    using reserve_range_ok [OF Cons.prems] by blast
  have "any_hit (r # rs) = (\<lambda>a. page_hit a (rsv_start r) (rsv_end r) \<or> any_hit rs a)"
    by (auto simp: any_hit_def fun_eq_iff)
  with Cons.IH [OF u(2)] u show ?case by simp
qed


section \<open>Placing the page array\<close>

definition metadata_room :: "u64 \<Rightarrow> pmm_reserved_range list \<Rightarrow> u64 \<Rightarrow> u64 \<Rightarrow> bool" where
  "metadata_room bytes reserved limit a \<longleftrightarrow>
     bytes \<le> limit - a \<and> \<not> range_is_reserved_by_list a (a + bytes) reserved"

definition metadata_sites ::
  "u64 \<Rightarrow> pmm_reserved_range list \<Rightarrow> pmm_memory_range list \<Rightarrow> u64 list" where
  "metadata_sites bytes reserved available =
     concat (map (\<lambda>r. filter (metadata_room bytes reserved (range_limit r)) (range_pages r)) available)"

lemma metadata_scan_eq:
  assumes "page_aligned start" and "page_aligned limit"
  shows "metadata_scan bytes reserved start limit =
    Some (case filter (metadata_room bytes reserved limit) (page_range start limit) of
            [] \<Rightarrow> None | a # _ \<Rightarrow> Some a)"
  using assms
proof (induction rule: page_range_induct)
  case (stop start)
  then show ?case
    by (subst metadata_scan.simps) (simp add: page_range_done)
next
  case (step start)
  show ?case
  proof (cases "bytes \<le> limit - start")
    case True
    then have "metadata_room bytes reserved limit start \<longleftrightarrow>
        \<not> range_is_reserved_by_list start (start + bytes) reserved"
      by (simp add: metadata_room_def)
    with True show ?thesis
      using step by (subst metadata_scan.simps)
        (simp add: page_range_step [OF step.hyps(1) assms(2)])
  next
    case False
    have "\<not> bytes \<le> limit - a" if "a \<in> set (page_range start limit)" for a
    proof -
      have "start \<le> a" "a < limit"
        using that step.hyps(1) assms(2) by (auto simp: set_page_range)
      then have "unat (limit - a) = unat limit - unat a"
        and "unat (limit - start) = unat limit - unat start" and "unat start \<le> unat a"
        by (simp_all add: unat_sub word_le_nat_alt word_less_nat_alt)
      then have "limit - a \<le> limit - start"
        by (simp add: word_le_nat_alt)
      with False show ?thesis by (meson order_trans)
    qed
    then have "filter (metadata_room bytes reserved limit) (page_range start limit) = []"
      by (auto simp: filter_empty_conv metadata_room_def)
    with False show ?thesis
      by (subst metadata_scan.simps) simp
  qed
qed

lemma find_metadata_in_eq:
  "find_metadata_in bytes reserved available =
     Some (case metadata_sites bytes reserved available of [] \<Rightarrow> None | a # _ \<Rightarrow> Some a)"
proof (induction available)
  case Nil
  then show ?case by (simp add: metadata_sites_def)
next
  case (Cons r rs)
  let ?here = "filter (metadata_room bytes reserved (range_limit r)) (range_pages r)"
  have sites: "metadata_sites bytes reserved (r # rs) = ?here @ metadata_sites bytes reserved rs"
    by (simp add: metadata_sites_def)
  show ?case
    unfolding sites using Cons
    by (cases ?here; cases "range_unusable r") (simp_all add: metadata_scan_eq range_pages_def)
qed

definition metadata_bytes :: "pmm_memory_range list \<Rightarrow> u64" where
  "metadata_bytes available = align_up (of_nat (length (boot_pages available)) * PMM_PAGE_STRUCT) PAGE_SIZE"

lemma metadata_bytes_pos:
  assumes "distinct (boot_pages available)" and "boot_pages available \<noteq> []"
  shows "0 < unat (metadata_bytes available)"
proof -
  let ?n = "length (boot_pages available)"
  have n: "?n \<le> 2 ^ 52"
    by (rule aligned_distinct_bound [OF assms(1)]) (rule boot_pages_aligned)
  moreover have "0 < ?n" using assms(2) by simp
  moreover from n have "unat (of_nat ?n * PMM_PAGE_STRUCT :: u64) = ?n * 24"
    by (simp add: unat_word_ariths unat_of_nat)
  ultimately show ?thesis
    by (simp add: metadata_bytes_def unat_align_up div_greater_zero_iff Suc_le_eq)
qed

lemma metadata_sites_pages: "a \<in> set (metadata_sites b reserved available) \<Longrightarrow>
  a \<in> set (boot_pages available) \<and>
  (\<exists>r \<in> set available. a < range_limit r \<and> metadata_room b reserved (range_limit r) a)"
  by (auto simp: metadata_sites_def boot_pages_def range_pages_def set_page_range split: if_splits)

lemma metadata_no_wrap:
  assumes "metadata_room b reserved limit a" and "a < limit" and "0 < unat b"
  shows "a < a + b"
proof -
  have "unat b \<le> unat limit - unat a"
    using assms(1,2) unat_sub [of a limit] by (simp add: metadata_room_def word_le_nat_alt word_less_nat_alt)
  then have "unat a + unat b \<le> unat limit"
    using assms(2) by (simp add: word_less_nat_alt)
  then have "unat a + unat b < 18446744073709551616"
    by (rule le_less_trans) (rule unat_lt_64)
  then have "unat (a + b) = unat a + unat b"
    by (simp add: unat_add_64)
  with assms(3) show ?thesis by (simp add: word_less_nat_alt)
qed

lemma pmm_inv_fresh:
  "pmm_inv (pmm_zero\<lparr>metadata_start := a, metadata_end := b,
      pages := replicate (unat n) zero_page_record, page_capacity := n\<rparr>)"
  "frame_at (pmm_zero\<lparr>metadata_start := a, metadata_end := b,
      pages := replicate (unat n) zero_page_record, page_capacity := n\<rparr>) = Map.empty"
  by (auto simp: pmm_inv_def pmm_core_def pmm_zero_def used_pages_def frame_at_def frames_def
      intro!: exI [of _ "[]"])

theorem pmm_init_ok:
  assumes dist: "distinct (boot_pages available)"
    and site: "metadata_sites (metadata_bytes available) reserved available = base # sites"
    and base: "base \<noteq> 0"
  shows "\<exists>s. pmm_init_from_ranges available reserved = Some s \<and> pmm_inv s \<and>
    metadata_start s = base \<and> metadata_end s = base + metadata_bytes available \<and>
    frame_at s = (\<lambda>a. if a \<in> set (boot_pages available)
       then Some (if any_hit reserved a \<or> page_hit a base (base + metadata_bytes available)
                  then Held 0 else Free)
       else None)"
proof -
  let ?b = "metadata_bytes available"
  let ?n = "count_available_pages available 0"
  define s0 where "s0 = pmm_zero\<lparr>metadata_start := base, metadata_end := base + ?b,
      pages := replicate (unat ?n) zero_page_record, page_capacity := ?n\<rparr>"
  have bytes: "align_up (?n * PMM_PAGE_STRUCT) PAGE_SIZE = ?b"
    by (simp add: metadata_bytes_def count_available_pages_eq)
  have in_pages: "base \<in> set (boot_pages available)"
    and room: "\<exists>r \<in> set available. base < range_limit r \<and> metadata_room ?b reserved (range_limit r) base"
    using metadata_sites_pages [of base ?b reserved available] site by auto
  then have "boot_pages available \<noteq> []" by auto
  then have wrap: "base < base + ?b"
    using metadata_no_wrap metadata_bytes_pos [OF dist] room by blast
  have found: "find_metadata_storage_from_ranges available reserved ?n pmm_zero =
      Some (base, pmm_zero\<lparr>metadata_start := base, metadata_end := base + ?b\<rparr>)"
    unfolding find_metadata_storage_from_ranges_def bytes Let_def
    by (simp add: find_metadata_in_eq site)
  let ?s2 = "fold add_available_page (boot_pages available) s0"
  have fresh: "pmm_inv s0" "frame_at s0 = Map.empty"
    unfolding s0_def by (rule pmm_inv_fresh)+
  have cap: "unat (total_pages s0) + length (boot_pages available) \<le> unat (page_capacity s0)"
    using unat_detected_pages [OF dist] by (simp add: s0_def pmm_zero_def)
  have meta: "metadata_start s0 = base" "metadata_end s0 = base + ?b"
    by (simp_all add: s0_def)
  have s2: "pmm_inv ?s2"
    "frame_at ?s2 = (\<lambda>a. if a \<in> set (boot_pages available) then Some Free else None)"
    "metadata_start ?s2 = base" "metadata_end ?s2 = base + ?b"
    using import_pages_ok [OF fresh(1) dist _ cap] boot_pages_aligned [of _ available]
    unfolding fresh(2) by (simp_all add: meta)
  from reserve_all_ok [OF s2(1), of reserved] obtain s3 where
    s3: "reserve_all reserved ?s2 = Some s3" "pmm_inv s3"
      "frame_at s3 = set_aside (any_hit reserved) (frame_at ?s2)"
      "metadata_start s3 = base" "metadata_end s3 = base + ?b"
    using s2 by auto
  from reserve_range_ok [OF s3(2), of base "base + ?b"] obtain s4 where
    s4: "reserve_range base (base + ?b) s3 = Some s4" "pmm_inv s4"
      "frame_at s4 = set_aside (\<lambda>a. page_hit a base (base + ?b)) (frame_at s3)"
      "metadata_start s4 = base" "metadata_end s4 = base + ?b"
    using s3 by auto
  have "pmm_init_from_ranges available reserved = Some s4"
    using wrap base s3 s4
    by (simp add: pmm_init_from_ranges_def found import_all_eq Let_def flip: s0_def)
  moreover have "frame_at s4 = (\<lambda>a. if a \<in> set (boot_pages available)
       then Some (if any_hit reserved a \<or> page_hit a base (base + ?b) then Held 0 else Free)
       else None)"
    by (auto simp: s4(3) s3(3) s2(2) set_aside_def fun_eq_iff)
  ultimately show ?thesis
    using s4 by blast
qed

end
