(* ===== verification/Pmm_Spec.thy ===== *)
theory Pmm_Spec
  imports Pmm_Init
begin

text \<open>
  What the frame allocator promises its clients: the interface \<open>frame_store\<close>, its
  interpretation on \<^verbatim>\<open>pmm.c\<close>, the states the allocator can reach from start-up,
  and the properties of start-up, allocation and release.
\<close>

section \<open>The interface\<close>

lemma one_less_inc_32:
  assumes "n \<noteq> 0" and "n + 1 \<noteq> (0 :: u32)"
  shows "1 < n + 1"
proof -
  have "unat (n + 1) = Suc (unat n) mod 4294967296"
    by (simp add: unat_word_ariths)
  moreover have "unat (n + 1) \<noteq> 0" "unat n \<noteq> 0"
    using assms by (simp_all add: unat_eq_0)
  ultimately have "unat (n + 1) = Suc (unat n)"
    using unat_lt_32 [of n] by (cases "Suc (unat n) = 4294967296") auto
  then show ?thesis
    using \<open>unat n \<noteq> 0\<close> by (simp add: word_less_nat_alt)
qed

text \<open>
  A store of reference-counted frames, as seen by the VM layer: \<open>view\<close> gives the state
  of each managed frame, \<open>alloc\<close> answers a page descriptor, \<open>addr\<close> its address.
\<close>

locale frame_store =
  fixes inv :: "'s \<Rightarrow> bool"
    and view :: "'s \<Rightarrow> u64 \<Rightarrow> frame option"
    and alloc :: "'s \<Rightarrow> 'p option \<times> 's"
    and addr :: "'p option \<Rightarrow> 's \<Rightarrow> u64"
    and retain :: "u64 \<Rightarrow> 's \<Rightarrow> status \<times> 's"
    and release :: "u64 \<Rightarrow> 's \<Rightarrow> 's"
  assumes alloc_some: "inv s \<Longrightarrow> alloc s = (Some p, t) \<Longrightarrow>
        inv t \<and> view s (addr (Some p) s) = Some Free \<and>
        view t = (view s)(addr (Some p) s \<mapsto> Held 1) \<and> addr (Some p) t = addr (Some p) s"
    and alloc_none: "inv s \<Longrightarrow> alloc s = (None, t) \<Longrightarrow> t = s \<and> (\<forall>a. view s a \<noteq> Some Free)"
    and retain_spec: "inv s \<Longrightarrow> retain a s = (r, t) \<Longrightarrow>
        inv t \<and> r = fst (retain_frame (view s a)) \<and>
        view t = (view s)(a := snd (retain_frame (view s a)))"
    and release_spec: "inv s \<Longrightarrow>
        inv (release a s) \<and> view (release a s) = (view s)(a := release_frame (view s a))"
begin

text \<open>Allocating and releasing a frame leaves every frame as it was.\<close>

lemma alloc_release:
  assumes "inv s" and "alloc s = (Some p, t)"
  shows "view (release (addr (Some p) t) t) = view s"
  using alloc_some [OF assms] release_spec by (auto simp: release_frame_def fun_eq_iff)

text \<open>Two allocations without a release in between answer different frames.\<close>

lemma alloc_alloc_distinct:
  assumes "inv s" and "alloc s = (Some p, t)" and "alloc t = (Some q, u)"
  shows "addr (Some p) t \<noteq> addr (Some q) u"
  using alloc_some [OF assms(1,2)] alloc_some [OF _ assms(3)] by auto

text \<open>A frame shared \<open>n\<close> times is freed by the last of \<open>n + 1\<close> releases.\<close>

lemma retain_release:
  assumes "inv s" and "view s a = Some (Held n)" and "n \<noteq> 0" and "n + 1 \<noteq> 0"
    and "retain a s = (r, t)"
  shows "r = OK" and "view (release a t) = view s"
proof -
  have t: "inv t" "r = OK" "view t = (view s)(a \<mapsto> Held (n + 1))"
    using retain_spec [OF assms(1,5)] assms(2,3) by (auto simp: retain_frame_def)
  have "1 < n + 1"
    using assms(3,4) by (rule one_less_inc_32)
  then have "release_frame (Some (Held (n + 1))) = Some (Held n)"
    by (simp add: release_frame_def)
  with t show "r = OK" and "view (release a t) = view s"
    using release_spec [OF t(1), of a] assms(2) by (auto simp: fun_eq_iff)
qed

end

interpretation pmm_store: frame_store pmm_inv frame_at pmm_page_alloc pmm_page_addr
  pmm_page_retain_addr pmm_page_free_addr
proof (unfold_locales, goal_cases)
  case (1 s p t)
  then show ?case using pmm_page_alloc_some by blast
next
  case (2 s t)
  then show ?case using pmm_page_alloc_none by (auto simp: free_frames_def)
next
  case (3 s a r t)
  then show ?case using retain_refines by blast
next
  case (4 s a)
  then show ?case using free_addr_refines by blast
qed


section \<open>Contiguous runs\<close>

lemma contiguous_cases:
  assumes "pmm_inv s" and "count \<noteq> 0"
  shows "(\<exists>k t. free_run s k (unat count) \<and>
            pmm_pages_alloc_contiguous count s = Some (pg_addr (pages s ! k), t) \<and> pmm_inv t \<and>
            (\<forall>a. frame_at t a = (if a \<in> run_addrs (pg_addr (pages s ! k)) (unat count)
                                 then Some (Held 1) else frame_at s a)))
         \<or> (pmm_pages_alloc_contiguous count s = Some (0, s) \<and> (\<forall>k. \<not> free_run s k (unat count)))"
proof (cases "unat count \<le> unat (total_pages s)")
  case True
  then show ?thesis
    using alloc_scan_ok [OF assms, of 0] assms(2) by (simp add: pmm_pages_alloc_contiguous_def)
next
  case False
  then show ?thesis
    using assms(2)
    by (auto simp: pmm_pages_alloc_contiguous_def alloc_scan.simps free_run_def word_le_nat_alt)
qed

lemma free_run_free_frames:
  assumes "pmm_inv s" and "free_run s k n"
  shows "run_addrs (pg_addr (pages s ! k)) n \<subseteq> free_frames s"
proof
  fix a
  assume "a \<in> run_addrs (pg_addr (pages s ! k)) n"
  then obtain j where j: "j < n" "a = pg_addr (pages s ! (k + j))"
    using assms(2) by (auto simp: run_addrs_def free_run_def)
  moreover have "k + j < unat (total_pages s)" "pg_is_free (pages s ! (k + j))"
    using j(1) assms(2) by (auto simp: free_run_def)
  moreover obtain xs where "pmm_core s xs"
    using assms(1) by (auto simp: pmm_inv_def)
  ultimately show "a \<in> free_frames s"
    using frame_at_index [of s xs "k + j"] by (simp add: free_frames_def frame_of_def)
qed

lemma free_contiguous_loop_ok:
  assumes "pmm_inv s"
  shows "pmm_inv (free_contiguous_loop addr n s)"
    and "dom (frame_at (free_contiguous_loop addr n s)) = dom (frame_at s)"
  using assms
proof (induction n arbitrary: addr s)
  case (Suc n)
  { case 1 then show ?case using Suc.IH(1) free_addr_refines(1) by simp }
  { case 2
    have "dom (frame_at (pmm_page_free_addr addr s)) = dom (frame_at s)"
      using free_addr_refines(2) [OF 2]
      by (auto simp: release_frame_def dom_def split: option.splits frame.splits if_splits)
    then show ?case using Suc.IH(2) free_addr_refines(1) 2 by simp }
qed simp_all

text \<open>Releasing a run of frames each held once frees exactly the run.\<close>

lemma free_contiguous_view:
  assumes "pmm_inv s" and "inj_on (\<lambda>j. addr + of_nat j * PAGE_SIZE) {..<n}"
    and "\<And>a. a \<in> run_addrs addr n \<Longrightarrow> frame_at s a = Some (Held 1)"
  shows "frame_at (free_contiguous_loop addr n s) =
    (\<lambda>a. if a \<in> run_addrs addr n then Some Free else frame_at s a)"
  using assms
proof (induction n arbitrary: addr s)
  case 0
  then show ?case by (simp add: run_addrs_def)
next
  case (Suc n)
  let ?s = "pmm_page_free_addr addr s"
  have run: "run_addrs addr (Suc n) = insert addr (run_addrs (addr + PAGE_SIZE) n)"
    by (simp add: run_addrs_def lessThan_Suc_eq_insert_0 image_image algebra_simps)
  have step: "(\<lambda>j. addr + PAGE_SIZE + of_nat j * PAGE_SIZE) = (\<lambda>j. addr + of_nat (Suc j) * PAGE_SIZE)"
    by (simp add: fun_eq_iff algebra_simps)
  have inj: "inj_on (\<lambda>j. addr + PAGE_SIZE + of_nat j * PAGE_SIZE) {..<n}"
    unfolding step
  proof (rule inj_onI)
    fix i j
    assume "i \<in> {..<n}" "j \<in> {..<n}"
      and "addr + of_nat (Suc i) * PAGE_SIZE = addr + of_nat (Suc j) * PAGE_SIZE"
    with inj_onD [OF Suc.prems(2) this(3)] show "i = j" by simp
  qed
  have new: "addr \<notin> run_addrs (addr + PAGE_SIZE) n"
  proof
    assume "addr \<in> run_addrs (addr + PAGE_SIZE) n"
    then obtain j where "j < n" "addr + of_nat 0 * PAGE_SIZE = addr + of_nat (Suc j) * PAGE_SIZE"
      unfolding run_addrs_def step by auto
    with inj_onD [OF Suc.prems(2) this(2)] show False by simp
  qed
  have view: "frame_at ?s = (frame_at s)(addr \<mapsto> Free)"
    using free_addr_refines(2) [OF Suc.prems(1)] Suc.prems(3) run
    by (simp add: release_frame_def)
  have "frame_at (free_contiguous_loop (addr + PAGE_SIZE) n ?s) =
    (\<lambda>a. if a \<in> run_addrs (addr + PAGE_SIZE) n then Some Free else frame_at ?s a)"
    using inj new view Suc.prems(3) run
    by (intro Suc.IH free_addr_refines(1) Suc.prems(1)) auto
  then show ?case
    using run view by (auto simp: fun_eq_iff)
qed

lemma free_run_inj:
  assumes "pmm_inv s" and "free_run s k n"
  shows "inj_on (\<lambda>j. pg_addr (pages s ! k) + of_nat j * PAGE_SIZE) {..<n}"
proof (rule inj_onI)
  fix i j
  assume ij: "i \<in> {..<n}" "j \<in> {..<n}"
    and "pg_addr (pages s ! k) + of_nat i * PAGE_SIZE = pg_addr (pages s ! k) + of_nat j * PAGE_SIZE"
  then have "pg_addr (pages s ! (k + i)) = pg_addr (pages s ! (k + j))"
    using assms(2) by (simp add: free_run_def)
  moreover obtain xs where "pmm_core s xs"
    using assms(1) by (auto simp: pmm_inv_def)
  ultimately have "k + i = k + j"
    using ij assms(2) by (intro addr_inj) (auto simp: free_run_def)
  then show "i = j" by simp
qed


section \<open>The states the allocator reaches\<close>

text \<open>The free-page counter counts the free frames.\<close>

lemma free_count:
  assumes "pmm_inv s"
  shows "unat (pmm_free_page_count s) = card (free_frames s)"
proof -
  obtain xs where core: "pmm_core s xs" and len: "unat (free_pages_count s) = length xs"
    using assms by (auto simp: pmm_inv_def)
  have set: "set xs = {i. i < unat (total_pages s) \<and> pg_is_free (pages s ! i)}"
    and "distinct xs"
    using core by (simp_all add: pmm_core_def)
  have "free_frames s = (\<lambda>i. pg_addr (pages s ! i)) ` set xs"
  proof (intro equalityI subsetI)
    fix a
    assume "a \<in> free_frames s"
    then obtain i where "i < unat (total_pages s)" "pg_addr (pages s ! i) = a"
        "frame_of (pages s ! i) = Free"
      by (auto simp: free_frames_def elim: frame_at_Some_index [OF core])
    then show "a \<in> (\<lambda>i. pg_addr (pages s ! i)) ` set xs"
      by (auto simp: set frame_of_def split: if_splits)
  qed (auto simp: free_frames_def frame_at_index [OF core] frame_of_def set)
  moreover have "inj_on (\<lambda>i. pg_addr (pages s ! i)) (set xs)"
    by (rule inj_onI, rule addr_inj [OF core]) (auto simp: set)
  ultimately show ?thesis
    using len \<open>distinct xs\<close> by (simp add: pmm_free_page_count_def card_image distinct_card)
qed

datatype pmm_op = Alloc | Alloc_Run u64 | Retain u64 | Release u64 | Release_Run u64 u64

definition pmm_do :: "pmm_op \<Rightarrow> pmm \<Rightarrow> pmm option" where
  "pmm_do op s =
     (case op of
        Alloc \<Rightarrow> Some (snd (pmm_page_alloc s))
      | Alloc_Run n \<Rightarrow> map_option snd (pmm_pages_alloc_contiguous n s)
      | Retain a \<Rightarrow> Some (snd (pmm_page_retain_addr a s))
      | Release a \<Rightarrow> Some (pmm_page_free_addr a s)
      | Release_Run a n \<Rightarrow> Some (pmm_pages_free_contiguous a n s))"

inductive pmm_reaches :: "pmm \<Rightarrow> pmm \<Rightarrow> bool" for s0 where
  start: "pmm_reaches s0 s0"
| step: "pmm_reaches s0 s \<Longrightarrow> pmm_do op s = Some t \<Longrightarrow> pmm_reaches s0 t"

text \<open>Every call returns, keeps the invariant and the set of managed frames.\<close>

lemma pmm_do_ok:
  assumes "pmm_inv s"
  shows "\<exists>t. pmm_do op s = Some t \<and> pmm_inv t \<and> dom (frame_at t) = dom (frame_at s)"
proof (cases op)
  case Alloc
  then show ?thesis
    using pmm_page_alloc_some [OF assms] pmm_page_alloc_none [OF assms] assms
    by (cases "pmm_page_alloc s"; cases "fst (pmm_page_alloc s)") (auto simp: pmm_do_def)
next
  case (Alloc_Run n)
  show ?thesis
  proof (cases "n = 0")
    case True
    then show ?thesis using Alloc_Run assms by (simp add: pmm_do_def pmm_pages_alloc_contiguous_def)
  next
    case False
    from contiguous_cases [OF assms False] show ?thesis
    proof (elim disjE exE conjE)
      fix k t
      assume run: "free_run s k (unat n)" and inv: "pmm_inv t"
        and ret: "pmm_pages_alloc_contiguous n s = Some (pg_addr (pages s ! k), t)"
        and view: "\<forall>a. frame_at t a = (if a \<in> run_addrs (pg_addr (pages s ! k)) (unat n)
                                        then Some (Held 1) else frame_at s a)"
      have "dom (frame_at t) = dom (frame_at s)"
        using view free_run_free_frames [OF assms run] by (auto simp: dom_def free_frames_def)
      with inv ret Alloc_Run show ?thesis by (simp add: pmm_do_def)
    qed (use Alloc_Run assms in \<open>simp add: pmm_do_def\<close>)
  qed
next
  case (Retain a)
  obtain r t where ret: "pmm_page_retain_addr a s = (r, t)" by fastforce
  from retain_refines [OF assms ret] ret Retain show ?thesis
    by (auto simp: pmm_do_def retain_frame_def dom_def split: option.splits frame.splits)
next
  case (Release a)
  then show ?thesis
    using free_contiguous_loop_ok [OF assms, of a 1] by (simp add: pmm_do_def)
next
  case (Release_Run a n)
  then show ?thesis
    using free_contiguous_loop_ok [OF assms, of a "unat n"]
    by (simp add: pmm_do_def pmm_pages_free_contiguous_def)
qed

lemma pmm_reaches_ok:
  assumes "pmm_reaches s0 s" and "pmm_inv s0"
  shows "pmm_inv s \<and> dom (frame_at s) = dom (frame_at s0)"
  using assms
proof induction
  case (step s op t)
  then show ?case
    using pmm_do_ok [of s op] by auto
qed simp


section \<open>Properties\<close>

text \<open>A page that holds a byte of a reserved range overlaps the range rounded to pages.\<close>

lemma page_hit_byte:
  assumes "start \<le> b" and "b < limit" and "limit \<le> - 4096"
  shows "page_hit (align_down b PAGE_SIZE) start limit"
proof -
  let ?a = "align_down b PAGE_SIZE"
  have lim: "unat limit \<le> 2 ^ 64 - 4096"
    using assms(3) by (simp add: word_le_nat_alt)
  have b: "unat start \<le> unat b" "unat b < unat limit"
    using assms(1,2) by (simp_all add: word_le_nat_alt word_less_nat_alt)
  have down: "4096 * (n div 4096) \<le> n" "n < 4096 * (n div 4096) + 4096" for n :: nat
    by (simp_all add: times_div_less_eq_dividend dividend_less_times_div)
  have "unat (?a + PAGE_SIZE) = unat ?a + 4096"
    using b lim down(1) [of "unat b"] by (simp add: unat_add_64)
  moreover have "unat limit \<le> unat (align_up limit PAGE_SIZE)"
    unfolding unat_align_up [OF lim] using down(2) [of "unat limit + 4095"] by linarith
  moreover have "4096 * (unat start div 4096) \<le> unat start"
    by (rule down(1))
  ultimately show ?thesis
    using b down [of "unat b"]
    unfolding page_hit_def ranges_overlap_def word_less_nat_alt unat_align_down by linarith
qed

lemmas boot_eval = boot_pages_def range_pages_def range_unusable_def range_first_def
  range_limit_def page_range_def align_down_eval align_up_eval upt_rec_numeral upt_eval
  metadata_sites_def metadata_room_def ranges_overlap_def any_hit_def page_hit_def

text \<open>
  A small allocator state to evaluate the operations on: two free frames and a frame
  with two holders.
\<close>

lemma less_3_iff: "i < (3::nat) \<longleftrightarrow> i = 0 \<or> i = 1 \<or> i = 2"
  by auto

lemma less_2_iff: "i < (2::nat) \<longleftrightarrow> i = 0 \<or> i = 1"
  by auto

definition sample_pmm :: pmm where
  "sample_pmm = \<lparr>pages =
     [\<lparr>pg_addr = 0x1000, pg_is_free = True, pg_ref_count = 0, pg_next = Some 1\<rparr>,
      \<lparr>pg_addr = 0x2000, pg_is_free = True, pg_ref_count = 0, pg_next = None\<rparr>,
      \<lparr>pg_addr = 0x3000, pg_is_free = False, pg_ref_count = 2, pg_next = None\<rparr>],
     free_pages = Some 0, page_capacity = 3, total_pages = 3, free_pages_count = 2,
     metadata_start = 0, metadata_end = 0\<rparr>"

lemma sample_inv: "pmm_inv sample_pmm"
proof -
  have "free_seg (pages sample_pmm) (free_pages sample_pmm) [0, 1] None"
    by (simp add: sample_pmm_def)
  moreover have "set [0, 1] = {i. i < unat (total_pages sample_pmm) \<and> pg_is_free (pages sample_pmm ! i)}"
    by (auto simp: sample_pmm_def less_3_iff)
  moreover have "used_pages sample_pmm = pages sample_pmm"
    by (simp add: used_pages_def sample_pmm_def)
  moreover have "\<forall>p \<in> set (pages sample_pmm). page_aligned (pg_addr p) \<and>
        (pg_is_free p \<longrightarrow> pg_ref_count p = 0)"
    by (simp add: sample_pmm_def page_aligned_def)
  moreover have "distinct (map pg_addr (pages sample_pmm))"
    by (simp add: sample_pmm_def)
  moreover have "length (pages sample_pmm) = unat (page_capacity sample_pmm)"
    "total_pages sample_pmm \<le> page_capacity sample_pmm"
    "unat (free_pages_count sample_pmm) = length [0, 1::nat]"
    by (simp_all add: sample_pmm_def)
  ultimately show ?thesis
    unfolding pmm_inv_def pmm_core_def by (intro exI [of _ "[0, 1]"]) simp
qed

text \<open>
  C3. Start-up. If no page of the boot memory map is listed twice and the array of page
  records has room at a nonzero address, \<^verbatim>\<open>pmm_init_from_ranges\<close> succeeds: exactly
  the pages of the available ranges are managed; exactly those that neither touch a
  reserved range nor hold the page array are free; and no byte of a reserved range lies
  in a free page, when the range ends at least a page below the top of the address space.
\<close>

theorem pmm_init_exact:
  assumes "distinct (boot_pages available)"
    and "metadata_sites (metadata_bytes available) reserved available = base # sites"
    and "base \<noteq> 0"
  shows "\<exists>s. pmm_init_from_ranges available reserved = Some s \<and>
    dom (frame_at s) = set (boot_pages available) \<and>
    free_frames s = {a \<in> set (boot_pages available). \<not> any_hit reserved a \<and>
                       \<not> page_hit a base (base + metadata_bytes available)} \<and>
    unat (pmm_free_page_count s) = card (free_frames s) \<and>
    (\<forall>r b. r \<in> set reserved \<and> rsv_start r \<le> b \<and> b < rsv_end r \<and> rsv_end r \<le> - 4096 \<longrightarrow>
           align_down b PAGE_SIZE \<notin> free_frames s)"
proof -
  obtain s where init: "pmm_init_from_ranges available reserved = Some s" "pmm_inv s"
    and view: "frame_at s = (\<lambda>a. if a \<in> set (boot_pages available)
       then Some (if any_hit reserved a \<or> page_hit a base (base + metadata_bytes available)
                  then Held 0 else Free) else None)"
    using pmm_init_ok [OF assms] by blast
  have free: "free_frames s = {a \<in> set (boot_pages available). \<not> any_hit reserved a \<and>
                       \<not> page_hit a base (base + metadata_bytes available)}"
    by (auto simp: free_frames_def view split: if_splits)
  have "dom (frame_at s) = set (boot_pages available)"
    by (auto simp: view dom_def split: if_splits)
  moreover have "align_down b PAGE_SIZE \<notin> free_frames s"
    if "r \<in> set reserved" "rsv_start r \<le> b" "b < rsv_end r" "rsv_end r \<le> - 4096" for r b
    using that page_hit_byte by (auto simp: free any_hit_def)
  ultimately show ?thesis
    using init free_count free by blast
qed

theorem pmm_init_exact_witness:
  "\<exists>s. pmm_init_from_ranges [\<lparr>rng_base = 0x100000, rng_length = 0x4000\<rparr>]
          [\<lparr>rsv_start = 0, rsv_end = 0x101000\<rparr>] = Some s \<and>
       free_frames s = {0x102000, 0x103000}"
proof -
  have pages: "boot_pages [\<lparr>rng_base = 0x100000, rng_length = 0x4000\<rparr>] =
      [0x100000, 0x101000, 0x102000, 0x103000]"
    by (simp add: boot_eval)
  have meta: "metadata_bytes [\<lparr>rng_base = 0x100000, rng_length = 0x4000\<rparr>] = 0x1000"
    by (simp add: metadata_bytes_def pages align_up_eval)
  have site: "metadata_sites 0x1000 [\<lparr>rsv_start = 0, rsv_end = 0x101000\<rparr>]
      [\<lparr>rng_base = 0x100000, rng_length = 0x4000\<rparr>] = [0x101000, 0x102000, 0x103000]"
    by (simp add: boot_eval)
  have hits: "filter (\<lambda>a. \<not> any_hit [\<lparr>rsv_start = 0, rsv_end = 0x101000\<rparr>] a \<and>
        \<not> page_hit a 0x101000 (0x101000 + 0x1000))
      [0x100000, 0x101000, 0x102000, 0x103000] = [0x102000, 0x103000]"
    by (simp add: boot_eval)
  show ?thesis
    using pmm_init_exact [where available = "[\<lparr>rng_base = 0x100000, rng_length = 0x4000\<rparr>]"
        and reserved = "[\<lparr>rsv_start = 0, rsv_end = 0x101000\<rparr>]" and base = "0x101000"
        and sites = "[0x102000, 0x103000]"] arg_cong [OF hits, of set]
    unfolding pages meta site by (simp only: set_filter) auto
qed

text \<open>
  C7. The books balance for ever. From a state satisfying the allocator's invariant,
  whatever sequence of allocations, retains and releases follows (of any addresses), every
  further call returns, the invariant holds, the set of managed frames is unchanged, and
  \<^verbatim>\<open>pmm_free_page_count\<close> is the number of free frames.
\<close>

theorem pmm_reachable_books:
  assumes "pmm_inv s0" and "pmm_reaches s0 s"
  shows "pmm_inv s \<and> dom (frame_at s) = dom (frame_at s0) \<and>
         unat (pmm_free_page_count s) = card (free_frames s) \<and> (\<exists>t. pmm_do op s = Some t)"
  using pmm_reaches_ok [OF assms(2,1)] free_count pmm_do_ok by metis

theorem pmm_reachable_books_witness:
  "unat (pmm_free_page_count (snd (pmm_page_alloc sample_pmm))) =
   card (free_frames (snd (pmm_page_alloc sample_pmm)))"
proof -
  have "pmm_reaches sample_pmm (snd (pmm_page_alloc sample_pmm))"
    by (rule pmm_reaches.step [where op = Alloc, OF pmm_reaches.start]) (simp add: pmm_do_def)
  from pmm_reachable_books [OF sample_inv this] show ?thesis by simp
qed

text \<open>
  C16. Allocation. \<^verbatim>\<open>pmm_page_alloc\<close> answers a free frame, which is then held once, and
  changes no other; it fails only when no frame is free, and then changes nothing. A frame
  allocated and released at once leaves every frame as it was.
\<close>

theorem pmm_page_alloc_exact:
  assumes "pmm_inv s" and "pmm_page_alloc s = (p, t)"
  shows "pmm_inv t \<and>
    (case p of
       None \<Rightarrow> t = s \<and> free_frames s = {}
     | Some i \<Rightarrow> pmm_page_addr p s \<in> free_frames s \<and>
         frame_at t = (frame_at s)(pmm_page_addr p s \<mapsto> Held 1) \<and>
         frame_at (pmm_page_free_addr (pmm_page_addr p t) t) = frame_at s)"
proof (cases p)
  case None
  then show ?thesis
    using pmm_page_alloc_none [OF assms(1)] assms by simp
next
  case (Some i)
  then show ?thesis
    using pmm_page_alloc_some [OF assms(1)] pmm_store.alloc_release [OF assms(1)] assms(2)
    by (simp add: free_frames_def)
qed

theorem pmm_page_alloc_exact_witness:
  "pmm_page_alloc sample_pmm = (Some 0, snd (pmm_page_alloc sample_pmm)) \<and>
   frame_at (snd (pmm_page_alloc sample_pmm)) = (frame_at sample_pmm)(0x1000 \<mapsto> Held 1)"
proof -
  have p: "pmm_page_alloc sample_pmm = (Some 0, snd (pmm_page_alloc sample_pmm))"
    by (simp add: pmm_page_alloc_def sample_pmm_def Let_def)
  from pmm_page_alloc_exact [OF sample_inv p] p show ?thesis
    by (simp add: pmm_page_addr_def sample_pmm_def)
qed

text \<open>
  C17. Reference counting. On every address, managed or not, \<^verbatim>\<open>pmm_page_free_addr\<close> and
  \<^verbatim>\<open>pmm_page_retain_addr\<close> act on the abstract frame as \<^const>\<open>release_frame\<close> and
  \<^const>\<open>retain_frame\<close>, and touch no other frame: the last release frees the frame, a
  release of a free or foreign address does nothing, and only a frame that is held can
  be retained.
\<close>

theorem pmm_refcount_refines:
  assumes "pmm_inv s"
  shows "frame_at (pmm_page_free_addr a s) = (frame_at s)(a := release_frame (frame_at s a)) \<and>
    fst (pmm_page_retain_addr a s) = fst (retain_frame (frame_at s a)) \<and>
    frame_at (snd (pmm_page_retain_addr a s)) =
      (frame_at s)(a := snd (retain_frame (frame_at s a)))"
  using free_addr_refines [OF assms] retain_refines [OF assms]
  by (metis prod.collapse)

theorem pmm_refcount_refines_witness:
  "frame_at sample_pmm 0x3000 = Some (Held 2) \<and>
   frame_at (pmm_page_free_addr 0x3000 sample_pmm) 0x3000 = Some (Held 1) \<and>
   frame_at (snd (pmm_page_retain_addr 0x3000 sample_pmm)) 0x3000 = Some (Held 3)"
proof -
  have "frame_at sample_pmm 0x3000 = Some (Held 2)"
    by (simp add: frame_at_def frames_def used_pages_def sample_pmm_def frame_of_def)
  with pmm_refcount_refines [OF sample_inv, of "0x3000"] show ?thesis
    by (simp add: release_frame_def retain_frame_def)
qed

text \<open>
  C18. Contiguous runs. \<^verbatim>\<open>pmm_pages_alloc_contiguous\<close> always returns. Either it answers
  the base of a run of free frames, holds exactly these once, and releasing the run with
  \<^verbatim>\<open>pmm_pages_free_contiguous\<close> restores every frame; or it answers 0, nothing has
  changed, and no such run of array neighbours exists.
\<close>

theorem pmm_contiguous_exact:
  assumes "pmm_inv s" and "count \<noteq> 0"
  shows "\<exists>base t. pmm_pages_alloc_contiguous count s = Some (base, t) \<and> pmm_inv t \<and>
    (run_addrs base (unat count) \<subseteq> free_frames s \<and>
     frame_at t = (\<lambda>a. if a \<in> run_addrs base (unat count) then Some (Held 1) else frame_at s a) \<and>
     frame_at (pmm_pages_free_contiguous base count t) = frame_at s
     \<or> base = 0 \<and> t = s \<and> (\<forall>k. \<not> free_run s k (unat count)))"
  using contiguous_cases [OF assms]
proof (elim disjE exE conjE)
  fix k t
  let ?base = "pg_addr (pages s ! k)"
  assume run: "free_run s k (unat count)" and inv: "pmm_inv t"
    and ret: "pmm_pages_alloc_contiguous count s = Some (?base, t)"
    and view: "\<forall>a. frame_at t a = (if a \<in> run_addrs ?base (unat count)
                                    then Some (Held 1) else frame_at s a)"
  have "frame_at (free_contiguous_loop ?base (unat count) t) =
      (\<lambda>a. if a \<in> run_addrs ?base (unat count) then Some Free else frame_at t a)"
    using view by (intro free_contiguous_view inv free_run_inj [OF assms(1) run]) simp
  with view free_run_free_frames [OF assms(1) run]
  have "frame_at (pmm_pages_free_contiguous ?base count t) = frame_at s"
    by (auto simp: pmm_pages_free_contiguous_def free_frames_def fun_eq_iff)
  with ret inv view free_run_free_frames [OF assms(1) run] show ?thesis
    by (auto simp: fun_eq_iff)
qed (use assms in auto)

theorem pmm_contiguous_exact_witness:
  "\<exists>t. pmm_pages_alloc_contiguous 2 sample_pmm = Some (0x1000, t) \<and>
       frame_at (pmm_pages_free_contiguous 0x1000 2 t) = frame_at sample_pmm"
proof -
  have "free_run sample_pmm 0 2"
    by (auto simp: free_run_def sample_pmm_def less_2_iff)
  then obtain base t where ret: "pmm_pages_alloc_contiguous 2 sample_pmm = Some (base, t)"
    and sub: "run_addrs base 2 \<subseteq> free_frames sample_pmm"
    and free: "frame_at (pmm_pages_free_contiguous base 2 t) = frame_at sample_pmm"
    using pmm_contiguous_exact [OF sample_inv, of 2] by auto
  have "free_frames sample_pmm = {0x1000, 0x2000}"
    by (auto simp: free_frames_def frame_at_def frames_def used_pages_def sample_pmm_def
        frame_of_def split: if_splits)
  moreover have "run_addrs base 2 = {base, base + 0x1000}"
    by (simp add: run_addrs_def numeral_2_eq_2 lessThan_Suc insert_commute)
  ultimately have "base = 0x1000"
    using sub by auto
  with ret free show ?thesis by blast
qed

end
