(* ===== verification/Trees.thy ===== *)
theory Trees
  imports Bunix_Prelude "HOL-Library.Monad_Syntax"
begin

text \<open>
  The binary search trees of \<^verbatim>\<open>kernel/tree.h\<close>. The nodes live inside the objects
  they index, so a tree is a root pointer into a store of nodes; a pointer is the number of
  a node or \<open>None\<close> for the null pointer. The header has the tree twice, for strings and
  for 64-bit keys, with the same code but for the comparison and the null key, which are
  parameters of the operations here. Every loop follows pointers, so it is a partial
  function: \<open>None\<close> means that it does not return.
\<close>

section \<open>Nodes and trees\<close>

record 'k tree_node =
  tn_left :: "nat option"
  tn_right :: "nat option"
  tn_parent :: "nat option"
  tn_key :: 'k
  tn_value :: u64

record 'k tree =
  t_root :: "nat option"
  t_count :: u64
  t_nodes :: "nat \<Rightarrow> 'k tree_node"

definition upd_node :: "nat \<Rightarrow> ('k tree_node \<Rightarrow> 'k tree_node) \<Rightarrow> 'k tree \<Rightarrow> 'k tree" where
  "upd_node n f t = t\<lparr>t_nodes := (t_nodes t)(n := f (t_nodes t n))\<rparr>"

definition upd_node_opt :: "nat option \<Rightarrow> ('k tree_node \<Rightarrow> 'k tree_node) \<Rightarrow> 'k tree \<Rightarrow> 'k tree" where
  "upd_node_opt p f t = (case p of None \<Rightarrow> t | Some n \<Rightarrow> upd_node n f t)"

definition tree_init :: "'k tree \<Rightarrow> 'k tree" where
  "tree_init t = t\<lparr>t_root := None, t_count := 0\<rparr>"


section \<open>Keys\<close>

text \<open>
  A comparison answers a negative number, 0 or a positive number. Strings are lists of
  bytes without their terminating zero; \<^verbatim>\<open>char\<close> is signed on x86-64.
\<close>

fun tree_key_cmp :: "u8 list \<Rightarrow> u8 list \<Rightarrow> int" where
  "tree_key_cmp (l # ls) (r # rs) =
     (if sint l < sint r then - 1 else if sint l > sint r then 1 else tree_key_cmp ls rs)"
| "tree_key_cmp [] [] = 0"
| "tree_key_cmp [] (r # rs) = - 1"
| "tree_key_cmp (l # ls) [] = 1"

definition u64_key_cmp :: "u64 \<Rightarrow> u64 \<Rightarrow> int" where
  "u64_key_cmp l r = (if l = r then 0 else if l < r then - 1 else 1)"


section \<open>Lookup\<close>

partial_function (option) tree_find_loop ::
  "('k \<Rightarrow> 'k \<Rightarrow> int) \<Rightarrow> (nat \<Rightarrow> 'k tree_node) \<Rightarrow> 'k \<Rightarrow> nat option \<Rightarrow> nat option option" where
  "tree_find_loop cmp h key node =
     (case node of
        None \<Rightarrow> Some None
      | Some n \<Rightarrow>
          let c = cmp key (tn_key (h n))
          in if c = 0 then Some (Some n)
             else tree_find_loop cmp h key (if c < 0 then tn_left (h n) else tn_right (h n)))"

definition tree_find_node ::
  "('k \<Rightarrow> 'k \<Rightarrow> int) \<Rightarrow> 'k \<Rightarrow> 'k tree \<Rightarrow> 'k \<Rightarrow> nat option option" where
  "tree_find_node cmp null t key =
     (if key = null then Some None else tree_find_loop cmp (t_nodes t) key (t_root t))"

definition tree_get :: "('k \<Rightarrow> 'k \<Rightarrow> int) \<Rightarrow> 'k \<Rightarrow> 'k tree \<Rightarrow> 'k \<Rightarrow> u64 option" where
  "tree_get cmp null t key =
     do {
       node \<leftarrow> tree_find_node cmp null t key;
       Some (case node of None \<Rightarrow> 0 | Some n \<Rightarrow> tn_value (t_nodes t n))
     }"


section \<open>Insertion\<close>

text \<open>
  \<^verbatim>\<open>slot\<close> points at the root field (parent \<open>None\<close>), or at the left or right field
  of \<^verbatim>\<open>parent\<close>; \<open>Inl ERR\<close> is the early return on an equal key.
\<close>

datatype side = Left | Right

partial_function (option) tree_slot_loop ::
  "('k \<Rightarrow> 'k \<Rightarrow> int) \<Rightarrow> (nat \<Rightarrow> 'k tree_node) \<Rightarrow> 'k \<Rightarrow> nat option \<Rightarrow> side \<Rightarrow> nat option
   \<Rightarrow> (status + nat option \<times> side) option" where
  "tree_slot_loop cmp h key parent side cur =
     (case cur of
        None \<Rightarrow> Some (Inr (parent, side))
      | Some n \<Rightarrow>
          let c = cmp key (tn_key (h n))
          in if c = 0 then Some (Inl ERR)
             else if c < 0 then tree_slot_loop cmp h key (Some n) Left (tn_left (h n))
             else tree_slot_loop cmp h key (Some n) Right (tn_right (h n)))"

definition write_slot :: "nat option \<Rightarrow> side \<Rightarrow> nat option \<Rightarrow> 'k tree \<Rightarrow> 'k tree" where
  "write_slot parent side p t =
     (case parent of
        None \<Rightarrow> t\<lparr>t_root := p\<rparr>
      | Some n \<Rightarrow> (case side of
            Left \<Rightarrow> upd_node n (\<lambda>x. x\<lparr>tn_left := p\<rparr>) t
          | Right \<Rightarrow> upd_node n (\<lambda>x. x\<lparr>tn_right := p\<rparr>) t))"

definition tree_insert_node ::
  "('k \<Rightarrow> 'k \<Rightarrow> int) \<Rightarrow> 'k \<Rightarrow> nat option \<Rightarrow> 'k \<Rightarrow> u64 \<Rightarrow> 'k tree \<Rightarrow> (status \<times> 'k tree) option" where
  "tree_insert_node cmp null node key v t =
     (case node of
        None \<Rightarrow> Some (ERR, t)
      | Some n \<Rightarrow>
          if key = null \<or> v = 0 then Some (ERR, t)
          else do {
            s \<leftarrow> tree_slot_loop cmp (t_nodes t) key None Left (t_root t);
            (case s of
               Inl e \<Rightarrow> Some (e, t)
             | Inr (parent, side) \<Rightarrow>
                 let t1 = upd_node n (\<lambda>_. \<lparr>tn_left = None, tn_right = None, tn_parent = parent,
                                         tn_key = key, tn_value = v\<rparr>) t;
                     t2 = write_slot parent side (Some n) t1
                 in Some (OK, t2\<lparr>t_count := t_count t2 + 1\<rparr>))
          })"


section \<open>Removal\<close>

definition tree_transplant :: "nat \<Rightarrow> nat option \<Rightarrow> 'k tree \<Rightarrow> 'k tree" where
  "tree_transplant old_node new_node t =
     (let parent = tn_parent (t_nodes t old_node);
          t1 = (case parent of
                  None \<Rightarrow> t\<lparr>t_root := new_node\<rparr>
                | Some p \<Rightarrow>
                    if Some old_node = tn_left (t_nodes t p)
                    then upd_node p (\<lambda>x. x\<lparr>tn_left := new_node\<rparr>) t
                    else upd_node p (\<lambda>x. x\<lparr>tn_right := new_node\<rparr>) t)
      in upd_node_opt new_node (\<lambda>x. x\<lparr>tn_parent := tn_parent (t_nodes t1 old_node)\<rparr>) t1)"

partial_function (option) leftmost_loop :: "(nat \<Rightarrow> 'k tree_node) \<Rightarrow> nat \<Rightarrow> nat option" where
  "leftmost_loop h n = (case tn_left (h n) of None \<Rightarrow> Some n | Some m \<Rightarrow> leftmost_loop h m)"

definition tree_splice :: "nat \<Rightarrow> 'k tree \<Rightarrow> 'k tree option" where
  "tree_splice n t =
     (case (tn_left (t_nodes t n), tn_right (t_nodes t n)) of
        (None, r) \<Rightarrow> Some (tree_transplant n r t)
      | (l, None) \<Rightarrow> Some (tree_transplant n l t)
      | (Some l, Some r) \<Rightarrow>
          do {
            next \<leftarrow> leftmost_loop (t_nodes t) r;
            let t1 = (if tn_parent (t_nodes t next) \<noteq> Some n
                      then let ta = tree_transplant next (tn_right (t_nodes t next)) t;
                               tb = upd_node next (\<lambda>x. x\<lparr>tn_right := tn_right (t_nodes ta n)\<rparr>) ta
                           in upd_node_opt (tn_right (t_nodes tb next))
                                (\<lambda>x. x\<lparr>tn_parent := Some next\<rparr>) tb
                      else t);
                t2 = tree_transplant n (Some next) t1;
                t3 = upd_node next (\<lambda>x. x\<lparr>tn_left := tn_left (t_nodes t2 n)\<rparr>) t2;
                t4 = upd_node_opt (tn_left (t_nodes t3 next)) (\<lambda>x. x\<lparr>tn_parent := Some next\<rparr>) t3
            in Some t4
          })"

definition tree_remove_node :: "'k \<Rightarrow> nat option \<Rightarrow> 'k tree \<Rightarrow> 'k tree option" where
  "tree_remove_node null node t =
     (case node of
        None \<Rightarrow> Some t
      | Some n \<Rightarrow>
          do {
            t1 \<leftarrow> tree_splice n t;
            let t2 = upd_node n (\<lambda>_. \<lparr>tn_left = None, tn_right = None, tn_parent = None,
                                    tn_key = null, tn_value = 0\<rparr>) t1
            in Some (if t_count t2 \<noteq> 0 then t2\<lparr>t_count := t_count t2 - 1\<rparr> else t2)
          })"


section \<open>Traversal\<close>

definition tree_first_node :: "'k tree \<Rightarrow> nat option option" where
  "tree_first_node t =
     (case t_root t of None \<Rightarrow> Some None | Some n \<Rightarrow> map_option Some (leftmost_loop (t_nodes t) n))"

partial_function (option) climb_loop :: "(nat \<Rightarrow> 'k tree_node) \<Rightarrow> nat \<Rightarrow> nat option option" where
  "climb_loop h current =
     (case tn_parent (h current) of
        None \<Rightarrow> Some None
      | Some p \<Rightarrow> if Some current = tn_right (h p) then climb_loop h p else Some (Some p))"

definition tree_next_node :: "(nat \<Rightarrow> 'k tree_node) \<Rightarrow> nat option \<Rightarrow> nat option option" where
  "tree_next_node h node =
     (case node of
        None \<Rightarrow> Some None
      | Some n \<Rightarrow>
          (case tn_right (h n) of
             Some r \<Rightarrow> map_option Some (leftmost_loop h r)
           | None \<Rightarrow> climb_loop h n))"


section \<open>The two trees of the header\<close>

abbreviation (input) string_cmp :: "u8 list option \<Rightarrow> u8 list option \<Rightarrow> int" where
  "string_cmp l r \<equiv> tree_key_cmp (the l) (the r)"

definition u64_tree_find_node :: "u64 tree \<Rightarrow> u64 \<Rightarrow> nat option option" where
  "u64_tree_find_node = tree_find_node u64_key_cmp 0"

definition u64_tree_get :: "u64 tree \<Rightarrow> u64 \<Rightarrow> u64 option" where
  "u64_tree_get = tree_get u64_key_cmp 0"

definition u64_tree_insert_node :: "nat option \<Rightarrow> u64 \<Rightarrow> u64 \<Rightarrow> u64 tree \<Rightarrow> (status \<times> u64 tree) option" where
  "u64_tree_insert_node = tree_insert_node u64_key_cmp 0"

definition u64_tree_remove_node :: "nat option \<Rightarrow> u64 tree \<Rightarrow> u64 tree option" where
  "u64_tree_remove_node = tree_remove_node 0"

definition str_tree_get :: "u8 list option tree \<Rightarrow> u8 list option \<Rightarrow> u64 option" where
  "str_tree_get = tree_get string_cmp None"

definition str_tree_insert_node ::
  "nat option \<Rightarrow> u8 list option \<Rightarrow> u64 \<Rightarrow> u8 list option tree \<Rightarrow> (status \<times> u8 list option tree) option" where
  "str_tree_insert_node = tree_insert_node string_cmp None"

definition str_tree_remove_node :: "nat option \<Rightarrow> u8 list option tree \<Rightarrow> u8 list option tree option" where
  "str_tree_remove_node = tree_remove_node None"

end
