(* ===== verification/Trees_Proofs.thy ===== *)
theory Trees_Proofs
  imports Trees
begin

text \<open>
  The pointer trees of \<^verbatim>\<open>tree.h\<close> hold a shape: a finite tree of node numbers. A
  position in the tree is a subtree and its context, the list of steps from the subtree
  up to the root. Insertion and removal rewrite one context and leave the rest of the
  store alone; on the level of keys and values they update a map.
\<close>

section \<open>Shapes and contexts\<close>

datatype shape = Tip | Fork shape nat shape

primrec nodes_of :: "shape \<Rightarrow> nat list" where
  "nodes_of Tip = []"
| "nodes_of (Fork l n r) = nodes_of l @ n # nodes_of r"

fun shape_at :: "(nat \<Rightarrow> 'k tree_node) \<Rightarrow> nat option \<Rightarrow> nat option \<Rightarrow> shape \<Rightarrow> bool" where
  "shape_at h par p Tip = (p = None)"
| "shape_at h par p (Fork l n r) =
     (p = Some n \<and> tn_parent (h n) = par \<and>
      shape_at h (Some n) (tn_left (h n)) l \<and> shape_at h (Some n) (tn_right (h n)) r)"

datatype step = In_Left nat shape | In_Right shape nat

fun plug :: "step list \<Rightarrow> shape \<Rightarrow> shape" where
  "plug [] s = s"
| "plug (In_Left n r # c) s = plug c (Fork s n r)"
| "plug (In_Right l n # c) s = plug c (Fork l n s)"

fun before :: "step list \<Rightarrow> nat list" where
  "before [] = []"
| "before (In_Left n r # c) = before c"
| "before (In_Right l n # c) = before c @ nodes_of l @ [n]"

fun after :: "step list \<Rightarrow> nat list" where
  "after [] = []"
| "after (In_Left n r # c) = n # nodes_of r @ after c"
| "after (In_Right l n # c) = after c"

fun context_at ::
  "(nat \<Rightarrow> 'k tree_node) \<Rightarrow> nat option \<Rightarrow> step list \<Rightarrow> nat option \<Rightarrow> nat option \<Rightarrow> bool" where
  "context_at h rt [] q pq = (rt = q \<and> pq = None)"
| "context_at h rt (In_Left n r # c) q pq =
     (pq = Some n \<and> tn_left (h n) = q \<and> shape_at h (Some n) (tn_right (h n)) r \<and>
      context_at h rt c (Some n) (tn_parent (h n)))"
| "context_at h rt (In_Right l n # c) q pq =
     (pq = Some n \<and> tn_right (h n) = q \<and> shape_at h (Some n) (tn_left (h n)) l \<and>
      context_at h rt c (Some n) (tn_parent (h n)))"

lemma nodes_of_plug [simp]: "nodes_of (plug c s) = before c @ nodes_of s @ after c"
  by (induction c s rule: plug.induct) auto

lemma plug_append: "plug (d @ c) s = plug c (plug d s)"
  by (induction d s rule: plug.induct) auto

lemma before_append [simp]: "before (d @ c) = before c @ before d"
  by (induction d rule: before.induct) auto

lemma after_append [simp]: "after (d @ c) = after d @ after c"
  by (induction d rule: after.induct) auto

lemma plug_at:
  "shape_at h None rt (plug c s) \<longleftrightarrow> (\<exists>q pq. context_at h rt c q pq \<and> shape_at h pq q s)"
  by (induction c s rule: plug.induct) auto

lemma shape_at_cong:
  "(\<And>n. n \<in> set (nodes_of s) \<Longrightarrow> h n = h' n) \<Longrightarrow> shape_at h par p s = shape_at h' par p s"
  by (induction s arbitrary: par p) auto

lemma context_at_cong:
  "(\<And>n. n \<in> set (before c) \<union> set (after c) \<Longrightarrow> h n = h' n) \<Longrightarrow>
   context_at h rt c q pq = context_at h' rt c q pq"
proof (induction c q pq rule: context_at.induct [of _ h rt])
  case (2 h rt n r c q pq)
  then show ?case using shape_at_cong [of r h h'] by auto
next
  case (3 h rt l n c q pq)
  then show ?case using shape_at_cong [of l h h'] by auto
qed simp

lemma find_context:
  assumes "n \<in> set (nodes_of s)"
  obtains c l r where "s = plug c (Fork l n r)"
proof -
  have "\<exists>c l r. s = plug c (Fork l n r)"
    using assms
  proof (induction s)
    case (Fork l m r)
    consider "n = m" | "n \<in> set (nodes_of l)" | "n \<in> set (nodes_of r)"
      using Fork.prems by auto
    then show ?case
    proof cases
      case 1
      then have "Fork l m r = plug [] (Fork l n r)" by simp
      then show ?thesis by blast
    next
      case 2
      then obtain c l' r' where "l = plug c (Fork l' n r')"
        using Fork.IH(1) by blast
      then have "Fork l m r = plug (c @ [In_Left m r]) (Fork l' n r')"
        by (simp add: plug_append)
      then show ?thesis by blast
    next
      case 3
      then obtain c l' r' where "r = plug c (Fork l' n r')"
        using Fork.IH(2) by blast
      then have "Fork l m r = plug (c @ [In_Right l m]) (Fork l' n r')"
        by (simp add: plug_append)
      then show ?thesis by blast
    qed
  qed simp
  then show thesis using that by blast
qed

lemma shape_root: "shape_at h par p s \<Longrightarrow> p = Some n \<Longrightarrow> n \<in> set (nodes_of s)"
  by (cases s) auto

lemma shape_null: "shape_at h par None s \<longleftrightarrow> s = Tip"
  by (cases s) auto

text \<open>Moving a subtree below another parent.\<close>

lemma shape_reparent:
  assumes "shape_at h par p s" and "distinct (nodes_of s)"
    and "\<And>n. p = Some n \<Longrightarrow> h' n = (h n)\<lparr>tn_parent := par'\<rparr>"
    and "\<And>n. n \<in> set (nodes_of s) \<Longrightarrow> p \<noteq> Some n \<Longrightarrow> h' n = h n"
  shows "shape_at h' par' p s"
proof (cases s)
  case (Fork l n r)
  have "h' m = h m" if "m \<in> set (nodes_of l) \<union> set (nodes_of r)" for m
    using assms(2,4) Fork that assms(1) by auto
  then have "shape_at h' par p l = shape_at h par p l" "shape_at h' par p r = shape_at h par p r" for par p
    using shape_at_cong [of l h' h] shape_at_cong [of r h' h] by auto
  then show ?thesis
    using assms(1,3) Fork by simp
qed (use assms in auto)


section \<open>Transplanting\<close>

lemma upd_node_sel [simp]:
  "t_nodes (upd_node n f t) = (t_nodes t)(n := f (t_nodes t n))"
  "t_root (upd_node n f t) = t_root t"
  "t_count (upd_node n f t) = t_count t"
  by (simp_all add: upd_node_def)

lemma upd_node_opt_simps [simp]:
  "upd_node_opt None f t = t"
  "upd_node_opt (Some n) f t = upd_node n f t"
  by (simp_all add: upd_node_opt_def)

text \<open>
  \<open>tree_transplant\<close> puts another subtree in the place of the one at \<open>n\<close>: the context
  now leads to \<open>q\<close>, whose parent link is set, and nothing outside the context changes.
\<close>

lemma transplant_context:
  assumes ctx: "context_at (t_nodes t) (t_root t) c (Some n) (tn_parent (t_nodes t n))"
    and dist: "distinct (before c @ n # after c)"
    and q: "\<And>m. q = Some m \<Longrightarrow> m \<notin> set (before c) \<union> set (after c)"
  defines "t' \<equiv> tree_transplant n q t"
  shows "context_at (t_nodes t') (t_root t') c q (tn_parent (t_nodes t n))" (is ?ctx)
    and "\<And>m. q = Some m \<Longrightarrow> t_nodes t' m = (t_nodes t m)\<lparr>tn_parent := tn_parent (t_nodes t n)\<rparr>"
    and "\<And>m. m \<notin> set (before c) \<union> set (after c) \<Longrightarrow> q \<noteq> Some m \<Longrightarrow> t_nodes t' m = t_nodes t m"
proof -
  let ?h = "t_nodes t"
  have "?ctx \<and> (\<forall>m. q = Some m \<longrightarrow> t_nodes t' m = (?h m)\<lparr>tn_parent := tn_parent (?h n)\<rparr>) \<and>
    (\<forall>m. m \<notin> set (before c) \<union> set (after c) \<and> q \<noteq> Some m \<longrightarrow> t_nodes t' m = ?h m)"
  proof (cases c)
    case Nil
    then show ?thesis
      using ctx by (cases q) (auto simp: t'_def tree_transplant_def Let_def)
  next
    case (Cons f d)
    then show ?thesis
    proof (cases f)
      case (In_Left b r)
      have b: "tn_parent (?h n) = Some b" "tn_left (?h b) = Some n" "b \<noteq> n"
        using ctx Cons In_Left dist by auto
      have "t_nodes t' m = ?h m" if "m \<in> set (nodes_of r) \<union> set (before d) \<union> set (after d)" for m
        using that b dist q Cons In_Left
        by (cases q) (auto simp: t'_def tree_transplant_def Let_def)
      then have "shape_at (t_nodes t') par p r = shape_at ?h par p r"
        "context_at (t_nodes t') (t_root t') d p par = context_at ?h (t_root t') d p par" for par p
        using shape_at_cong [of r "t_nodes t'" ?h] context_at_cong [of d "t_nodes t'" ?h] by auto
      moreover have "t_nodes t' b = (?h b)\<lparr>tn_left := q\<rparr>" "t_root t' = t_root t"
        using b q Cons In_Left by (cases q; auto simp: t'_def tree_transplant_def Let_def)+
      ultimately show ?thesis
        using ctx b q Cons In_Left
        by (cases q) (auto simp: t'_def tree_transplant_def Let_def)
    next
      case (In_Right l b)
      have b: "tn_parent (?h n) = Some b" "tn_right (?h b) = Some n" "b \<noteq> n"
        and l: "shape_at ?h (Some b) (tn_left (?h b)) l"
        using ctx Cons In_Right dist by auto
      have nl: "tn_left (?h b) \<noteq> Some n"
        using shape_root [OF l] dist Cons In_Right by auto
      have "t_nodes t' m = ?h m" if "m \<in> set (nodes_of l) \<union> set (before d) \<union> set (after d)" for m
        using that b nl dist q Cons In_Right
        by (cases q) (auto simp: t'_def tree_transplant_def Let_def)
      then have "shape_at (t_nodes t') par p l = shape_at ?h par p l"
        "context_at (t_nodes t') (t_root t') d p par = context_at ?h (t_root t') d p par" for par p
        using shape_at_cong [of l "t_nodes t'" ?h] context_at_cong [of d "t_nodes t'" ?h] by auto
      moreover have "t_nodes t' b = (?h b)\<lparr>tn_right := q\<rparr>" "t_root t' = t_root t"
        using b nl q Cons In_Right by (cases q; auto simp: t'_def tree_transplant_def Let_def)+
      ultimately show ?thesis
        using ctx b nl q Cons In_Right
        by (cases q) (auto simp: t'_def tree_transplant_def Let_def)
    qed
  qed
  then show ?ctx
    and "\<And>m. q = Some m \<Longrightarrow> t_nodes t' m = (?h m)\<lparr>tn_parent := tn_parent (?h n)\<rparr>"
    and "\<And>m. m \<notin> set (before c) \<union> set (after c) \<Longrightarrow> q \<noteq> Some m \<Longrightarrow> t_nodes t' m = ?h m"
    by auto
qed

lemma transplant_shape:
  assumes "context_at (t_nodes t) (t_root t) c (Some n) (tn_parent (t_nodes t n))"
    and dist: "distinct (before c @ n # after c)"
    and s: "shape_at (t_nodes t) par q s" and ds: "distinct (nodes_of s)"
    and disj: "set (nodes_of s) \<inter> (set (before c) \<union> set (after c)) = {}"
  shows "shape_at (t_nodes (tree_transplant n q t)) None (t_root (tree_transplant n q t)) (plug c s)"
proof -
  have q: "m \<notin> set (before c) \<union> set (after c)" if "q = Some m" for m
    using shape_root [OF s that] disj by auto
  note tr = transplant_context [OF assms(1) dist, of q, OF q]
  have "shape_at (t_nodes (tree_transplant n q t)) (tn_parent (t_nodes t n)) q s"
    using s ds by (rule shape_reparent) (use tr(2,3) disj in blast)+
  then show ?thesis
    using tr(1) plug_at by blast
qed


section \<open>Removal\<close>

text \<open>The leftmost node of a subtree.\<close>

lemma leftmost_shape:
  assumes "shape_at h par (Some m) s"
  obtains d n rr where "s = plug d (Fork Tip n rr)" and "leftmost_loop h m = Some n"
    and "before d = []"
proof -
  have "\<exists>d n rr. s = plug d (Fork Tip n rr) \<and> leftmost_loop h m = Some n \<and> before d = []"
    using assms
  proof (induction s arbitrary: par m)
    case (Fork l k r)
    have k: "k = m" and l: "shape_at h (Some m) (tn_left (h m)) l"
      using Fork.prems by auto
    show ?case
    proof (cases "tn_left (h m)")
      case None
      then have "Fork l k r = plug [] (Fork Tip m r)" "leftmost_loop h m = Some m"
        using l k by (auto simp: shape_null leftmost_loop.simps)
      then show ?thesis by fastforce
    next
      case (Some j)
      then obtain d n rr where "l = plug d (Fork Tip n rr)" "leftmost_loop h j = Some n" "before d = []"
        using Fork.IH(1) l by metis
      then have "Fork l k r = plug (d @ [In_Left m r]) (Fork Tip n rr)"
        "leftmost_loop h m = Some n" "before (d @ [In_Left m r]) = []"
        using k Some leftmost_loop.simps [of h m] by (auto simp: plug_append)
      then show ?thesis by blast
    qed
  qed simp
  then show thesis using that by blast
qed

text \<open>
  Second half of a removal with two children: \<open>next\<close>, detached, with the right subtree of
  \<open>n\<close> already below it, takes the place and the left subtree of \<open>n\<close>.
\<close>

lemma splice_replace:
  fixes t :: "'k tree"
  assumes ctx: "context_at (t_nodes t) (t_root t) c (Some n) (tn_parent (t_nodes t n))"
    and l: "shape_at (t_nodes t) (Some n) (tn_left (t_nodes t n)) l"
    and nx: "tn_left (t_nodes t x) = None" "shape_at (t_nodes t) (Some x) (tn_right (t_nodes t x)) r"
    and dist: "distinct (before c @ nodes_of l @ n # x # nodes_of r @ after c)"
  defines "t2 \<equiv> tree_transplant n (Some x) t"
  defines "t3 \<equiv> upd_node x (\<lambda>y. y\<lparr>tn_left := tn_left (t_nodes t2 n)\<rparr>) t2"
  defines "t4 \<equiv> upd_node_opt (tn_left (t_nodes t3 x)) (\<lambda>y. y\<lparr>tn_parent := Some x\<rparr>) t3"
  shows "shape_at (t_nodes t4) None (t_root t4) (plug c (Fork l x r))"
proof -
  let ?h = "t_nodes t"
  let ?p = "tn_parent (?h n)"
  have "distinct (before c @ n # after c)" "x \<notin> set (before c) \<union> set (after c)"
    using dist by auto
  note tr = transplant_context [OF ctx this(1), of "Some x", folded t2_def]
  have x2: "t_nodes t2 x = (?h x)\<lparr>tn_parent := ?p\<rparr>"
    and c2: "context_at (t_nodes t2) (t_root t2) c (Some x) ?p"
    using tr dist by auto
  have n2: "t_nodes t2 m = ?h m" if "m \<notin> set (before c) \<union> set (after c)" "m \<noteq> x" for m
    using tr(3) that dist by auto
  have nl: "t_nodes t2 m = ?h m" if "m \<in> set (nodes_of l)" for m
    using n2 [of m] that dist by (auto simp: disjoint_iff)
  have left: "tn_left (t_nodes t2 n) = tn_left (?h n)"
    using n2 [of n] dist by auto
  have out: "t_nodes t4 m = t_nodes t2 m" if "m \<noteq> x" "m \<notin> set (nodes_of l)" for m
    using that shape_root [OF l] left
    by (cases "tn_left (?h n)") (auto simp: t4_def t3_def)
  have root4: "t_root t4 = t_root t2"
    using left by (cases "tn_left (?h n)") (auto simp: t4_def t3_def)
  have x4: "t_nodes t4 x = (?h x)\<lparr>tn_parent := ?p, tn_left := tn_left (?h n)\<rparr>"
    using x2 left shape_root [OF l, of x] dist
    by (cases "tn_left (?h n)") (auto simp: t4_def t3_def)
  have "shape_at (t_nodes t4) (Some x) (tn_left (?h n)) l"
    using l
  proof (rule shape_reparent)
    show "t_nodes t4 m = (?h m)\<lparr>tn_parent := Some x\<rparr>" if "tn_left (?h n) = Some m" for m
      using that left nl [of m] shape_root [OF l that] dist by (auto simp: t4_def t3_def)
    show "t_nodes t4 m = ?h m" if "m \<in> set (nodes_of l)" "tn_left (?h n) \<noteq> Some m" for m
      using that left nl [of m] dist
      by (cases "tn_left (?h n)") (auto simp: t4_def t3_def)
  qed (use dist in auto)
  moreover have "shape_at (t_nodes t4) (Some x) (tn_right (?h x)) r"
  proof (subst shape_at_cong [of r _ ?h])
    show "t_nodes t4 m = ?h m" if "m \<in> set (nodes_of r)" for m
    proof -
      have "m \<noteq> x" "m \<notin> set (nodes_of l)" "m \<notin> set (before c) \<union> set (after c)"
        using that dist by auto
      then show ?thesis using out n2 by simp
    qed
  qed (simp_all only: nx(2))
  ultimately have "shape_at (t_nodes t4) ?p (Some x) (Fork l x r)"
    using x4 by simp
  moreover have "context_at (t_nodes t4) (t_root t4) c (Some x) ?p"
  proof (subst context_at_cong [of c _ "t_nodes t2"])
    show "t_nodes t4 m = t_nodes t2 m" if "m \<in> set (before c) \<union> set (after c)" for m
      by (rule out) (use that dist in auto)
  qed (simp_all only: c2 root4)
  ultimately show ?thesis
    using plug_at by blast
qed


text \<open>
  First half: \<open>next\<close>, the leftmost node of the right subtree, leaves its place and gets the
  rest of that subtree as its right subtree.
\<close>

definition detach_next :: "nat \<Rightarrow> nat \<Rightarrow> 'k tree \<Rightarrow> 'k tree" where
  "detach_next n next t =
     (if tn_parent (t_nodes t next) \<noteq> Some n
      then let ta = tree_transplant next (tn_right (t_nodes t next)) t;
               tb = upd_node next (\<lambda>x. x\<lparr>tn_right := tn_right (t_nodes ta n)\<rparr>) ta
           in upd_node_opt (tn_right (t_nodes tb next)) (\<lambda>x. x\<lparr>tn_parent := Some next\<rparr>) tb
      else t)"

lemma splice_detach_deep:
  fixes t :: "'k tree"
  assumes sh: "shape_at (t_nodes t) None (t_root t) (plug c (Fork l n (plug (d @ [In_Left b e]) (Fork Tip x rr))))"
    and dist: "distinct (nodes_of (plug c (Fork l n (plug (d @ [In_Left b e]) (Fork Tip x rr)))))"
    and d: "before d = []"
  defines "t1 \<equiv> detach_next n x t" and "r \<equiv> plug (d @ [In_Left b e]) rr"
  shows "context_at (t_nodes t1) (t_root t1) c (Some n) (tn_parent (t_nodes t1 n))"
    and "shape_at (t_nodes t1) (Some n) (tn_left (t_nodes t1 n)) l"
    and "tn_left (t_nodes t1 x) = None"
    and "shape_at (t_nodes t1) (Some x) (tn_right (t_nodes t1 x)) r"
proof -
  let ?h = "t_nodes t"
  let ?d = "d @ [In_Left b e]"
  let ?c = "?d @ In_Right l n # c"
  have "shape_at ?h None (t_root t) (plug ?c (Fork Tip x rr))"
    using sh by (simp add: plug_append)
  then have ctx: "context_at ?h (t_root t) ?c (Some x) (tn_parent (?h x))"
    and x: "tn_left (?h x) = None" "shape_at ?h (Some x) (tn_right (?h x)) rr"
    unfolding plug_at by auto
  define ta where "ta = tree_transplant x (tn_right (?h x)) t"
  have "distinct (nodes_of (plug ?c (Fork Tip x rr)))"
    using dist by (simp add: plug_append)
  then have dl: "distinct (before ?c @ x # nodes_of rr @ after ?c)"
    by (simp only: nodes_of_plug nodes_of.simps append_Cons append_Nil append_assoc)
  have dc: "distinct (before ?c @ x # after ?c)" "distinct (nodes_of rr)"
    "set (nodes_of rr) \<inter> (set (before ?c) \<union> set (after ?c)) = {}"
    using dl by (auto simp del: before_append after_append)
  have "shape_at (t_nodes ta) None (t_root ta) (plug (In_Right l n # c) r)"
    using transplant_shape [OF ctx dc(1) x(2) dc(2,3)] by (simp add: ta_def r_def plug_append)
  then have ca: "context_at (t_nodes ta) (t_root ta) c (Some n) (tn_parent (t_nodes ta n))"
    and la: "shape_at (t_nodes ta) (Some n) (tn_left (t_nodes ta n)) l"
    and ra: "shape_at (t_nodes ta) (Some n) (tn_right (t_nodes ta n)) r"
    unfolding plug_at by auto
  have dr: "distinct (before c @ nodes_of l @ n # x # nodes_of r @ after c)"
    using dist d by (simp add: r_def)
  have xa: "t_nodes ta x = ?h x"
    using transplant_context(3) [OF ctx dc(1), of "tn_right (?h x)" x] shape_root [OF x(2)] dl
    unfolding ta_def by (auto simp del: before_append after_append)
  have "r \<noteq> Tip"
    by (simp add: r_def plug_append)
  then obtain y where y: "tn_right (t_nodes ta n) = Some y" "y \<in> set (nodes_of r)"
    using ra shape_root [OF ra] by (cases "tn_right (t_nodes ta n)") (auto simp: shape_null)
  have par: "tn_parent (?h x) \<noteq> Some n"
  proof -
    have "\<exists>k. tn_parent (?h x) = Some k \<and> k \<in> set (nodes_of r)"
      using ctx d unfolding r_def nodes_of_plug by (cases d rule: before.cases) simp_all
    then show ?thesis using dr by auto
  qed
  have xy: "x \<noteq> y"
    using y(2) dr by auto
  have t1: "t1 = upd_node y (\<lambda>z. z\<lparr>tn_parent := Some x\<rparr>)
      (upd_node x (\<lambda>z. z\<lparr>tn_right := Some y\<rparr>) ta)"
    using par y xy by (simp add: t1_def detach_next_def ta_def [symmetric] Let_def)
  have out: "t_nodes t1 m = t_nodes ta m" if "m \<noteq> x" "m \<notin> set (nodes_of r)" for m
    using that y by (auto simp: t1)
  have n1: "t_nodes t1 n = t_nodes ta n"
    by (rule out) (use dr in auto)
  have root1: "t_root t1 = t_root ta"
    by (simp add: t1)
  have x1: "t_nodes t1 x = (?h x)\<lparr>tn_right := Some y\<rparr>"
    using xy xa by (simp add: t1)
  then show "tn_left (t_nodes t1 x) = None"
    using x by simp
  show "context_at (t_nodes t1) (t_root t1) c (Some n) (tn_parent (t_nodes t1 n))"
  proof (subst context_at_cong [of c _ "t_nodes ta"])
    show "t_nodes t1 m = t_nodes ta m" if "m \<in> set (before c) \<union> set (after c)" for m
      by (rule out) (use that dr in auto)
  qed (simp_all only: ca n1 root1)
  show "shape_at (t_nodes t1) (Some n) (tn_left (t_nodes t1 n)) l"
  proof (subst shape_at_cong [of l _ "t_nodes ta"])
    show "t_nodes t1 m = t_nodes ta m" if "m \<in> set (nodes_of l)" for m
      by (rule out) (use that dr in auto)
  qed (simp_all only: la n1)
  have "shape_at (t_nodes t1) (Some x) (Some y) r"
    using ra [unfolded y(1)]
    by (rule shape_reparent) (use dr xy in \<open>auto simp: t1\<close>)
  then show "shape_at (t_nodes t1) (Some x) (tn_right (t_nodes t1 x)) r"
    using x1 by simp
qed

text \<open>Removal takes exactly the node out of the shape.\<close>

lemma splice_shape:
  assumes sh: "shape_at (t_nodes t) None (t_root t) s" and dist: "distinct (nodes_of s)"
    and n: "n \<in> set (nodes_of s)"
  shows "\<exists>t' s'. tree_splice n t = Some t' \<and> shape_at (t_nodes t') None (t_root t') s' \<and>
    nodes_of s' = remove1 n (nodes_of s)"
proof -
  let ?h = "t_nodes t"
  obtain c l r where s: "s = plug c (Fork l n r)"
    using n by (rule find_context)
  have ctx: "context_at ?h (t_root t) c (Some n) (tn_parent (?h n))"
    and l: "shape_at ?h (Some n) (tn_left (?h n)) l"
    and r: "shape_at ?h (Some n) (tn_right (?h n)) r"
    using sh unfolding s plug_at by auto
  have dl: "distinct (before c @ nodes_of l @ n # nodes_of r @ after c)"
    using dist by (simp add: s)
  have rem: "remove1 n (nodes_of s) = before c @ nodes_of l @ nodes_of r @ after c"
    using dl by (simp add: s remove1_append)
  have dn: "distinct (before c @ n # after c)" "distinct (nodes_of l)" "distinct (nodes_of r)"
    "set (nodes_of l) \<inter> (set (before c) \<union> set (after c)) = {}"
    "set (nodes_of r) \<inter> (set (before c) \<union> set (after c)) = {}"
    using dl by auto
  consider "tn_left (?h n) = None" | "tn_left (?h n) \<noteq> None" "tn_right (?h n) = None"
    | j k where "tn_left (?h n) = Some j" "tn_right (?h n) = Some k"
    by auto
  then show ?thesis
  proof cases
    case 1
    then have "tree_splice n t = Some (tree_transplant n (tn_right (?h n)) t)" "l = Tip"
      using l by (simp_all add: tree_splice_def shape_null)
    then show ?thesis
      using transplant_shape [OF ctx dn(1) r dn(3,5)] rem by (intro exI conjI) auto
  next
    case 2
    then have "tree_splice n t = Some (tree_transplant n (tn_left (?h n)) t)" "r = Tip"
      using r by (auto simp: tree_splice_def shape_null)
    then show ?thesis
      using transplant_shape [OF ctx dn(1) l dn(2,4)] rem by (intro exI conjI) auto
  next
    case 3
    obtain d x rr where r': "r = plug d (Fork Tip x rr)" and lm: "leftmost_loop ?h k = Some x"
      and d: "before d = []"
      using r 3 by (metis leftmost_shape)
    let ?t1 = "detach_next n x t"
    have split: "context_at (t_nodes ?t1) (t_root ?t1) c (Some n) (tn_parent (t_nodes ?t1 n)) \<and>
      shape_at (t_nodes ?t1) (Some n) (tn_left (t_nodes ?t1 n)) l \<and>
      tn_left (t_nodes ?t1 x) = None \<and>
      shape_at (t_nodes ?t1) (Some x) (tn_right (t_nodes ?t1 x)) (plug d rr)"
    proof (cases d rule: rev_cases)
      case Nil
      then have "?t1 = t"
        using r r' by (simp add: detach_next_def)
      with Nil show ?thesis
        using ctx l r r' by simp
    next
      case (snoc d' f)
      then obtain b e where "d = d' @ [In_Left b e]" "before d' = []"
        using d by (cases f) auto
      with splice_detach_deep [of t c l n d' b e x rr] sh dist show ?thesis
        by (simp add: s r')
    qed
    have "distinct (before c @ nodes_of l @ n # x # nodes_of (plug d rr) @ after c)"
      using dl d by (simp add: r')
    from splice_replace [OF _ _ _ _ this, of ?t1] split
    obtain t' where "tree_splice n t = Some t'"
      "shape_at (t_nodes t') None (t_root t') (plug c (Fork l x (plug d rr)))"
      using 3 lm unfolding tree_splice_def detach_next_def [symmetric]
      by (simp add: Let_def detach_next_def [symmetric])
    moreover have "nodes_of (plug c (Fork l x (plug d rr))) = remove1 n (nodes_of s)"
      unfolding rem by (simp add: r' d)
    ultimately show ?thesis by blast
  qed
qed

end
