(* ===== verification/Trees_Spec.thy ===== *)
theory Trees_Spec
  imports Trees_Proofs
begin

text \<open>
  The trees of \<^verbatim>\<open>tree.h\<close> as maps from keys to values: the contract of a key
  comparison, lookup, insertion, removal and ordered traversal, and the two instances the
  header has.
\<close>

section \<open>Well-formed trees\<close>

text \<open>
  \<open>tree_ok cmp null t s\<close>: the tree \<open>t\<close> has the shape \<open>s\<close>, its nodes are distinct
  and in key order, no key is null, no value 0, and the counter is right.
\<close>

definition key_less :: "('k \<Rightarrow> 'k \<Rightarrow> int) \<Rightarrow> (nat \<Rightarrow> 'k tree_node) \<Rightarrow> nat \<Rightarrow> nat \<Rightarrow> bool" where
  "key_less cmp h m n \<longleftrightarrow> cmp (tn_key (h m)) (tn_key (h n)) < 0"

definition in_order :: "('k \<Rightarrow> 'k \<Rightarrow> int) \<Rightarrow> 'k \<Rightarrow> (nat \<Rightarrow> 'k tree_node) \<Rightarrow> nat list \<Rightarrow> bool" where
  "in_order cmp null h ns \<longleftrightarrow>
     sorted_wrt (key_less cmp h) ns \<and> (\<forall>n \<in> set ns. tn_key (h n) \<noteq> null \<and> tn_value (h n) \<noteq> 0)"

definition tree_ok :: "('k \<Rightarrow> 'k \<Rightarrow> int) \<Rightarrow> 'k \<Rightarrow> 'k tree \<Rightarrow> shape \<Rightarrow> bool" where
  "tree_ok cmp null t s \<longleftrightarrow>
     shape_at (t_nodes t) None (t_root t) s \<and> distinct (nodes_of s) \<and>
     in_order cmp null (t_nodes t) (nodes_of s) \<and> unat (t_count t) = length (nodes_of s)"

definition entries :: "(nat \<Rightarrow> 'k tree_node) \<Rightarrow> nat list \<Rightarrow> ('k \<times> u64) list" where
  "entries h ns = map (\<lambda>n. (tn_key (h n), tn_value (h n))) ns"

definition tree_map :: "'k tree \<Rightarrow> shape \<Rightarrow> 'k \<Rightarrow> u64 option" where
  "tree_map t s = map_of (entries (t_nodes t) (nodes_of s))"

lemma entries_append: "entries h (xs @ ys) = entries h xs @ entries h ys"
  by (simp add: entries_def)

lemma entries_Cons: "entries h (n # ns) = (tn_key (h n), tn_value (h n)) # entries h ns"
  by (simp add: entries_def)

lemma in_order_append:
  "in_order cmp null h (xs @ ys) \<longleftrightarrow>
     in_order cmp null h xs \<and> in_order cmp null h ys \<and>
     (\<forall>x \<in> set xs. \<forall>y \<in> set ys. key_less cmp h x y)"
  by (auto simp: in_order_def sorted_wrt_append)

lemma in_order_Cons:
  "in_order cmp null h (x # ys) \<longleftrightarrow>
     tn_key (h x) \<noteq> null \<and> tn_value (h x) \<noteq> 0 \<and> in_order cmp null h ys \<and>
     (\<forall>y \<in> set ys. key_less cmp h x y)"
  by (auto simp: in_order_def)

lemma in_order_null: "in_order cmp null h ns \<Longrightarrow> n \<in> set ns \<Longrightarrow> tn_key (h n) \<noteq> null"
  by (simp add: in_order_def)

lemma in_order_cong:
  assumes "\<And>n. n \<in> set ns \<Longrightarrow> tn_key (h n) = tn_key (h' n) \<and> tn_value (h n) = tn_value (h' n)"
  shows "in_order cmp null h ns = in_order cmp null h' ns" and "entries h ns = entries h' ns"
proof -
  have "sorted_wrt (key_less cmp h) ns = sorted_wrt (key_less cmp h') ns"
    using assms by (induction ns) (auto simp: key_less_def)
  then show "in_order cmp null h ns = in_order cmp null h' ns"
    using assms by (auto simp: in_order_def)
  show "entries h ns = entries h' ns"
    using assms by (simp add: entries_def)
qed


section \<open>Data is not touched by relinking\<close>

definition same_data :: "'k tree \<Rightarrow> 'k tree \<Rightarrow> bool" where
  "same_data t t' \<longleftrightarrow> t_count t' = t_count t \<and>
     (\<forall>n. tn_key (t_nodes t' n) = tn_key (t_nodes t n) \<and>
          tn_value (t_nodes t' n) = tn_value (t_nodes t n))"

lemma same_data_refl [simp]: "same_data t t"
  by (simp add: same_data_def)

lemma same_data_trans: "same_data t u \<Longrightarrow> same_data u v \<Longrightarrow> same_data t v"
  by (simp add: same_data_def)

lemma same_data_upd:
  "(\<And>x. tn_key (f x) = tn_key x \<and> tn_value (f x) = tn_value x) \<Longrightarrow> same_data t (upd_node n f t)"
  "(\<And>x. tn_key (f x) = tn_key x \<and> tn_value (f x) = tn_value x) \<Longrightarrow> same_data t (upd_node_opt p f t)"
  by (cases p; simp add: same_data_def)+

lemma same_data_transplant: "same_data t (tree_transplant n q t)"
  by (cases q) (auto simp: same_data_def tree_transplant_def Let_def split: option.splits)

lemma same_data_splice: "tree_splice n t = Some t' \<Longrightarrow> same_data t t'"
  unfolding tree_splice_def
  by (auto simp: Let_def bind_eq_Some_conv split: option.splits if_splits
      intro!: same_data_transplant
        same_data_trans [OF _ same_data_upd(1)] same_data_trans [OF _ same_data_upd(2)]
        same_data_trans [OF _ same_data_transplant])


text \<open>The field a context ends in: the root, or a side of the innermost parent.\<close>

fun slot_of :: "step list \<Rightarrow> side \<Rightarrow> nat option \<times> side" where
  "slot_of [] sd = (None, sd)"
| "slot_of (In_Left n r # c) sd = (Some n, Left)"
| "slot_of (In_Right l n # c) sd = (Some n, Right)"


text \<open>
  \<open>slot_fits cmp h rt k c s pq sd\<close>: the slot \<open>(pq, sd)\<close> is an empty one inside the
  subtree \<open>s\<close> in context \<open>c\<close>, and it separates the smaller keys from the larger ones.
\<close>

definition slot_fits ::
  "('k \<Rightarrow> 'k \<Rightarrow> int) \<Rightarrow> (nat \<Rightarrow> 'k tree_node) \<Rightarrow> nat option \<Rightarrow> 'k \<Rightarrow> step list \<Rightarrow> shape \<Rightarrow>
   nat option \<Rightarrow> side \<Rightarrow> bool" where
  "slot_fits cmp h rt k c s pq sd \<longleftrightarrow>
     (\<exists>c' xs ys. slot_of c' sd = (pq, sd) \<and> context_at h rt c' None pq \<and> nodes_of s = xs @ ys \<and>
        before c' = before c @ xs \<and> after c' = ys @ after c \<and>
        (\<forall>x \<in> set xs. 0 < cmp k (tn_key (h x))) \<and> (\<forall>y \<in> set ys. cmp k (tn_key (h y)) < 0))"

lemma slot_fits_left:
  assumes "slot_fits cmp h rt k (In_Left n r # c) l pq sd"
    and "\<forall>m \<in> set (n # nodes_of r). cmp k (tn_key (h m)) < 0"
  shows "slot_fits cmp h rt k c (Fork l n r) pq sd"
proof -
  obtain c' xs ys where "slot_of c' sd = (pq, sd)" "context_at h rt c' None pq"
    "nodes_of l = xs @ ys" "before c' = before c @ xs" "after c' = ys @ n # nodes_of r @ after c"
    "\<forall>x \<in> set xs. 0 < cmp k (tn_key (h x))" "\<forall>y \<in> set ys. cmp k (tn_key (h y)) < 0"
    using assms(1) by (auto simp: slot_fits_def)
  then show ?thesis
    unfolding slot_fits_def using assms(2)
    by (intro exI [of _ c'] exI [of _ xs] exI [of _ "ys @ n # nodes_of r"]) auto
qed

lemma slot_fits_right:
  assumes "slot_fits cmp h rt k (In_Right l n # c) r pq sd"
    and "\<forall>m \<in> set (nodes_of l @ [n]). 0 < cmp k (tn_key (h m))"
  shows "slot_fits cmp h rt k c (Fork l n r) pq sd"
proof -
  obtain c' xs ys where "slot_of c' sd = (pq, sd)" "context_at h rt c' None pq"
    "nodes_of r = xs @ ys" "before c' = (before c @ nodes_of l @ [n]) @ xs" "after c' = ys @ after c"
    "\<forall>x \<in> set xs. 0 < cmp k (tn_key (h x))" "\<forall>y \<in> set ys. cmp k (tn_key (h y)) < 0"
    using assms(1) by (auto simp: slot_fits_def)
  then show ?thesis
    unfolding slot_fits_def using assms(2)
    by (intro exI [of _ c'] exI [of _ "nodes_of l @ n # xs"] exI [of _ ys]) auto
qed


text \<open>Hanging a new node into an empty slot.\<close>

lemma write_slot_context:
  fixes t :: "'k tree"
  assumes ctx: "context_at (t_nodes t) (t_root t) c None pq" and slot: "slot_of c sd = (pq, sd)"
    and dist: "distinct (before c @ n # after c)"
    and x: "tn_left x = None" "tn_right x = None" "tn_parent x = pq"
  defines "t' \<equiv> write_slot pq sd (Some n) (upd_node n (\<lambda>_. x) t)"
  shows "shape_at (t_nodes t') None (t_root t') (plug c (Fork Tip n Tip))"
    and "t_nodes t' n = x" and "t_count t' = t_count t"
    and "\<And>m. m \<noteq> n \<Longrightarrow> tn_key (t_nodes t' m) = tn_key (t_nodes t m) \<and>
                  tn_value (t_nodes t' m) = tn_value (t_nodes t m)"
proof -
  let ?h = "t_nodes t"
  have "context_at (t_nodes t') (t_root t') c (Some n) pq \<and> t_nodes t' n = x"
  proof (cases c)
    case Nil
    then show ?thesis
      using ctx slot by (simp add: t'_def write_slot_def)
  next
    case (Cons f d)
    then show ?thesis
    proof (cases f)
      case (In_Left b r)
      have b: "pq = Some b" "sd = Left" "b \<noteq> n"
        using slot Cons In_Left dist by auto
      have "t_nodes t' m = ?h m" if "m \<in> set (nodes_of r) \<union> set (before d) \<union> set (after d)" for m
        using that b dist Cons In_Left by (auto simp: t'_def write_slot_def)
      then have "shape_at (t_nodes t') par p r = shape_at ?h par p r"
        "context_at (t_nodes t') (t_root t') d p par = context_at ?h (t_root t') d p par" for par p
        using shape_at_cong [of r "t_nodes t'" ?h] context_at_cong [of d "t_nodes t'" ?h] by auto
      moreover have "t_nodes t' b = (?h b)\<lparr>tn_left := Some n\<rparr>" "t_root t' = t_root t" "t_nodes t' n = x"
        using b by (simp_all add: t'_def write_slot_def)
      ultimately show ?thesis
        using ctx b Cons In_Left by simp
    next
      case (In_Right l b)
      have b: "pq = Some b" "sd = Right" "b \<noteq> n"
        using slot Cons In_Right dist by auto
      have "t_nodes t' m = ?h m" if "m \<in> set (nodes_of l) \<union> set (before d) \<union> set (after d)" for m
        using that b dist Cons In_Right by (auto simp: t'_def write_slot_def)
      then have "shape_at (t_nodes t') par p l = shape_at ?h par p l"
        "context_at (t_nodes t') (t_root t') d p par = context_at ?h (t_root t') d p par" for par p
        using shape_at_cong [of l "t_nodes t'" ?h] context_at_cong [of d "t_nodes t'" ?h] by auto
      moreover have "t_nodes t' b = (?h b)\<lparr>tn_right := Some n\<rparr>" "t_root t' = t_root t" "t_nodes t' n = x"
        using b by (simp_all add: t'_def write_slot_def)
      ultimately show ?thesis
        using ctx b Cons In_Right by simp
    qed
  qed
  then show "shape_at (t_nodes t') None (t_root t') (plug c (Fork Tip n Tip))" "t_nodes t' n = x"
    using x plug_at [of "t_nodes t'" "t_root t'" c "Fork Tip n Tip"] by auto
  show "t_count t' = t_count t"
    by (simp add: t'_def write_slot_def split: option.split side.split)
  show "tn_key (t_nodes t' m) = tn_key (?h m) \<and> tn_value (t_nodes t' m) = tn_value (?h m)"
    if "m \<noteq> n" for m
    using that by (simp add: t'_def write_slot_def split: option.split side.split)
qed


section \<open>A comparison orders the keys\<close>

locale key_order =
  fixes cmp :: "'k \<Rightarrow> 'k \<Rightarrow> int" and null :: 'k
  assumes cmp_zero: "a \<noteq> null \<Longrightarrow> b \<noteq> null \<Longrightarrow> cmp a b = 0 \<longleftrightarrow> a = b"
    and cmp_swap: "a \<noteq> null \<Longrightarrow> b \<noteq> null \<Longrightarrow> cmp a b < 0 \<longleftrightarrow> 0 < cmp b a"
    and cmp_trans: "a \<noteq> null \<Longrightarrow> b \<noteq> null \<Longrightarrow> c \<noteq> null \<Longrightarrow>
      cmp a b < 0 \<Longrightarrow> cmp b c < 0 \<Longrightarrow> cmp a c < 0"
begin

lemma less_neq: "a \<noteq> null \<Longrightarrow> b \<noteq> null \<Longrightarrow> cmp a b < 0 \<Longrightarrow> a \<noteq> b"
  using cmp_zero by force

lemma below_all:
  assumes "in_order cmp null h (xs @ n # ys)" and "k \<noteq> null" and "cmp k (tn_key (h n)) < 0"
    and "m \<in> set (n # ys)"
  shows "cmp k (tn_key (h m)) < 0"
  using assms cmp_trans [of k "tn_key (h n)" "tn_key (h m)"]
  by (auto simp: in_order_append in_order_Cons key_less_def dest: in_order_null)

lemma above_all:
  assumes "in_order cmp null h (xs @ n # ys)" and "k \<noteq> null" and "0 < cmp k (tn_key (h n))"
    and "m \<in> set (xs @ [n])"
  shows "0 < cmp k (tn_key (h m))"
proof -
  have nn: "tn_key (h n) \<noteq> null" "tn_key (h m) \<noteq> null"
    using assms by (auto simp: in_order_append in_order_Cons dest: in_order_null)
  have "m = n \<or> cmp (tn_key (h m)) (tn_key (h n)) < 0"
    using assms by (auto simp: in_order_append in_order_Cons key_less_def)
  then show ?thesis
    using assms(2,3) nn cmp_swap cmp_trans by metis
qed

lemma distinct_keys:
  assumes "in_order cmp null h ns"
  shows "distinct (map (\<lambda>n. tn_key (h n)) ns)"
  using assms
proof (induction ns)
  case (Cons n ns)
  then show ?case
    using less_neq by (force simp: in_order_Cons key_less_def dest: in_order_null)
qed simp

text \<open>Lookup finds the node with the key.\<close>

lemma find_loop_ok:
  assumes "shape_at h par p s" and "in_order cmp null h (nodes_of s)" and "k \<noteq> null"
  shows "tree_find_loop cmp h k p = Some (List.find (\<lambda>n. tn_key (h n) = k) (nodes_of s))"
  using assms
proof (induction s arbitrary: par p)
  case Tip
  then show ?case by (simp add: tree_find_loop.simps)
next
  case (Fork l n r)
  let ?P = "\<lambda>n. tn_key (h n) = k"
  have ord: "in_order cmp null h (nodes_of l @ n # nodes_of r)"
    using Fork.prems by simp
  have nn: "tn_key (h n) \<noteq> null" and ol: "in_order cmp null h (nodes_of l)"
    and orr: "in_order cmp null h (nodes_of r)"
    using ord by (auto simp: in_order_append in_order_Cons)
  note step = tree_find_loop.simps [of cmp h k p]
  have nP: "\<not> ?P m" if "cmp k (tn_key (h m)) \<noteq> 0" "m \<in> set (nodes_of (Fork l n r))" for m
    using that cmp_zero [of k "tn_key (h m)"] Fork.prems(2,3) by (auto dest: in_order_null)
  consider "k = tn_key (h n)" | "cmp k (tn_key (h n)) < 0" | "0 < cmp k (tn_key (h n))"
    using cmp_zero [OF Fork.prems(3) nn] by fastforce
  then show ?case
  proof cases
    case 1
    then have "\<forall>m \<in> set (nodes_of l). \<not> ?P m"
      using ord less_neq by (force simp: in_order_append in_order_Cons key_less_def dest: in_order_null)
    then have "List.find ?P (nodes_of (Fork l n r)) = Some n"
      using 1 by (simp add: find_skip)
    then show ?thesis
      using step 1 Fork.prems cmp_zero [of k k] by simp
  next
    case 2
    then have "\<forall>m \<in> set (n # nodes_of r). \<not> ?P m"
      using below_all [OF ord Fork.prems(3) 2] nP by force
    then have "List.find ?P (nodes_of (Fork l n r)) = List.find ?P (nodes_of l)"
      by (simp add: find_front)
    then show ?thesis
      using step 2 Fork.prems Fork.IH(1) [OF _ ol] by auto
  next
    case 3
    then have "\<forall>m \<in> set (nodes_of l @ [n]). \<not> ?P m"
      using above_all [OF ord Fork.prems(3) 3] nP by force
    then have "List.find ?P (nodes_of (Fork l n r)) = List.find ?P (nodes_of r)"
      using find_skip [of "nodes_of l @ [n]" ?P "nodes_of r"] by simp
    then show ?thesis
      using step 3 Fork.prems Fork.IH(2) [OF _ orr] by auto
  qed
qed

text \<open>The slot where a new key belongs.\<close>

lemma slot_loop_ok:
  assumes "context_at h rt c p pq" and "shape_at h pq p s"
    and "in_order cmp null h (nodes_of s)" and "k \<noteq> null" and "slot_of c sd = (pq, sd)"
  shows "if k \<in> tn_key ` h ` set (nodes_of s)
    then tree_slot_loop cmp h k pq sd p = Some (Inl ERR)
    else \<exists>pq' sd'. tree_slot_loop cmp h k pq sd p = Some (Inr (pq', sd')) \<and>
           slot_fits cmp h rt k c s pq' sd'"
  using assms
proof (induction s arbitrary: c p pq sd)
  case Tip
  then show ?case
    by (auto simp: tree_slot_loop.simps slot_fits_def)
next
  case (Fork l n r)
  have p: "p = Some n" and par: "tn_parent (h n) = pq"
    and l: "shape_at h (Some n) (tn_left (h n)) l" and r: "shape_at h (Some n) (tn_right (h n)) r"
    using Fork.prems(2) by auto
  have ord: "in_order cmp null h (nodes_of l @ n # nodes_of r)"
    using Fork.prems by simp
  have nn: "tn_key (h n) \<noteq> null" and ol: "in_order cmp null h (nodes_of l)"
    and orr: "in_order cmp null h (nodes_of r)"
    using ord by (auto simp: in_order_append in_order_Cons)
  note step = tree_slot_loop.simps [of cmp h k pq sd p]
  have no: "k \<noteq> tn_key (h m)" if "cmp k (tn_key (h m)) \<noteq> 0" "m \<in> set (nodes_of (Fork l n r))" for m
    using that cmp_zero [of k "tn_key (h m)"] Fork.prems(3,4) by (auto dest: in_order_null)
  consider "k = tn_key (h n)" | "cmp k (tn_key (h n)) < 0" | "0 < cmp k (tn_key (h n))"
    using cmp_zero [OF Fork.prems(4) nn] by fastforce
  then show ?case
  proof cases
    case 1
    then show ?thesis
      using step p Fork.prems cmp_zero [of k k] by simp
  next
    case 2
    have big: "\<forall>m \<in> set (n # nodes_of r). cmp k (tn_key (h m)) < 0"
      using below_all [OF ord Fork.prems(4) 2] by blast
    then have mem: "k \<in> tn_key ` h ` set (nodes_of (Fork l n r)) \<longleftrightarrow> k \<in> tn_key ` h ` set (nodes_of l)"
      using no by force
    have go: "tree_slot_loop cmp h k pq sd p = tree_slot_loop cmp h k (Some n) Left (tn_left (h n))"
      using step p 2 by simp
    have "context_at h rt (In_Left n r # c) (tn_left (h n)) (Some n)"
      using Fork.prems(1) p par r by simp
    from Fork.IH(1) [OF this l ol Fork.prems(4), of Left] show ?thesis
      unfolding mem go using slot_fits_left [of cmp h rt k n r c l] big by auto
  next
    case 3
    have small: "\<forall>m \<in> set (nodes_of l @ [n]). 0 < cmp k (tn_key (h m))"
      using above_all [OF ord Fork.prems(4) 3] by blast
    then have mem: "k \<in> tn_key ` h ` set (nodes_of (Fork l n r)) \<longleftrightarrow> k \<in> tn_key ` h ` set (nodes_of r)"
      using no by force
    have go: "tree_slot_loop cmp h k pq sd p = tree_slot_loop cmp h k (Some n) Right (tn_right (h n))"
      using step p 3 by simp
    have "context_at h rt (In_Right l n # c) (tn_right (h n)) (Some n)"
      using Fork.prems(1) p par l by simp
    from Fork.IH(2) [OF this r orr Fork.prems(4), of Right] show ?thesis
      unfolding mem go using slot_fits_right [of cmp h rt k l n c r] small by auto
  qed
qed

text \<open>The operations on a well-formed tree.\<close>

lemma map_of_entries:
  assumes "in_order cmp null h ns"
  shows "map_of (entries h ns) k =
    map_option (\<lambda>n. tn_value (h n)) (List.find (\<lambda>n. tn_key (h n) = k) ns)"
  using distinct_keys [OF assms] by (induction ns) (auto simp: entries_def)

lemma get_ok:
  assumes "tree_ok cmp null t s"
  shows "tree_get cmp null t k =
    Some (if k = null then 0 else case tree_map t s k of None \<Rightarrow> 0 | Some v \<Rightarrow> v)"
proof (cases "k = null")
  case False
  then show ?thesis
    using assms find_loop_ok map_of_entries
    by (fastforce simp: tree_ok_def tree_get_def tree_find_node_def tree_map_def split: option.splits)
qed (simp add: tree_get_def tree_find_node_def)

lemma order_insert:
  assumes ord: "in_order cmp null h (xs @ ys)" and n: "n \<notin> set (xs @ ys)"
    and new: "tn_key (h' n) = k" "tn_value (h' n) = v" "k \<noteq> null" "v \<noteq> 0"
    and old: "\<And>m. m \<noteq> n \<Longrightarrow> tn_key (h' m) = tn_key (h m) \<and> tn_value (h' m) = tn_value (h m)"
    and small: "\<forall>x \<in> set xs. 0 < cmp k (tn_key (h x))"
    and big: "\<forall>y \<in> set ys. cmp k (tn_key (h y)) < 0"
  shows "in_order cmp null h' (xs @ n # ys)"
    and "map_of (entries h' (xs @ n # ys)) = (map_of (entries h (xs @ ys)))(k \<mapsto> v)"
proof -
  have same: "tn_key (h' m) = tn_key (h m) \<and> tn_value (h' m) = tn_value (h m)" if "m \<in> set (xs @ ys)" for m
    using old [of m] n that by auto
  have ord': "in_order cmp null h' (xs @ ys)" and ent: "entries h' xs = entries h xs" "entries h' ys = entries h ys"
    using in_order_cong [of "xs @ ys" h' h, OF same] in_order_cong(2) [of xs h' h]
      in_order_cong(2) [of ys h' h] same ord by auto
  have "key_less cmp h' x n" if "x \<in> set xs" for x
    using small that same [of x] new cmp_swap [of "tn_key (h x)" k] in_order_null [OF ord, of x]
    by (simp add: key_less_def)
  moreover have "key_less cmp h' n y" if "y \<in> set ys" for y
    using big that same [of y] new by (simp add: key_less_def)
  ultimately show "in_order cmp null h' (xs @ n # ys)"
    using ord' new by (simp add: in_order_append in_order_Cons)
  have "k \<notin> fst ` set (entries h xs)"
    using small cmp_zero [of k k] new by (force simp: entries_def)
  then show "map_of (entries h' (xs @ n # ys)) = (map_of (entries h (xs @ ys)))(k \<mapsto> v)"
    using ent new map_of_insert_mid [of k "entries h xs"]
    by (simp add: entries_append entries_Cons)
qed

lemma insert_ok:
  assumes ok: "tree_ok cmp null t s" and n: "n \<notin> set (nodes_of s)"
    and k: "k \<noteq> null" and v: "v \<noteq> 0" and room: "length (nodes_of s) < 2 ^ 64 - 1"
  shows "if k \<in> dom (tree_map t s) then tree_insert_node cmp null (Some n) k v t = Some (ERR, t)
    else \<exists>t' s'. tree_insert_node cmp null (Some n) k v t = Some (OK, t') \<and>
      tree_ok cmp null t' s' \<and> tree_map t' s' = (tree_map t s)(k \<mapsto> v) \<and>
      set (nodes_of s') = insert n (set (nodes_of s))"
proof -
  let ?h = "t_nodes t"
  have sh: "shape_at ?h None (t_root t) s" and dist: "distinct (nodes_of s)"
    and ord: "in_order cmp null ?h (nodes_of s)" and cnt: "unat (t_count t) = length (nodes_of s)"
    using ok by (simp_all add: tree_ok_def)
  have dom: "k \<in> dom (tree_map t s) \<longleftrightarrow> k \<in> tn_key ` ?h ` set (nodes_of s)"
    by (simp add: tree_map_def entries_def dom_map_of_conv_image_fst image_image)
  have slot: "if k \<in> tn_key ` ?h ` set (nodes_of s)
    then tree_slot_loop cmp ?h k None Left (t_root t) = Some (Inl ERR)
    else \<exists>pq sd. tree_slot_loop cmp ?h k None Left (t_root t) = Some (Inr (pq, sd)) \<and>
           slot_fits cmp ?h (t_root t) k [] s pq sd"
    by (rule slot_loop_ok [OF _ sh ord k]) simp_all
  show ?thesis
  proof (cases "k \<in> dom (tree_map t s)")
    case True
    then show ?thesis
      using slot dom k v by (simp add: tree_insert_node_def)
  next
    case False
    with slot dom obtain pq sd where
      loop: "tree_slot_loop cmp ?h k None Left (t_root t) = Some (Inr (pq, sd))"
      and "slot_fits cmp ?h (t_root t) k [] s pq sd" by auto
    then obtain c where c: "slot_of c sd = (pq, sd)" "context_at ?h (t_root t) c None pq"
      "nodes_of s = before c @ after c"
      and sep: "\<forall>x \<in> set (before c). 0 < cmp k (tn_key (?h x))"
        "\<forall>y \<in> set (after c). cmp k (tn_key (?h y)) < 0"
      by (auto simp: slot_fits_def)
    define x where "x = \<lparr>tn_left = None, tn_right = None, tn_parent = pq, tn_key = k, tn_value = v\<rparr>"
    define t2 where "t2 = write_slot pq sd (Some n) (upd_node n (\<lambda>_. x) t)"
    let ?t = "t2\<lparr>t_count := t_count t2 + 1\<rparr>"
    let ?s = "plug c (Fork Tip n Tip)"
    have dn: "distinct (before c @ n # after c)"
      using dist n c by auto
    note w = write_slot_context [OF c(2,1) dn, of x, folded t2_def]
    have x: "tn_left x = None" "tn_right x = None" "tn_parent x = pq" "tn_key x = k" "tn_value x = v"
      by (simp_all add: x_def)
    note oi = order_insert [OF ord [unfolded c(3)] n [unfolded c(3)] _ _ k v _ sep, of "t_nodes t2"]
    have "in_order cmp null (t_nodes t2) (nodes_of ?s)"
      and m: "map_of (entries (t_nodes t2) (nodes_of ?s)) = (map_of (entries ?h (nodes_of s)))(k \<mapsto> v)"
      using oi w(2,4) x by (simp_all add: c(3))
    moreover have "unat (t_count t2 + 1) = length (nodes_of ?s)"
      using w(3) x cnt room c(3) unat_inc_64 [of "t_count t" "2 ^ 64 - 1"] by simp
    ultimately have "tree_ok cmp null ?t ?s"
      using w(1) x dn by (simp add: tree_ok_def)
    moreover have "tree_insert_node cmp null (Some n) k v t = Some (OK, ?t)"
      using k v loop by (simp add: tree_insert_node_def t2_def x_def Let_def)
    moreover have "tree_map ?t ?s = (tree_map t s)(k \<mapsto> v)"
      using m by (simp add: tree_map_def)
    ultimately show ?thesis
      using False c(3) by auto
  qed
qed

text \<open>Removing a node of the tree.\<close>

lemma remove_ok:
  assumes ok: "tree_ok cmp null t s" and n: "n \<in> set (nodes_of s)"
  shows "\<exists>t' s'. tree_remove_node null (Some n) t = Some t' \<and> tree_ok cmp null t' s' \<and>
    tree_map t' s' = (tree_map t s)(tn_key (t_nodes t n) := None) \<and>
    set (nodes_of s') = set (nodes_of s) - {n}"
proof -
  let ?h = "t_nodes t"
  have sh: "shape_at ?h None (t_root t) s" and dist: "distinct (nodes_of s)"
    and ord: "in_order cmp null ?h (nodes_of s)" and cnt: "unat (t_count t) = length (nodes_of s)"
    using ok by (simp_all add: tree_ok_def)
  obtain t1 s' where t1: "tree_splice n t = Some t1" "shape_at (t_nodes t1) None (t_root t1) s'"
    and s': "nodes_of s' = remove1 n (nodes_of s)"
    using splice_shape [OF sh dist n] by blast
  define t2 where "t2 = upd_node n (\<lambda>_. \<lparr>tn_left = None, tn_right = None, tn_parent = None,
                                    tn_key = null, tn_value = 0\<rparr>) t1"
  define t' where "t' = t2\<lparr>t_count := t_count t2 - 1\<rparr>"
  have same: "tn_key (t_nodes t1 m) = tn_key (?h m)" "tn_value (t_nodes t1 m) = tn_value (?h m)"
    "t_count t1 = t_count t" for m
    using same_data_splice [OF t1(1)] by (simp_all add: same_data_def)
  have ns: "n \<notin> set (nodes_of s')" "set (nodes_of s') = set (nodes_of s) - {n}"
    using dist s' by (simp_all add: set_remove1_eq)
  have pos: "0 < unat (t_count t)"
    using cnt n by (cases "nodes_of s") auto
  then have "t_count t1 \<noteq> 0"
    using same(3) by auto
  then have ret: "tree_remove_node null (Some n) t = Some t'"
    using t1(1) by (simp add: tree_remove_node_def t'_def t2_def Let_def)
  have data: "tn_key (t_nodes t' m) = tn_key (?h m) \<and> tn_value (t_nodes t' m) = tn_value (?h m)"
    if "m \<in> set (nodes_of s')" for m
    using that ns(1) same by (auto simp: t'_def t2_def)
  obtain xs ys where xy: "nodes_of s = xs @ n # ys" "nodes_of s' = xs @ ys"
    using split_list [OF n] s' dist by (auto simp: remove1_append)
  have "shape_at (t_nodes t') None (t_root t') s'"
  proof (subst shape_at_cong [of s' _ "t_nodes t1"])
    show "t_nodes t' m = t_nodes t1 m" if "m \<in> set (nodes_of s')" for m
      using that ns(1) by (auto simp: t'_def t2_def)
  qed (use t1(2) in \<open>simp add: t'_def t2_def\<close>)
  moreover have "in_order cmp null (t_nodes t') (nodes_of s')"
    using in_order_cong(1) [of "nodes_of s'" "t_nodes t'" ?h, OF data] ord
    unfolding xy by (simp add: in_order_append in_order_Cons)
  moreover have "unat (t_count t') = length (nodes_of s')"
    using pos cnt same(3) unat_dec_64 [of "t_count t"] xy by (simp add: t'_def t2_def)
  ultimately have "tree_ok cmp null t' s'"
    using dist s' by (simp add: tree_ok_def)
  moreover have "tree_map t' s' = (tree_map t s)(tn_key (?h n) := None)"
  proof -
    have "entries (t_nodes t') (xs @ ys) = entries ?h (xs @ ys)"
      using in_order_cong(2) [of "nodes_of s'" "t_nodes t'" ?h, OF data] xy by simp
    moreover have "tn_key (?h n) \<notin> fst ` set (entries ?h (xs @ ys))"
      using distinct_keys [OF ord] by (auto simp: xy entries_def)
    then have "map_of (entries ?h (xs @ ys)) =
        (map_of (entries ?h (xs @ n # ys)))(tn_key (?h n) := None)"
      unfolding entries_append entries_Cons by (rule map_of_remove_mid)
    ultimately show ?thesis
      by (simp add: tree_map_def xy)
  qed
  ultimately show ?thesis
    using ret ns by blast
qed

end


section \<open>Traversal\<close>

lemma first_ok:
  assumes "shape_at (t_nodes t) None (t_root t) s"
  shows "tree_first_node t = Some (case nodes_of s of [] \<Rightarrow> None | n # _ \<Rightarrow> Some n)"
proof (cases "t_root t")
  case None
  then show ?thesis
    using assms by (simp add: tree_first_node_def shape_null)
next
  case (Some m)
  with assms obtain d n rr where "s = plug d (Fork Tip n rr)" "leftmost_loop (t_nodes t) m = Some n"
    "before d = []"
    by (metis leftmost_shape)
  with Some show ?thesis by (simp add: tree_first_node_def)
qed

lemma climb_ok:
  assumes "context_at h rt c (Some n) (tn_parent (h n))" and "distinct (before c @ n # after c)"
  shows "climb_loop h n = Some (case after c of [] \<Rightarrow> None | m # _ \<Rightarrow> Some m)"
  using assms
proof (induction c arbitrary: n)
  case Nil
  then show ?case by (simp add: climb_loop.simps)
next
  case (Cons f c)
  show ?case
  proof (cases f)
    case (In_Left b r)
    then have "tn_parent (h n) = Some b" "shape_at h (Some b) (tn_right (h b)) r"
      "n \<notin> set (nodes_of r)"
      using Cons.prems by auto
    then have "tn_right (h b) \<noteq> Some n"
      using shape_root by metis
    with In_Left \<open>tn_parent (h n) = Some b\<close> show ?thesis
      by (auto simp: climb_loop.simps [of h n])
  next
    case (In_Right l b)
    then have "tn_parent (h n) = Some b" "tn_right (h b) = Some n"
      "context_at h rt c (Some b) (tn_parent (h b))" "distinct (before c @ b # after c)"
      using Cons.prems by auto
    with Cons.IH [of b] In_Right show ?thesis
      by (simp add: climb_loop.simps [of h n])
  qed
qed

lemma next_ok:
  assumes "shape_at h None rt s" and "distinct (nodes_of s)" and "nodes_of s = xs @ n # ys"
  shows "tree_next_node h (Some n) = Some (case ys of [] \<Rightarrow> None | m # _ \<Rightarrow> Some m)"
proof -
  have "n \<in> set (nodes_of s)"
    using assms(3) by simp
  then obtain c l r where s: "s = plug c (Fork l n r)"
    by (rule find_context)
  have ctx: "context_at h rt c (Some n) (tn_parent (h n))"
    and r: "shape_at h (Some n) (tn_right (h n)) r"
    using assms(1) unfolding s plug_at by auto
  have "xs @ n # ys = (before c @ nodes_of l) @ n # nodes_of r @ after c"
    using assms(3) by (simp add: s)
  moreover have "n \<notin> set xs" "n \<notin> set ys"
    using assms(2) unfolding assms(3) by simp_all
  ultimately have ys: "ys = nodes_of r @ after c"
    using append_Cons_eq_iff [of n xs ys "before c @ nodes_of l" "nodes_of r @ after c"] by simp
  show ?thesis
  proof (cases "tn_right (h n)")
    case None
    moreover have "distinct (before c @ n # after c)"
      using assms(2) by (auto simp: s)
    ultimately show ?thesis
      using climb_ok [OF ctx] r ys by (simp add: tree_next_node_def shape_null)
  next
    case (Some m)
    with r obtain d k rr where "r = plug d (Fork Tip k rr)" "leftmost_loop h m = Some k" "before d = []"
      by (metis leftmost_shape)
    with Some ys show ?thesis by (simp add: tree_next_node_def)
  qed
qed


section \<open>The two instances\<close>

interpretation u64_keys: key_order u64_key_cmp 0
  by unfold_locales (auto simp: u64_key_cmp_def split: if_splits)

lemma tree_key_cmp_zero: "tree_key_cmp a b = 0 \<longleftrightarrow> a = b"
  by (induction a b rule: tree_key_cmp.induct) (auto intro: signed_word_eqI [where 'a = int])

lemma tree_key_cmp_swap: "tree_key_cmp a b < 0 \<longleftrightarrow> 0 < tree_key_cmp b a"
  by (induction a b rule: tree_key_cmp.induct) auto

lemma tree_key_cmp_Cons_less:
  "tree_key_cmp (l # ls) (r # rs) < 0 \<longleftrightarrow>
     sint l < sint r \<or> sint l = sint r \<and> tree_key_cmp ls rs < 0"
  by auto

lemma tree_key_cmp_trans: "tree_key_cmp a b < 0 \<Longrightarrow> tree_key_cmp b c < 0 \<Longrightarrow> tree_key_cmp a c < 0"
proof (induction a arbitrary: b c)
  case Nil
  then show ?case by (cases b; cases c) auto
next
  case (Cons l ls)
  then obtain r rs where b: "b = r # rs" by (cases b) auto
  with Cons.prems obtain x xs where c: "c = x # xs" by (cases c) auto
  from Cons.prems Cons.IH [of rs xs] show ?case
    unfolding b c tree_key_cmp_Cons_less by auto
qed

interpretation string_keys: key_order string_cmp None
  by unfold_locales (auto simp: tree_key_cmp_zero intro: tree_key_cmp_trans tree_key_cmp_swap [THEN iffD1]
      tree_key_cmp_swap [THEN iffD2])


section \<open>Properties\<close>

text \<open>Following \<^verbatim>\<open>u64_tree_next_node\<close> from a node until it answers null.\<close>

primrec tree_walk :: "nat \<Rightarrow> (nat \<Rightarrow> 'k tree_node) \<Rightarrow> nat option \<Rightarrow> nat list option" where
  "tree_walk 0 h p = None"
| "tree_walk (Suc fuel) h p =
     (case p of
        None \<Rightarrow> Some []
      | Some n \<Rightarrow> do {
          q \<leftarrow> tree_next_node h p;
          rest \<leftarrow> tree_walk fuel h q;
          Some (n # rest)
        })"

lemma walk_ok:
  assumes "shape_at h None rt s" and "distinct (nodes_of s)" and "nodes_of s = xs @ ys"
    and "length ys < fuel"
  shows "tree_walk fuel h (case ys of [] \<Rightarrow> None | n # _ \<Rightarrow> Some n) = Some ys"
  using assms(3,4)
proof (induction ys arbitrary: xs fuel)
  case Nil
  then show ?case by (cases fuel) auto
next
  case (Cons n ys)
  then obtain f where f: "fuel = Suc f" "length ys < f" by (cases fuel) auto
  have "nodes_of s = (xs @ [n]) @ ys"
    using Cons.prems by simp
  with Cons.IH [OF this f(2)] next_ok [OF assms(1,2) Cons.prems(1)] f(1) show ?case
    by simp
qed

definition empty_tree :: "'k \<Rightarrow> 'k tree" where
  "empty_tree null = \<lparr>t_root = None, t_count = 0, t_nodes = (\<lambda>_. \<lparr>tn_left = None, tn_right = None,
     tn_parent = None, tn_key = null, tn_value = 0\<rparr>)\<rparr>"

lemma empty_tree_ok: "tree_ok cmp null (empty_tree null) Tip"
  by (simp add: tree_ok_def empty_tree_def in_order_def)

definition one_tree :: "'k \<Rightarrow> 'k \<Rightarrow> u64 \<Rightarrow> 'k tree" where
  "one_tree null k v = \<lparr>t_root = Some 0, t_count = 1, t_nodes = (\<lambda>_. \<lparr>tn_left = None, tn_right = None,
     tn_parent = None, tn_key = k, tn_value = v\<rparr>)\<rparr>"

lemma one_tree_ok: "k \<noteq> null \<Longrightarrow> v \<noteq> 0 \<Longrightarrow> tree_ok cmp null (one_tree null k v) (Fork Tip 0 Tip)"
  by (simp add: tree_ok_def one_tree_def in_order_def)

text \<open>
  C19. The 64-bit tree is a map. On a well-formed tree, with a node that is not yet in it and
  a nonzero key and value, \<^verbatim>\<open>u64_tree_insert_node\<close> returns; it refuses a key that is
  present, changing nothing, and otherwise leaves a well-formed tree with exactly one more
  binding, which \<^verbatim>\<open>u64_tree_get\<close> answers; every lookup answers the bound value, or 0.
\<close>

theorem u64_tree_insert_get:
  assumes "tree_ok u64_key_cmp 0 t s" and "n \<notin> set (nodes_of s)" and "k \<noteq> 0" and "v \<noteq> 0"
    and "length (nodes_of s) < 2 ^ 64 - 1"
  shows "(k \<in> dom (tree_map t s) \<and> u64_tree_insert_node (Some n) k v t = Some (ERR, t)) \<or>
    (k \<notin> dom (tree_map t s) \<and> (\<exists>t' s'. u64_tree_insert_node (Some n) k v t = Some (OK, t') \<and>
      tree_ok u64_key_cmp 0 t' s' \<and> tree_map t' s' = (tree_map t s)(k \<mapsto> v) \<and>
      (\<forall>j. j \<noteq> 0 \<longrightarrow> u64_tree_get t' j =
         Some (if j = k then v else case tree_map t s j of None \<Rightarrow> 0 | Some w \<Rightarrow> w))))"
proof (cases "k \<in> dom (tree_map t s)")
  case True
  then show ?thesis
    using u64_keys.insert_ok [OF assms] by (simp add: u64_tree_insert_node_def)
next
  case False
  then obtain t' s' where "u64_tree_insert_node (Some n) k v t = Some (OK, t')"
    and ok: "tree_ok u64_key_cmp 0 t' s'" and "tree_map t' s' = (tree_map t s)(k \<mapsto> v)"
    using u64_keys.insert_ok [OF assms] by (auto simp: u64_tree_insert_node_def)
  with False u64_keys.get_ok [OF ok] show ?thesis
    by (fastforce simp: u64_tree_get_def)
qed

theorem u64_tree_insert_get_witness:
  "\<exists>t' s'. u64_tree_insert_node (Some 1) 3 9 (one_tree 0 5 7) = Some (OK, t') \<and>
     tree_map t' s' = [5 \<mapsto> 7, 3 \<mapsto> 9] \<and> u64_tree_get t' 3 = Some 9 \<and> u64_tree_get t' 5 = Some 7"
proof -
  have m: "tree_map (one_tree 0 5 7) (Fork Tip 0 Tip) = [5 \<mapsto> 7]"
    by (simp add: tree_map_def entries_def one_tree_def)
  have "tree_ok u64_key_cmp 0 (one_tree 0 5 7) (Fork Tip 0 Tip)"
    by (rule one_tree_ok) simp_all
  then obtain t' s' where t': "u64_tree_insert_node (Some 1) 3 9 (one_tree 0 5 7) = Some (OK, t')"
    "tree_map t' s' = [5 \<mapsto> 7, 3 \<mapsto> 9]"
    and get: "\<And>j. j \<noteq> 0 \<Longrightarrow> u64_tree_get t' j =
         Some (if j = 3 then 9 else case [5 \<mapsto> 7] j of None \<Rightarrow> 0 | Some w \<Rightarrow> w)"
    using u64_tree_insert_get [of "one_tree 0 5 7" "Fork Tip 0 Tip" 1 3 9] unfolding m by auto
  with get [of 3] get [of 5] show ?thesis
    by (intro exI [of _ t'] exI [of _ s']) simp
qed

text \<open>
  C9. Removal. \<^verbatim>\<open>u64_tree_remove_node\<close> of a node of a well-formed tree, whether it has no,
  one or two children, returns a well-formed tree in which exactly its key is unbound and
  from whose nodes exactly this one is gone; the counter goes down by one.
\<close>

theorem u64_tree_remove_exact:
  assumes "tree_ok u64_key_cmp 0 t s" and "n \<in> set (nodes_of s)"
  shows "\<exists>t' s'. u64_tree_remove_node (Some n) t = Some t' \<and> tree_ok u64_key_cmp 0 t' s' \<and>
    tree_map t' s' = (tree_map t s)(tn_key (t_nodes t n) := None) \<and>
    set (nodes_of s') = set (nodes_of s) - {n} \<and>
    unat (t_count t') + 1 = unat (t_count t)"
proof -
  obtain t' s' where "u64_tree_remove_node (Some n) t = Some t'" and ok: "tree_ok u64_key_cmp 0 t' s'"
    and "tree_map t' s' = (tree_map t s)(tn_key (t_nodes t n) := None)"
    and ns: "set (nodes_of s') = set (nodes_of s) - {n}"
    using u64_keys.remove_ok [OF assms] by (auto simp: u64_tree_remove_node_def)
  moreover have "length (nodes_of s') + 1 = length (nodes_of s)"
  proof -
    have "card (set (nodes_of s')) = length (nodes_of s')" "card (set (nodes_of s)) = length (nodes_of s)"
      using ok assms(1) by (simp_all add: tree_ok_def distinct_card)
    with card.remove [OF finite_set assms(2)] ns show ?thesis by simp
  qed
  ultimately show ?thesis
    using ok assms(1) by (auto simp: tree_ok_def)
qed

theorem u64_tree_remove_exact_witness:
  "\<exists>t' s'. u64_tree_remove_node (Some 0) (one_tree 0 5 7) = Some t' \<and> tree_map t' s' = Map.empty"
proof -
  have m: "tree_map (one_tree 0 5 7) (Fork Tip 0 Tip) = [5 \<mapsto> 7]"
    "tn_key (t_nodes (one_tree 0 5 7) 0) = (5 :: u64)"
    by (simp_all add: tree_map_def entries_def one_tree_def)
  have "tree_ok u64_key_cmp 0 (one_tree 0 5 7) (Fork Tip 0 Tip)"
    by (rule one_tree_ok) simp_all
  then obtain t' s' where "u64_tree_remove_node (Some 0) (one_tree 0 5 7) = Some t'"
    "tree_map t' s' = [5 \<mapsto> 7](5 := None)"
    using u64_tree_remove_exact [of "one_tree 0 5 7" "Fork Tip 0 Tip" 0] unfolding m by auto
  then show ?thesis by (intro exI [of _ t'] exI [of _ s']) simp
qed

text \<open>
  C20. Traversal. Starting at \<^verbatim>\<open>u64_tree_first_node\<close> and following
  \<^verbatim>\<open>u64_tree_next_node\<close> through the parent links visits, and then ends, every key of a
  well-formed tree once, in ascending order.
\<close>

theorem u64_tree_walk_ascending:
  assumes "tree_ok u64_key_cmp 0 t s"
  shows "\<exists>p ns. tree_first_node t = Some p \<and>
    tree_walk (Suc (unat (t_count t))) (t_nodes t) p = Some ns \<and>
    sorted_wrt (<) (map (\<lambda>n. tn_key (t_nodes t n)) ns) \<and>
    set (map (\<lambda>n. tn_key (t_nodes t n)) ns) = dom (tree_map t s)"
proof -
  have sh: "shape_at (t_nodes t) None (t_root t) s" and dist: "distinct (nodes_of s)"
    and ord: "in_order u64_key_cmp 0 (t_nodes t) (nodes_of s)"
    and cnt: "unat (t_count t) = length (nodes_of s)"
    using assms by (simp_all add: tree_ok_def)
  have "sorted_wrt (<) (map (\<lambda>n. tn_key (t_nodes t n)) (nodes_of s))"
    using ord by (auto simp: in_order_def sorted_wrt_map key_less_def u64_key_cmp_def
        elim!: sorted_wrt_mono_rel [rotated] split: if_splits)
  moreover have "set (map (\<lambda>n. tn_key (t_nodes t n)) (nodes_of s)) = dom (tree_map t s)"
    by (simp add: tree_map_def entries_def dom_map_of_conv_image_fst image_image)
  moreover have "tree_walk (Suc (unat (t_count t))) (t_nodes t)
      (case nodes_of s of [] \<Rightarrow> None | n # _ \<Rightarrow> Some n) = Some (nodes_of s)"
    by (rule walk_ok [OF sh dist, of "[]"]) (simp_all add: cnt)
  ultimately show ?thesis
    using first_ok [OF sh] by blast
qed

theorem u64_tree_walk_ascending_witness:
  "\<exists>p ns. tree_first_node (one_tree (0::u64) 5 7) = Some p \<and>
     set (map (\<lambda>n. tn_key (t_nodes (one_tree (0::u64) 5 7) n)) ns) = {5}"
proof -
  have m: "dom (tree_map (one_tree (0::u64) 5 7) (Fork Tip 0 Tip)) = {5}"
    by (simp add: tree_map_def entries_def one_tree_def)
  have "tree_ok u64_key_cmp 0 (one_tree 0 5 7) (Fork Tip 0 Tip)"
    by (rule one_tree_ok) simp_all
  from u64_tree_walk_ascending [OF this] show ?thesis
    unfolding m by blast
qed

text \<open>
  C21. The string tree is a map too: the signed-byte comparison \<^verbatim>\<open>tree_key_cmp\<close> is a
  total order of strings, so inserting a fresh name and looking it up answers its value,
  every other name is answered as before, and removing a node unbinds exactly its name.
\<close>

theorem str_tree_is_map:
  assumes "tree_ok string_cmp None t s" and "n \<notin> set (nodes_of s)" and "v \<noteq> 0"
    and "length (nodes_of s) < 2 ^ 64 - 1" and "Some k \<notin> dom (tree_map t s)"
  shows "\<exists>t' s'. str_tree_insert_node (Some n) (Some k) v t = Some (OK, t') \<and>
      tree_ok string_cmp None t' s' \<and> tree_map t' s' = (tree_map t s)(Some k \<mapsto> v) \<and>
      (\<forall>j. str_tree_get t' (Some j) = (if j = k then Some v else str_tree_get t (Some j))) \<and>
      (\<forall>m. m \<in> set (nodes_of s') \<longrightarrow> (\<exists>u r. str_tree_remove_node (Some m) t' = Some u \<and>
         tree_ok string_cmp None u r \<and>
         tree_map u r = (tree_map t' s')(tn_key (t_nodes t' m) := None)))"
proof -
  obtain t' s' where "str_tree_insert_node (Some n) (Some k) v t = Some (OK, t')"
    and ok: "tree_ok string_cmp None t' s'" and m: "tree_map t' s' = (tree_map t s)(Some k \<mapsto> v)"
    using string_keys.insert_ok [OF assms(1,2) _ assms(3,4), of "Some k"] assms(5)
    by (auto simp: str_tree_insert_node_def)
  moreover have "str_tree_get t' (Some j) = (if j = k then Some v else str_tree_get t (Some j))" for j
    using string_keys.get_ok [OF ok] string_keys.get_ok [OF assms(1)] m by (simp add: str_tree_get_def)
  moreover have "\<exists>u r. str_tree_remove_node (Some m) t' = Some u \<and> tree_ok string_cmp None u r \<and>
         tree_map u r = (tree_map t' s')(tn_key (t_nodes t' m) := None)" if "m \<in> set (nodes_of s')" for m
    using string_keys.remove_ok [OF ok that] by (auto simp: str_tree_remove_node_def)
  ultimately show ?thesis by blast
qed

theorem str_tree_is_map_witness:
  "\<exists>t'. str_tree_insert_node (Some 1) (Some [0x61]) 9 (one_tree None (Some [0xE9]) 7) = Some (OK, t') \<and>
     str_tree_get t' (Some [0x61]) = Some 9"
proof -
  have m: "tree_map (one_tree None (Some [0xE9]) 7) (Fork Tip 0 Tip) = [Some [0xE9] \<mapsto> 7]"
    by (simp add: tree_map_def entries_def one_tree_def)
  have "tree_ok string_cmp None (one_tree None (Some [0xE9]) 7) (Fork Tip 0 Tip)"
    by (rule one_tree_ok) simp_all
  then obtain t' where
    "str_tree_insert_node (Some 1) (Some [0x61]) 9 (one_tree None (Some [0xE9]) 7) = Some (OK, t')"
    and get: "\<forall>j. str_tree_get t' (Some j) = (if j = [0x61] then Some 9
        else str_tree_get (one_tree None (Some [0xE9]) 7) (Some j))"
    using str_tree_is_map [of "one_tree None (Some [0xE9]) 7" "Fork Tip 0 Tip" 1 9 "[0x61]"]
    unfolding m by auto
  moreover from get have "str_tree_get t' (Some [0x61]) = Some 9" by simp
  ultimately show ?thesis by blast
qed

end
