(* ===== verification/Vm_Regions.thy ===== *)
theory Vm_Regions
  imports Bunix_Prelude "HOL-Library.Monad_Syntax"
begin

text \<open>
  The table of user memory regions of a task (\<^verbatim>\<open>kernel/sched.c\<close>): adding, extending,
  protecting and removing ranges. The table is the array \<^verbatim>\<open>vm_regions\<close> up to
  \<^verbatim>\<open>vm_region_count\<close>, here a list; each call holds the task's lock, so it is a function on
  the table. Growing the array asks the slab allocator for memory; \<open>vm_allocs\<close> are the
  answers it will give, in order (no answer left means out of memory).
\<close>

section \<open>The table\<close>

record task_vm_region =
  vr_base :: u64
  vr_len :: u64
  vr_offset :: u64
  vr_writable :: bool
  vr_kind :: u32
  vr_prot :: u32
  vr_flags :: u32
  vr_object_type :: u32
  vr_object_id :: u32

record vm_table =
  vm_regions :: "task_vm_region list"
  vm_region_capacity :: u32
  vm_allocs :: "bool list"

text \<open>The five words that say what a mapping is: those \<^verbatim>\<open>vm_region_metadata_matches\<close> compares.\<close>

record vm_attrs =
  at_prot :: u32
  at_flags :: u32
  at_kind :: u32
  at_object_type :: u32
  at_object_id :: u32

abbreviation (input) TASK_VM_REGION_ELF :: u32 where "TASK_VM_REGION_ELF \<equiv> 1"
abbreviation (input) TASK_VM_REGION_STACK :: u32 where "TASK_VM_REGION_STACK \<equiv> 2"
abbreviation (input) TASK_VM_REGION_BRK :: u32 where "TASK_VM_REGION_BRK \<equiv> 3"
abbreviation (input) TASK_VM_REGION_MMAP :: u32 where "TASK_VM_REGION_MMAP \<equiv> 4"
abbreviation (input) TASK_VM_PROT_READ :: u32 where "TASK_VM_PROT_READ \<equiv> 1"
abbreviation (input) TASK_VM_PROT_WRITE :: u32 where "TASK_VM_PROT_WRITE \<equiv> 2"
abbreviation (input) TASK_VM_PROT_EXEC :: u32 where "TASK_VM_PROT_EXEC \<equiv> 4"
abbreviation (input) TASK_VM_MAP_PRIVATE :: u32 where "TASK_VM_MAP_PRIVATE \<equiv> 1"
abbreviation (input) TASK_VM_MAP_ANONYMOUS :: u32 where "TASK_VM_MAP_ANONYMOUS \<equiv> 2"
abbreviation (input) TASK_VM_OBJECT_ANON :: u32 where "TASK_VM_OBJECT_ANON \<equiv> 1"
abbreviation (input) TASK_VM_OBJECT_FILE :: u32 where "TASK_VM_OBJECT_FILE \<equiv> 2"
abbreviation (input) INITIAL_TASK_VM_REGIONS :: u32 where "INITIAL_TASK_VM_REGIONS \<equiv> 32"


section \<open>Helpers of the source\<close>

definition region_end :: "task_vm_region \<Rightarrow> u64" where
  "region_end region = vr_base region + vr_len region"

definition writable_to_prot :: "bool \<Rightarrow> u32" where
  "writable_to_prot writable =
     or TASK_VM_PROT_READ (if writable then TASK_VM_PROT_WRITE else 0)"

definition writable_to_flags :: "u32 \<Rightarrow> u32" where
  "writable_to_flags kind =
     or TASK_VM_MAP_PRIVATE
       (if kind = TASK_VM_REGION_MMAP \<or> kind = TASK_VM_REGION_BRK \<or> kind = TASK_VM_REGION_STACK
        then TASK_VM_MAP_ANONYMOUS else 0)"

definition kind_to_object_type :: "u32 \<Rightarrow> u32" where
  "kind_to_object_type kind =
     (if kind = TASK_VM_REGION_ELF then TASK_VM_OBJECT_FILE else TASK_VM_OBJECT_ANON)"

definition regions_overlap :: "u64 \<Rightarrow> u64 \<Rightarrow> u64 \<Rightarrow> u64 \<Rightarrow> bool" where
  "regions_overlap a_base a_len b_base b_len \<longleftrightarrow>
     a_base < b_base + b_len \<and> b_base < a_base + a_len"

definition vm_region_metadata_matches :: "task_vm_region \<Rightarrow> vm_attrs \<Rightarrow> bool" where
  "vm_region_metadata_matches region m \<longleftrightarrow>
     vr_kind region = at_kind m \<and> vr_prot region = at_prot m \<and> vr_flags region = at_flags m \<and>
     vr_object_type region = at_object_type m \<and> vr_object_id region = at_object_id m"

definition vm_region_append_offset_matches :: "task_vm_region \<Rightarrow> vm_attrs \<Rightarrow> u64 \<Rightarrow> bool" where
  "vm_region_append_offset_matches region m offset \<longleftrightarrow>
     at_object_id m = 0 \<or> at_object_type m = TASK_VM_OBJECT_ANON \<or>
     vr_offset region + vr_len region = offset"

definition vm_region_prepend_offset_matches ::
  "task_vm_region \<Rightarrow> u64 \<Rightarrow> u64 \<Rightarrow> vm_attrs \<Rightarrow> u64 \<Rightarrow> bool" where
  "vm_region_prepend_offset_matches region base len m offset \<longleftrightarrow>
     (if base \<ge> vr_base region \<or> at_object_id m = 0 \<or> at_object_type m = TASK_VM_OBJECT_ANON
      then True
      else offset + (vr_base region - base) = vr_offset region \<and>
           offset + len \<ge> vr_offset region)"

definition task_vm_range_overlaps_other_locked ::
  "task_vm_region list \<Rightarrow> nat \<Rightarrow> u64 \<Rightarrow> u64 \<Rightarrow> bool" where
  "task_vm_range_overlaps_other_locked rs skip_index base len \<longleftrightarrow>
     list_ex (\<lambda>i. i \<noteq> skip_index \<and>
        regions_overlap base len (vr_base (rs ! i)) (vr_len (rs ! i))) [0..<length rs]"

definition region_set_prot :: "u32 \<Rightarrow> task_vm_region \<Rightarrow> task_vm_region" where
  "region_set_prot prot region =
     region\<lparr>vr_prot := prot, vr_writable := and prot TASK_VM_PROT_WRITE \<noteq> 0\<rparr>"


section \<open>Growing the table\<close>

partial_function (option) grow_capacity :: "u32 \<Rightarrow> u32 \<Rightarrow> u32 option" where
  "grow_capacity new_capacity min_capacity =
     (if new_capacity < min_capacity then grow_capacity (new_capacity * 2) min_capacity
      else Some new_capacity)"

definition task_grow_vm_regions_locked :: "u32 \<Rightarrow> vm_table \<Rightarrow> (status \<times> vm_table) option" where
  "task_grow_vm_regions_locked min_capacity t =
     (if vm_region_capacity t \<ge> min_capacity then Some (OK, t)
      else do {
        new_capacity \<leftarrow> grow_capacity
          (if vm_region_capacity t = 0 then INITIAL_TASK_VM_REGIONS else vm_region_capacity t)
          min_capacity;
        (case vm_allocs t of
           True # rest \<Rightarrow> Some (OK, t\<lparr>vm_region_capacity := new_capacity, vm_allocs := rest\<rparr>)
         | False # rest \<Rightarrow> Some (ERR, t\<lparr>vm_allocs := rest\<rparr>)
         | [] \<Rightarrow> Some (ERR, t))
      })"

definition task_append_vm_region_locked ::
  "task_vm_region \<Rightarrow> vm_table \<Rightarrow> (status \<times> vm_table) option" where
  "task_append_vm_region_locked region t =
     do {
       (r, t1) \<leftarrow> task_grow_vm_regions_locked (of_nat (length (vm_regions t)) + 1) t;
       Some (if r \<noteq> OK then (ERR, t1) else (OK, t1\<lparr>vm_regions := vm_regions t1 @ [region]\<rparr>))
     }"


section \<open>Adding and extending\<close>

definition new_region :: "u64 \<Rightarrow> u64 \<Rightarrow> vm_attrs \<Rightarrow> u64 \<Rightarrow> task_vm_region" where
  "new_region base len m offset =
     \<lparr>vr_base = base, vr_len = len, vr_offset = offset,
      vr_writable = (and (at_prot m) TASK_VM_PROT_WRITE \<noteq> 0), vr_kind = at_kind m,
      vr_prot = at_prot m, vr_flags = at_flags m, vr_object_type = at_object_type m,
      vr_object_id = at_object_id m\<rparr>"

text \<open>The condition of the first loop of \<^verbatim>\<open>task_add_vm_mapping\<close>: the range continues a region.\<close>

definition append_fits :: "task_vm_region list \<Rightarrow> u64 \<Rightarrow> u64 \<Rightarrow> vm_attrs \<Rightarrow> u64 \<Rightarrow> nat \<Rightarrow> bool" where
  "append_fits rs base len m offset i =
     (let region = rs ! i; new_len = vr_len region + len
      in vm_region_metadata_matches region m \<and>
         vm_region_append_offset_matches region m offset \<and>
         region_end region = base \<and> new_len \<ge> vr_len region \<and>
         \<not> task_vm_range_overlaps_other_locked rs i (vr_base region) new_len)"

definition task_vm_range_is_free :: "u64 \<Rightarrow> u64 \<Rightarrow> vm_table \<Rightarrow> bool" where
  "task_vm_range_is_free base len t =
     (if len = 0 \<or> base + len < base then False
      else \<not> list_ex (\<lambda>region. regions_overlap base len (vr_base region) (vr_len region))
             (vm_regions t))"

definition task_add_vm_mapping ::
  "u64 \<Rightarrow> u64 \<Rightarrow> vm_attrs \<Rightarrow> u64 \<Rightarrow> vm_table \<Rightarrow> (status \<times> vm_table) option" where
  "task_add_vm_mapping base len m offset t =
     (let rs = vm_regions t
      in if len = 0 \<or> base + len < base then Some (ERR, t)
         else case List.find (append_fits rs base len m offset) [0..<length rs] of
           Some i \<Rightarrow>
             Some (OK, t\<lparr>vm_regions := rs[i := (rs ! i)\<lparr>vr_len := vr_len (rs ! i) + len\<rparr>]\<rparr>)
         | None \<Rightarrow>
             if list_ex (\<lambda>region. regions_overlap base len (vr_base region) (vr_len region)) rs
             then Some (ERR, t)
             else do {
               (r, t1) \<leftarrow> task_grow_vm_regions_locked (of_nat (length rs) + 1) t;
               Some (if r \<noteq> OK then (ERR, t1)
                     else (OK, t1\<lparr>vm_regions := vm_regions t1 @ [new_region base len m offset]\<rparr>))
             })"

definition default_attrs :: "bool \<Rightarrow> u32 \<Rightarrow> vm_attrs" where
  "default_attrs writable kind =
     \<lparr>at_prot = writable_to_prot writable, at_flags = writable_to_flags kind, at_kind = kind,
      at_object_type = kind_to_object_type kind, at_object_id = 0\<rparr>"

definition task_add_vm_region :: "u64 \<Rightarrow> u64 \<Rightarrow> bool \<Rightarrow> u32 \<Rightarrow> vm_table \<Rightarrow> (status \<times> vm_table) option" where
  "task_add_vm_region base len writable kind =
     task_add_vm_mapping base len (default_attrs writable kind) 0"

text \<open>
  The loop of \<^verbatim>\<open>task_add_or_extend_vm_mapping\<close>: the first region that matches and
  touches the range, and whose union with it touches no other region, is extended.
\<close>

definition merged_base :: "task_vm_region \<Rightarrow> u64 \<Rightarrow> u64" where
  "merged_base region base = (if base < vr_base region then base else vr_base region)"

definition merged_end :: "task_vm_region \<Rightarrow> u64 \<Rightarrow> u64 \<Rightarrow> u64" where
  "merged_end region base len =
     (if base + len > region_end region then base + len else region_end region)"

definition extend_fits :: "task_vm_region list \<Rightarrow> u64 \<Rightarrow> u64 \<Rightarrow> vm_attrs \<Rightarrow> u64 \<Rightarrow> nat \<Rightarrow> bool" where
  "extend_fits rs base len m offset i =
     (let region = rs ! i; new_base = merged_base region base; new_end = merged_end region base len
      in vm_region_metadata_matches region m \<and>
         vm_region_prepend_offset_matches region base len m offset \<and>
         vr_base region \<le> base + len \<and> base \<le> region_end region \<and>
         \<not> (new_end < new_base \<or>
            task_vm_range_overlaps_other_locked rs i new_base (new_end - new_base)))"

definition extend_region :: "u64 \<Rightarrow> u64 \<Rightarrow> u64 \<Rightarrow> task_vm_region \<Rightarrow> task_vm_region" where
  "extend_region base len offset region =
     (let new_base = merged_base region base; new_len = merged_end region base len - new_base;
          region1 = (if new_base \<noteq> vr_base region
                     then region\<lparr>vr_base := new_base, vr_offset := offset\<rparr> else region)
      in region1\<lparr>vr_len := new_len\<rparr>)"

definition task_add_or_extend_vm_mapping ::
  "u64 \<Rightarrow> u64 \<Rightarrow> vm_attrs \<Rightarrow> u64 \<Rightarrow> vm_table \<Rightarrow> (status \<times> vm_table) option" where
  "task_add_or_extend_vm_mapping base len m offset t =
     (let rs = vm_regions t
      in if len = 0 \<or> base + len < base then Some (ERR, t)
         else case List.find (extend_fits rs base len m offset) [0..<length rs] of
           Some i \<Rightarrow> Some (OK, t\<lparr>vm_regions := rs[i := extend_region base len offset (rs ! i)]\<rparr>)
         | None \<Rightarrow> task_add_vm_mapping base len m offset t)"

definition task_add_or_extend_vm_region ::
  "u64 \<Rightarrow> u64 \<Rightarrow> bool \<Rightarrow> u32 \<Rightarrow> vm_table \<Rightarrow> (status \<times> vm_table) option" where
  "task_add_or_extend_vm_region base len writable kind =
     task_add_or_extend_vm_mapping base len (default_attrs writable kind) 0"


section \<open>Protecting\<close>

partial_function (option) covered_loop :: "task_vm_region list \<Rightarrow> u64 \<Rightarrow> u64 \<Rightarrow> bool option" where
  "covered_loop rs cursor limit =
     (if cursor < limit
      then case List.find (\<lambda>r. vr_base r \<le> cursor \<and> cursor < vr_base r + vr_len r) rs of
             None \<Rightarrow> Some False
           | Some r \<Rightarrow> covered_loop rs (if region_end r < limit then region_end r else limit) limit
      else Some True)"

definition task_vm_range_is_covered_locked :: "task_vm_region list \<Rightarrow> u64 \<Rightarrow> u64 \<Rightarrow> bool option" where
  "task_vm_range_is_covered_locked rs base len = covered_loop rs base (base + len)"

definition protect_one ::
  "u64 \<Rightarrow> u64 \<Rightarrow> u32 \<Rightarrow> nat \<Rightarrow> vm_table \<Rightarrow> (status \<times> vm_table) option" where
  "protect_one base len prot i t =
     (let limit = base + len;
          region = vm_regions t ! i;
          r_base = vr_base region;
          r_end = vr_base region + vr_len region;
          p_base = (if base > r_base then base else r_base);
          p_end = (if limit < r_end then limit else r_end);
          middle = region_set_prot prot (region\<lparr>vr_base := p_base, vr_len := p_end - p_base\<rparr>);
          put = (\<lambda>r. t\<lparr>vm_regions := (vm_regions t)[i := r]\<rparr>)
      in if \<not> regions_overlap base len r_base (vr_len region) then Some (OK, t)
         else if p_base = r_base \<and> p_end = r_end then Some (OK, put (region_set_prot prot region))
         else if p_base = r_base
         then task_append_vm_region_locked middle
                (put (region\<lparr>vr_base := p_end, vr_len := r_end - p_end\<rparr>))
         else if p_end = r_end
         then task_append_vm_region_locked middle (put (region\<lparr>vr_len := p_base - r_base\<rparr>))
         else do {
           (r1, t1) \<leftarrow> task_append_vm_region_locked middle (put (region\<lparr>vr_len := p_base - r_base\<rparr>));
           if r1 \<noteq> OK then Some (ERR, t1)
           else task_append_vm_region_locked
                  (region\<lparr>vr_base := p_end, vr_len := r_end - p_end\<rparr>) t1
         })"

partial_function (option) protect_loop ::
  "u64 \<Rightarrow> u64 \<Rightarrow> u32 \<Rightarrow> nat \<Rightarrow> vm_table \<Rightarrow> (status \<times> vm_table) option" where
  "protect_loop base len prot i t =
     (if i < length (vm_regions t)
      then do {
        (r, t1) \<leftarrow> protect_one base len prot i t;
        if r \<noteq> OK then Some (ERR, t1) else protect_loop base len prot (i + 1) t1
      }
      else Some (OK, t))"

definition task_protect_vm_region ::
  "u64 \<Rightarrow> u64 \<Rightarrow> u32 \<Rightarrow> vm_table \<Rightarrow> (status \<times> vm_table) option" where
  "task_protect_vm_region base len prot t =
     (if len = 0 \<or> base + len < base then Some (ERR, t)
      else do {
        covered \<leftarrow> task_vm_range_is_covered_locked (vm_regions t) base len;
        if \<not> covered then Some (ERR, t) else protect_loop base len prot 0 t
      })"


section \<open>Removing\<close>

text \<open>
  One round of the loop of \<^verbatim>\<open>task_remove_vm_region\<close>: the new index and table, or the
  error return when a split finds no memory.
\<close>

definition remove_one ::
  "u64 \<Rightarrow> u64 \<Rightarrow> nat \<Rightarrow> vm_table \<Rightarrow> (vm_table + nat \<times> vm_table) option" where
  "remove_one base len i t =
     (let limit = base + len;
          rs = vm_regions t;
          region = rs ! i;
          r_base = vr_base region;
          r_end = vr_base region + vr_len region;
          d_base = (if base > r_base then base else r_base);
          d_end = (if limit < r_end then limit else r_end)
      in if \<not> regions_overlap base len r_base (vr_len region) then Some (Inr (i + 1, t))
         else if d_base = r_base \<and> d_end = r_end
         then Some (Inr (i, t\<lparr>vm_regions := butlast (rs[i := last rs])\<rparr>))
         else if d_base = r_base
         then Some (Inr (i + 1, t\<lparr>vm_regions := rs[i := region\<lparr>vr_base := d_end, vr_len := r_end - d_end\<rparr>]\<rparr>))
         else if d_end = r_end
         then Some (Inr (i + 1, t\<lparr>vm_regions := rs[i := region\<lparr>vr_len := d_base - r_base\<rparr>]\<rparr>))
         else do {
           (r, t1) \<leftarrow> task_grow_vm_regions_locked (of_nat (length rs) + 1) t;
           Some (if r \<noteq> OK then Inl t1
                 else Inr (i + 1, t1\<lparr>vm_regions := (vm_regions t1)[i := region\<lparr>vr_len := d_base - r_base\<rparr>] @
                                       [region\<lparr>vr_base := d_end, vr_len := r_end - d_end\<rparr>]\<rparr>))
         })"

partial_function (option) remove_loop :: "u64 \<Rightarrow> u64 \<Rightarrow> nat \<Rightarrow> vm_table \<Rightarrow> (status \<times> vm_table) option" where
  "remove_loop base len i t =
     (if i < length (vm_regions t)
      then do {
        s \<leftarrow> remove_one base len i t;
        (case s of Inl t1 \<Rightarrow> Some (ERR, t1) | Inr (j, t1) \<Rightarrow> remove_loop base len j t1)
      }
      else Some (OK, t))"

definition task_remove_vm_region :: "u64 \<Rightarrow> u64 \<Rightarrow> vm_table \<Rightarrow> (status \<times> vm_table) option" where
  "task_remove_vm_region base len t =
     (if len = 0 \<or> base + len < base then Some (ERR, t) else remove_loop base len 0 t)"

definition task_clear_vm_regions :: "vm_table \<Rightarrow> vm_table" where
  "task_clear_vm_regions t = t\<lparr>vm_regions := []\<rparr>"

definition task_vm_region_count :: "vm_table \<Rightarrow> u64" where
  "task_vm_region_count t = of_nat (length (vm_regions t))"

definition task_vm_region_at :: "vm_table \<Rightarrow> u64 \<Rightarrow> task_vm_region option" where
  "task_vm_region_at t index =
     (if unat index \<ge> length (vm_regions t) then None else Some (vm_regions t ! unat index))"

text \<open>
  The loop of \<^verbatim>\<open>task_teardown\<close> that empties the table of a task that owns its address
  space: the ranges passed to \<^verbatim>\<open>vm_unmap_user_range\<close>, in order, are collected.
\<close>

partial_function (option) vm_teardown_loop ::
  "(u64 \<times> u64) list \<Rightarrow> vm_table \<Rightarrow> ((u64 \<times> u64) list \<times> vm_table) option" where
  "vm_teardown_loop unmapped t =
     (if task_vm_region_count t \<noteq> 0
      then case task_vm_region_at t 0 of
             None \<Rightarrow> Some (unmapped, t)
           | Some region \<Rightarrow>
               do {
                 (_, t1) \<leftarrow> task_remove_vm_region (vr_base region) (vr_len region) t;
                 vm_teardown_loop (unmapped @ [(vr_base region, vr_len region)]) t1
               }
      else Some (unmapped, t))"


section \<open>Faults\<close>

definition task_vm_fault_is_file_backed :: "u64 \<Rightarrow> vm_table \<Rightarrow> bool" where
  "task_vm_fault_is_file_backed addr t =
     (let page = align_down addr PAGE_SIZE
      in list_ex (\<lambda>region. page \<ge> vr_base region \<and> page < region_end region \<and>
            vr_object_type region = TASK_VM_OBJECT_FILE) (vm_regions t))"

definition cow_candidate :: "u64 \<Rightarrow> task_vm_region \<Rightarrow> bool" where
  "cow_candidate page region \<longleftrightarrow>
     page \<ge> vr_base region \<and> page < region_end region \<and>
     and (vr_prot region) TASK_VM_PROT_WRITE \<noteq> 0 \<and>
     and (vr_flags region) TASK_VM_MAP_PRIVATE \<noteq> 0 \<and>
     and (vr_flags region) TASK_VM_MAP_ANONYMOUS \<noteq> 0 \<and>
     vr_object_type region = TASK_VM_OBJECT_ANON"

text \<open>
  \<^verbatim>\<open>task_handle_cow_fault\<close> up to the call of \<^verbatim>\<open>vm_cow_user_page\<close>: the page and the
  executable flag it passes, or \<open>None\<close> for the error return.
\<close>

definition task_handle_cow_fault :: "u64 \<Rightarrow> bool \<Rightarrow> vm_table \<Rightarrow> (u64 \<times> bool) option" where
  "task_handle_cow_fault addr write_fault t =
     (let page = align_down addr PAGE_SIZE
      in if \<not> write_fault then None
         else case List.find (cow_candidate page) (vm_regions t) of
                None \<Rightarrow> None
              | Some region \<Rightarrow> Some (page, and (vr_prot region) TASK_VM_PROT_EXEC \<noteq> 0))"

text \<open>The loops are evaluated by their equations.\<close>

declare grow_capacity.simps [code] covered_loop.simps [code] protect_loop.simps [code]
  remove_loop.simps [code] vm_teardown_loop.simps [code]

end
