(* ===== verification/Vm_Regions_Proofs.thy ===== *)
theory Vm_Regions_Proofs
  imports Vm_Regions
begin

text \<open>
  The region table as a map from addresses to mappings: the invariant that regions are
  nonempty, do not wrap and do not overlap, and what adding, extending, protecting and
  removing a range do to the map.
\<close>

section \<open>Regions as intervals\<close>

definition in_region :: "u64 \<Rightarrow> task_vm_region \<Rightarrow> bool" where
  "in_region a r \<longleftrightarrow> vr_base r \<le> a \<and> a < region_end r"

definition attrs_of :: "task_vm_region \<Rightarrow> vm_attrs" where
  "attrs_of r = \<lparr>at_prot = vr_prot r, at_flags = vr_flags r, at_kind = vr_kind r,
     at_object_type = vr_object_type r, at_object_id = vr_object_id r\<rparr>"

definition region_ok :: "task_vm_region \<Rightarrow> bool" where
  "region_ok r \<longleftrightarrow> vr_base r < region_end r \<and>
     (vr_writable r \<longleftrightarrow> and (vr_prot r) TASK_VM_PROT_WRITE \<noteq> 0)"

definition apart :: "task_vm_region \<Rightarrow> task_vm_region \<Rightarrow> bool" where
  "apart r q \<longleftrightarrow> region_end r \<le> vr_base q \<or> region_end q \<le> vr_base r"

definition regions_ok :: "task_vm_region list \<Rightarrow> bool" where
  "regions_ok rs \<longleftrightarrow> (\<forall>r \<in> set rs. region_ok r) \<and> sorted_wrt apart rs"

definition region_view :: "task_vm_region list \<Rightarrow> u64 \<Rightarrow> vm_attrs option" where
  "region_view rs a = map_option attrs_of (List.find (in_region a) rs)"

definition in_range :: "u64 \<Rightarrow> u64 \<Rightarrow> u64 \<Rightarrow> bool" where
  "in_range base len a \<longleftrightarrow> base \<le> a \<and> a < base + len"

text \<open>Every table entry for an address: the relation behind \<open>region_view\<close>.\<close>

definition maps_to :: "task_vm_region list \<Rightarrow> u64 \<Rightarrow> vm_attrs \<Rightarrow> bool" where
  "maps_to rs a m \<longleftrightarrow> (\<exists>r \<in> set rs. in_region a r \<and> attrs_of r = m)"

named_theorems interval \<open>region fields and ends after an update\<close>

lemma region_end_upd [simp]:
  "region_end (r\<lparr>vr_base := b, vr_len := e - b\<rparr>) = e"
  "region_end (r\<lparr>vr_len := e - vr_base r\<rparr>) = e"
  "region_end (region_set_prot p r) = region_end r"
  "vr_base (region_set_prot p r) = vr_base r"
  by (simp_all add: region_end_def region_set_prot_def)

lemma attrs_of_upd [simp]:
  "attrs_of (r\<lparr>vr_base := b\<rparr>) = attrs_of r"
  "attrs_of (r\<lparr>vr_len := l\<rparr>) = attrs_of r"
  "attrs_of (r\<lparr>vr_offset := o'\<rparr>) = attrs_of r"
  "attrs_of (region_set_prot p r) = (attrs_of r)\<lparr>at_prot := p\<rparr>"
  by (simp_all add: attrs_of_def region_set_prot_def)

lemma writable_upd [simp]:
  "vr_writable (region_set_prot p r) \<longleftrightarrow> and (vr_prot (region_set_prot p r)) TASK_VM_PROT_WRITE \<noteq> 0"
  by (simp add: region_set_prot_def)

lemma regions_overlap_end:
  "regions_overlap base len (vr_base r) (vr_len r) \<longleftrightarrow> base < region_end r \<and> vr_base r < base + len"
  by (simp add: regions_overlap_def region_end_def)

lemma apart_sym: "apart r q \<Longrightarrow> apart q r"
  by (auto simp: apart_def)

lemma apart_disjoint: "apart r q \<Longrightarrow> in_region a r \<Longrightarrow> \<not> in_region a q"
  by (auto simp: apart_def in_region_def)

lemma in_region_base [simp]: "region_ok r \<Longrightarrow> in_region (vr_base r) r"
  by (simp add: region_ok_def in_region_def)

lemma disjoint_apart:
  assumes "region_ok r" and "region_ok q" and "\<And>a. in_region a r \<Longrightarrow> \<not> in_region a q"
  shows "apart r q"
proof (rule ccontr)
  assume "\<not> apart r q"
  then have "vr_base q < region_end r" "vr_base r < region_end q"
    by (auto simp: apart_def)
  then have "in_region (max (vr_base r) (vr_base q)) r" "in_region (max (vr_base r) (vr_base q)) q"
    using assms(1,2) by (auto simp: in_region_def region_ok_def max_def)
  with assms(3) show False by blast
qed

lemma regions_ok_append:
  "regions_ok (xs @ ys) \<longleftrightarrow> regions_ok xs \<and> regions_ok ys \<and> (\<forall>x \<in> set xs. \<forall>y \<in> set ys. apart x y)"
  by (auto simp: regions_ok_def sorted_wrt_append)

lemma regions_ok_Cons:
  "regions_ok (x # ys) \<longleftrightarrow> region_ok x \<and> regions_ok ys \<and> (\<forall>y \<in> set ys. apart x y)"
  by (auto simp: regions_ok_def)

lemma regions_ok_Nil [simp]: "regions_ok []"
  by (simp add: regions_ok_def)

lemma region_view_eq:
  assumes "regions_ok rs"
  shows "region_view rs a = Some m \<longleftrightarrow> maps_to rs a m"
  using assms
proof (induction rs)
  case (Cons r rs)
  then show ?case
    using apart_disjoint by (auto simp: region_view_def maps_to_def regions_ok_Cons)
qed (simp add: region_view_def maps_to_def)

lemma region_view_None: "region_view rs a = None \<longleftrightarrow> (\<forall>r \<in> set rs. \<not> in_region a r)"
  by (auto simp: region_view_def find_None_iff)

lemma region_view_eqI:
  assumes "regions_ok rs" and "\<And>m. maps_to rs a m \<longleftrightarrow> v = Some m"
  shows "region_view rs a = v"
  using region_view_eq [OF assms(1), of a] assms(2)
  by (metis not_None_eq)

lemma maps_to_append: "maps_to (xs @ ys) a m \<longleftrightarrow> maps_to xs a m \<or> maps_to ys a m"
  by (auto simp: maps_to_def)

lemma maps_to_Cons: "maps_to (x # ys) a m \<longleftrightarrow> in_region a x \<and> attrs_of x = m \<or> maps_to ys a m"
  by (auto simp: maps_to_def)

lemma maps_to_nth: "maps_to rs a m \<longleftrightarrow> (\<exists>j < length rs. in_region a (rs ! j) \<and> attrs_of (rs ! j) = m)"
  by (metis in_set_conv_nth maps_to_def)

lemma maps_to_Nil [simp]: "\<not> maps_to [] a m"
  by (simp add: maps_to_def)


section \<open>Carving a region\<close>

text \<open>
  \<open>carves f r ps\<close>: the pieces \<open>ps\<close> are well formed, and each address of \<open>r\<close> that
  \<open>f\<close> keeps lies in one of them, with the mapping \<open>f\<close> gives.
\<close>

definition carves :: "(u64 \<Rightarrow> vm_attrs \<Rightarrow> vm_attrs option) \<Rightarrow> task_vm_region \<Rightarrow> task_vm_region list \<Rightarrow> bool" where
  "carves f r ps \<longleftrightarrow> regions_ok ps \<and>
     (\<forall>a m. maps_to ps a m \<longleftrightarrow> in_region a r \<and> f a (attrs_of r) = Some m)"

lemma carves_inside: "carves f r ps \<Longrightarrow> p \<in> set ps \<Longrightarrow> in_region a p \<Longrightarrow> in_region a r"
  by (auto simp: carves_def maps_to_def)

lemma carves_apart:
  assumes "carves f r ps" and "p \<in> set ps" and "region_ok q" and "apart r q"
  shows "apart p q"
  using assms carves_inside [OF assms(1,2)] apart_disjoint
  by (intro disjoint_apart) (auto simp: carves_def regions_ok_def)

text \<open>Replacing a region by pieces keeps the table well formed, wherever the pieces go.\<close>

lemma replace_ok:
  assumes "regions_ok (d @ r # q)" and "carves f r (ps @ es)"
  shows "regions_ok (d @ ps @ q @ es)"
proof -
  have old: "regions_ok d" "regions_ok q" "\<forall>x \<in> set d. \<forall>y \<in> set q. apart x y"
    "\<forall>x \<in> set d \<union> set q. region_ok x \<and> apart r x"
    using assms(1) apart_sym
    by (auto simp: regions_ok_append regions_ok_Cons) (auto simp: regions_ok_def)
  have "apart p x \<and> apart x p" if "p \<in> set (ps @ es)" "x \<in> set d \<union> set q" for p x
    using carves_apart [OF assms(2) that(1)] old(4) that(2) apart_sym by blast
  moreover have "regions_ok (ps @ es)"
    using assms(2) by (simp add: carves_def)
  ultimately show ?thesis
    using old(1-3) by (auto simp: regions_ok_append)
qed

lemma carves_maps_to:
  "carves f r ps \<Longrightarrow> maps_to ps a m \<longleftrightarrow> in_region a r \<and> f a (attrs_of r) = Some m"
  by (simp add: carves_def)


section \<open>Growing the table\<close>

text \<open>Room in the array or memory to grow it; the table itself is never changed by growing.\<close>

definition table_ok :: "vm_table \<Rightarrow> bool" where
  "table_ok t \<longleftrightarrow> regions_ok (vm_regions t) \<and> length (vm_regions t) \<le> unat (vm_region_capacity t)"

text \<open>The allocator refused memory on the way from \<open>t\<close> to \<open>t'\<close>.\<close>

definition refused :: "vm_table \<Rightarrow> vm_table \<Rightarrow> bool" where
  "refused t t' \<longleftrightarrow> False \<in> set (vm_allocs t) \<or> vm_allocs t' = []"

lemma grow_capacity_ok:
  assumes "unat c < 2 ^ 31" and "unat m \<le> Suc (unat c)" and "0 < unat c"
  shows "\<exists>n. grow_capacity c m = Some n \<and> unat m \<le> unat n"
proof (cases "c < m")
  case True
  have two: "unat (c * 2) = unat c * 2"
    using assms(1) by (subst unat_mult_lem [THEN iffD1]) simp_all
  then have "\<not> c * 2 < m"
    using assms by (simp add: word_less_nat_alt)
  with True two assms show ?thesis
    using grow_capacity.simps [of c m] grow_capacity.simps [of "c * 2" m] by simp
next
  case False
  then show ?thesis
    by (subst grow_capacity.simps) (simp add: word_less_nat_alt)
qed

text \<open>
  What a step of the table operations may do besides changing the regions: \<open>grows t t'\<close>
  says that \<open>t'\<close> has room for its regions and has only used up answers of the allocator.
\<close>

definition grows :: "vm_table \<Rightarrow> vm_table \<Rightarrow> bool" where
  "grows t t' \<longleftrightarrow> length (vm_regions t') \<le> unat (vm_region_capacity t') \<and>
     set (vm_allocs t') \<subseteq> set (vm_allocs t)"

lemma grows_trans: "grows t u \<Longrightarrow> grows u v \<Longrightarrow> grows t v"
  by (auto simp: grows_def)

lemma refused_trans: "grows t u \<Longrightarrow> refused u v \<Longrightarrow> refused t v"
  by (auto simp: grows_def refused_def)

lemma unat_count: "length rs < 2 ^ 31 \<Longrightarrow> unat (of_nat (length rs) + 1 :: u32) = Suc (length rs)"
proof -
  assume "length rs < 2 ^ 31"
  then have "unat (of_nat (Suc (length rs)) :: u32) = Suc (length rs)"
    by (simp add: unat_of_nat del: of_nat_Suc)
  then show ?thesis by (simp add: add.commute)
qed

lemma grow_ok:
  assumes "length (vm_regions t) \<le> unat (vm_region_capacity t)" and "length (vm_regions t) < 2 ^ 31"
  obtains r t' where "task_grow_vm_regions_locked (of_nat (length (vm_regions t)) + 1) t = Some (r, t')"
    and "vm_regions t' = vm_regions t" and "grows t t'"
    and "r = OK \<Longrightarrow> length (vm_regions t) < unat (vm_region_capacity t')"
    and "r \<noteq> OK \<Longrightarrow> refused t t'"
proof (cases "of_nat (length (vm_regions t)) + 1 \<le> vm_region_capacity t")
  case True
  then show ?thesis
    using that [of OK t] assms unat_count [OF assms(2)]
    by (simp add: task_grow_vm_regions_locked_def grows_def word_le_nat_alt)
next
  case False
  let ?c = "if vm_region_capacity t = 0 then 32 else vm_region_capacity t"
  have "unat (vm_region_capacity t) < Suc (length (vm_regions t))"
    using False unat_count [OF assms(2)] by (simp add: word_le_nat_alt)
  then have "unat ?c < 2 ^ 31" "Suc (length (vm_regions t)) \<le> Suc (unat ?c)" "0 < unat ?c"
    using assms by (auto simp: unat_gt_0)
  then obtain n where n: "grow_capacity ?c (of_nat (length (vm_regions t)) + 1) = Some n"
    "Suc (length (vm_regions t)) \<le> unat n"
    using grow_capacity_ok [of ?c "of_nat (length (vm_regions t)) + 1"] unat_count [OF assms(2)] by auto
  show ?thesis
  proof (cases "vm_allocs t")
    case Nil
    then show ?thesis
      using that [of ERR t] n False assms
      by (simp add: task_grow_vm_regions_locked_def grows_def refused_def)
  next
    case (Cons b bs)
    then show ?thesis
      using that [of OK "t\<lparr>vm_region_capacity := n, vm_allocs := bs\<rparr>"]
        that [of ERR "t\<lparr>vm_allocs := bs\<rparr>"] n False assms
      by (cases b) (auto simp: task_grow_vm_regions_locked_def grows_def refused_def)
  qed
qed

lemma append_region_ok:
  assumes "length (vm_regions t) \<le> unat (vm_region_capacity t)" and "length (vm_regions t) < 2 ^ 31"
  obtains r t' where "task_append_vm_region_locked x t = Some (r, t')" and "grows t t'"
    and "r = OK \<Longrightarrow> vm_regions t' = vm_regions t @ [x]" and "r \<noteq> OK \<Longrightarrow> refused t t'"
proof -
  obtain r u where "task_grow_vm_regions_locked (of_nat (length (vm_regions t)) + 1) t = Some (r, u)"
    and "vm_regions u = vm_regions t" and "grows t u"
    and "r = OK \<Longrightarrow> length (vm_regions t) < unat (vm_region_capacity u)" and "r \<noteq> OK \<Longrightarrow> refused t u"
    using grow_ok [OF assms] by metis
  then show ?thesis
    using that [of r "if r = OK then u\<lparr>vm_regions := vm_regions u @ [x]\<rparr> else u"]
      that [of ERR u]
    by (cases r) (auto simp: task_append_vm_region_locked_def grows_def refused_def)
qed


section \<open>Adding a mapping\<close>

lemma overlaps_other:
  "task_vm_range_overlaps_other_locked rs i base len \<longleftrightarrow>
     (\<exists>j < length rs. j \<noteq> i \<and> base < region_end (rs ! j) \<and> vr_base (rs ! j) < base + len)"
  by (auto simp: task_vm_range_overlaps_other_locked_def list_ex_iff regions_overlap_end)

lemma not_overlaps_other:
  assumes "\<not> task_vm_range_overlaps_other_locked rs i base len" and "j < length rs" and "j \<noteq> i"
  shows "region_end (rs ! j) \<le> base \<or> base + len \<le> vr_base (rs ! j)"
  using assms unfolding overlaps_other by (meson not_le)

lemma regions_ok_nth:
  "regions_ok rs \<longleftrightarrow> (\<forall>i < length rs. region_ok (rs ! i)) \<and>
     (\<forall>i < length rs. \<forall>j < length rs. i \<noteq> j \<longrightarrow> apart (rs ! i) (rs ! j))"
proof -
  have "sorted_wrt apart rs \<longleftrightarrow>
      (\<forall>i < length rs. \<forall>j < length rs. i \<noteq> j \<longrightarrow> apart (rs ! i) (rs ! j))" (is "_ \<longleftrightarrow> ?all")
  proof
    assume srt: "sorted_wrt apart rs"
    show ?all
    proof (intro allI impI)
      fix i j
      assume "i < length rs" "j < length rs" "i \<noteq> j"
      then show "apart (rs ! i) (rs ! j)"
        using srt apart_sym by (cases "i < j") (auto simp: sorted_wrt_iff_nth_less)
    qed
  qed (auto simp: sorted_wrt_iff_nth_less)
  then show ?thesis
    by (simp add: regions_ok_def all_set_conv_all_nth)
qed

lemma set_update_iff:
  "i < length xs \<Longrightarrow> set (xs[i := y]) = insert y {xs ! j | j. j < length xs \<and> j \<noteq> i}"
  by (auto simp: set_conv_nth nth_list_update)

text \<open>Widening one region without touching another.\<close>

lemma widen_ok:
  assumes ok: "regions_ok rs" and i: "i < length rs" and r: "region_ok r"
    and other: "\<not> task_vm_range_overlaps_other_locked rs i (vr_base r) (region_end r - vr_base r)"
  shows "regions_ok (rs[i := r])"
    and "maps_to (rs[i := r]) a m \<longleftrightarrow>
      in_region a r \<and> attrs_of r = m \<or> (\<exists>j < length rs. j \<noteq> i \<and> in_region a (rs ! j) \<and> attrs_of (rs ! j) = m)"
proof -
  have "apart r (rs ! j)" if "j < length rs" "j \<noteq> i" for j
    using not_overlaps_other [OF other that] by (auto simp: apart_def)
  then show "regions_ok (rs[i := r])"
    using ok r i apart_sym by (auto simp: regions_ok_nth nth_list_update)
  show "maps_to (rs[i := r]) a m \<longleftrightarrow>
      in_region a r \<and> attrs_of r = m \<or> (\<exists>j < length rs. j \<noteq> i \<and> in_region a (rs ! j) \<and> attrs_of (rs ! j) = m)"
    using i unfolding maps_to_def set_update_iff [OF i] by auto
qed

lemma attrs_match: "vm_region_metadata_matches r m \<longleftrightarrow> attrs_of r = m"
  by (auto simp: vm_region_metadata_matches_def attrs_of_def)

lemma range_free_iff:
  "base < base + len \<Longrightarrow> task_vm_range_is_free base len t \<longleftrightarrow>
     (\<forall>r \<in> set (vm_regions t). region_end r \<le> base \<or> base + len \<le> vr_base r)"
  by (auto simp: task_vm_range_is_free_def list_ex_iff regions_overlap_end not_less)

lemma range_guard: "len = 0 \<or> base + len < base \<longleftrightarrow> \<not> base < base + (len :: u64)"
  by (cases "len = 0") (auto simp: not_less le_less)

lemma find_upt_Some: "List.find P [0..<n] = Some i \<Longrightarrow> i < n \<and> P i"
  by (auto simp: find_Some_iff)

text \<open>The mapping added to a table: what every successful branch establishes.\<close>

definition mapped :: "u64 \<Rightarrow> u64 \<Rightarrow> vm_attrs \<Rightarrow> task_vm_region list \<Rightarrow> task_vm_region list \<Rightarrow> bool" where
  "mapped base len m rs rs' \<longleftrightarrow> regions_ok rs' \<and>
     (\<forall>a. region_view rs' a = (if in_range base len a then Some m else region_view rs a))"

lemma mappedI:
  assumes ok: "regions_ok rs" and ok': "regions_ok rs'"
    and maps: "\<And>a n. maps_to rs' a n \<longleftrightarrow> (if in_range base len a then n = m else maps_to rs a n)"
  shows "mapped base len m rs rs'"
  unfolding mapped_def
proof (intro conjI allI ok')
  fix a
  show "region_view rs' a = (if in_range base len a then Some m else region_view rs a)"
    by (rule region_view_eqI [OF ok']) (auto simp: maps region_view_eq [OF ok])
qed

lemma append_fits_mapped:
  assumes ok: "regions_ok rs" and i: "i < length rs" and fits: "append_fits rs base len m offset i"
    and range: "base < base + len"
  shows "mapped base len m rs (rs[i := (rs ! i)\<lparr>vr_len := vr_len (rs ! i) + len\<rparr>])"
    and "\<forall>r \<in> set rs. region_end r \<le> base \<or> base + len \<le> vr_base r"
proof -
  let ?r = "rs ! i"
  define q where "q = ?r\<lparr>vr_len := vr_len ?r + len\<rparr>"
  have m: "attrs_of ?r = m" and e: "region_end ?r = base"
    and other: "\<not> task_vm_range_overlaps_other_locked rs i (vr_base ?r) (vr_len ?r + len)"
    using fits by (auto simp: append_fits_def Let_def attrs_match)
  have r: "region_ok ?r"
    using ok i by (simp add: regions_ok_def)
  have end_eq: "vr_base ?r + (vr_len ?r + len) = base + len"
    using e by (simp add: region_end_def add.assoc [symmetric])
  have qs: "vr_base q = vr_base ?r" "region_end q = base + len" "attrs_of q = m"
    "vr_len ?r + len = region_end q - vr_base q"
    using end_eq m by (simp_all add: q_def region_end_def)
  have rb: "vr_base ?r < base" and wr: "vr_writable ?r \<longleftrightarrow> and (vr_prot ?r) TASK_VM_PROT_WRITE \<noteq> 0"
    using r e by (simp_all add: region_ok_def)
  have q: "region_ok q"
    unfolding region_ok_def qs(1,2) using less_trans [OF rb range] wr by (simp add: q_def)
  have free: "region_end (rs ! j) \<le> base \<or> base + len \<le> vr_base (rs ! j)" if "j < length rs" for j
  proof (cases "j = i")
    case False
    then show ?thesis
      using not_overlaps_other [OF other that False] rb unfolding end_eq by force
  qed (simp add: e)
  then show "\<forall>r \<in> set rs. region_end r \<le> base \<or> base + len \<le> vr_base r"
    by (simp add: all_set_conv_all_nth)
  have inq: "in_region a q \<longleftrightarrow> in_region a ?r \<or> in_range base len a" for a
    using rb range unfolding in_region_def in_range_def qs(1,2) e by force
  have out: "\<not> in_region a (rs ! j)" if "in_range base len a" "j < length rs" for a j
    using free [OF that(2)] that(1) by (auto simp: in_region_def in_range_def)
  have oth: "\<not> task_vm_range_overlaps_other_locked rs i (vr_base q) (region_end q - vr_base q)"
    using other by (metis qs(1,4))
  note w = widen_ok [OF ok i q oth]
  show "mapped base len m rs (rs[i := ?r\<lparr>vr_len := vr_len ?r + len\<rparr>])"
    unfolding q_def [symmetric]
  proof (rule mappedI [OF ok w(1)])
    show "maps_to (rs[i := q]) a n \<longleftrightarrow> (if in_range base len a then n = m else maps_to rs a n)" for a n
      using w(2) [of a n] inq [of a] qs(3) maps_to_nth [of rs a n] m out [of a] i by auto
  qed
qed

lemma new_region_sel [simp]:
  "vr_base (new_region base len m offset) = base" "region_end (new_region base len m offset) = base + len"
  "attrs_of (new_region base len m offset) = m"
  "base < base + len \<Longrightarrow> region_ok (new_region base len m offset)"
  by (simp_all add: new_region_def region_end_def attrs_of_def region_ok_def)

lemma append_mapped:
  assumes ok: "regions_ok rs" and range: "base < base + len"
    and free: "\<forall>r \<in> set rs. region_end r \<le> base \<or> base + len \<le> vr_base r"
  shows "mapped base len m rs (rs @ [new_region base len m offset])"
proof (rule mappedI [OF ok])
  show "regions_ok (rs @ [new_region base len m offset])"
    using ok range free by (auto simp: regions_ok_append regions_ok_Cons apart_def)
  show "maps_to (rs @ [new_region base len m offset]) a n \<longleftrightarrow>
      (if in_range base len a then n = m else maps_to rs a n)" for a n
  proof -
    have "in_region a (new_region base len m offset) \<longleftrightarrow> in_range base len a"
      by (simp add: in_region_def in_range_def)
    moreover have "\<not> maps_to rs a n" if "in_range base len a"
      using free that by (auto simp: maps_to_def in_region_def in_range_def)
    ultimately show ?thesis
      by (auto simp: maps_to_append maps_to_Cons)
  qed
qed

text \<open>
  \<^verbatim>\<open>task_add_vm_mapping\<close>: it succeeds only on a free range, and then maps exactly the
  range; it fails only on a bad or occupied range or for want of memory, and then changes
  no region.
\<close>

lemma add_mapping_ok:
  assumes ok: "table_ok t" and len: "length (vm_regions t) < 2 ^ 31"
  shows "\<exists>r t'. task_add_vm_mapping base l m offset t = Some (r, t') \<and> grows t t' \<and>
    (r = OK \<longrightarrow> task_vm_range_is_free base l t \<and> mapped base l m (vm_regions t) (vm_regions t')) \<and>
    (r \<noteq> OK \<longrightarrow> vm_regions t' = vm_regions t \<and>
       (\<not> task_vm_range_is_free base l t \<or> refused t t'))"
proof (cases "base < base + l")
  case False
  then have "task_add_vm_mapping base l m offset t = Some (ERR, t)" "\<not> task_vm_range_is_free base l t"
    using range_guard [of l base] by (simp_all add: task_add_vm_mapping_def task_vm_range_is_free_def)
  then show ?thesis
    using ok by (simp add: table_ok_def grows_def)
next
  case range: True
  then have guard: "\<not> (l = 0 \<or> base + l < base)"
    by (simp add: range_guard)
  let ?rs = "vm_regions t"
  have rok: "regions_ok ?rs" and cap: "length ?rs \<le> unat (vm_region_capacity t)"
    using ok by (simp_all add: table_ok_def)
  show ?thesis
  proof (cases "List.find (append_fits ?rs base l m offset) [0..<length ?rs]")
    case (Some i)
    then have i: "i < length ?rs" "append_fits ?rs base l m offset i"
      using find_upt_Some by blast+
    have "task_vm_range_is_free base l t"
      using append_fits_mapped(2) [OF rok i range] by (simp add: range_free_iff [OF range])
    then show ?thesis
      using append_fits_mapped(1) [OF rok i range] Some guard cap
      by (simp add: task_add_vm_mapping_def grows_def Let_def)
  next
    case None
    show ?thesis
    proof (cases "task_vm_range_is_free base l t")
      case False
      then have "list_ex (\<lambda>r. regions_overlap base l (vr_base r) (vr_len r)) ?rs"
        using guard by (simp add: task_vm_range_is_free_def)
      with None guard cap False show ?thesis
        by (simp add: task_add_vm_mapping_def grows_def Let_def)
    next
      case True
      then have free: "\<not> list_ex (\<lambda>r. regions_overlap base l (vr_base r) (vr_len r)) ?rs"
        "\<forall>r \<in> set ?rs. region_end r \<le> base \<or> base + l \<le> vr_base r"
        using guard range_free_iff [OF range] by (simp_all add: task_vm_range_is_free_def)
      obtain r u where g: "task_grow_vm_regions_locked (of_nat (length ?rs) + 1) t = Some (r, u)"
        "vm_regions u = ?rs" "grows t u" "r = OK \<Longrightarrow> length ?rs < unat (vm_region_capacity u)"
        "r \<noteq> OK \<Longrightarrow> refused t u"
        using grow_ok [OF cap len] by metis
      have "mapped base l m ?rs (?rs @ [new_region base l m offset])"
        by (rule append_mapped [OF rok range free(2)])
      with None guard free(1) True g show ?thesis
        by (cases "r = OK") (auto simp: task_add_vm_mapping_def grows_def refused_def Let_def)
    qed
  qed
qed


section \<open>Extending a region\<close>

lemma extend_fits_mapped:
  assumes ok: "regions_ok rs" and i: "i < length rs" and fits: "extend_fits rs base len m offset i"
    and range: "base < base + len"
  shows "mapped base len m rs (rs[i := extend_region base len offset (rs ! i)])"
proof -
  let ?r = "rs ! i" and ?e = "base + len"
  define q where "q = extend_region base len offset ?r"
  define b where "b = min base (vr_base ?r)"
  define e where "e = max ?e (region_end ?r)"
  have be: "merged_base ?r base = b" "merged_end ?r base len = e"
    by (auto simp: merged_base_def merged_end_def b_def e_def min_def max_def)
  have m: "attrs_of ?r = m" and touch: "vr_base ?r \<le> ?e" "base \<le> region_end ?r"
    and other: "\<not> task_vm_range_overlaps_other_locked rs i b (e - b)"
    using fits by (auto simp: extend_fits_def Let_def attrs_match be)
  have r: "vr_base ?r < region_end ?r" "vr_writable ?r \<longleftrightarrow> and (vr_prot ?r) TASK_VM_PROT_WRITE \<noteq> 0"
    using ok i by (auto simp: regions_ok_def region_ok_def)
  have qs: "vr_base q = b" "region_end q = e" "attrs_of q = m"
    "vr_writable q \<longleftrightarrow> vr_writable ?r" "vr_prot q = vr_prot ?r"
    using m by (simp_all add: q_def extend_region_def be Let_def region_end_def)
  have q: "region_ok q"
    unfolding region_ok_def qs b_def e_def using r range by (simp add: min_less_iff_disj less_max_iff_disj)
  have inq: "in_region a q \<longleftrightarrow> in_region a ?r \<or> in_range base len a" for a
    using r range touch unfolding in_region_def in_range_def qs b_def e_def
    by (auto simp: min_le_iff_disj less_max_iff_disj)
  have oth: "\<not> task_vm_range_overlaps_other_locked rs i (vr_base q) (region_end q - vr_base q)"
    using other by (simp add: qs)
  note w = widen_ok [OF ok i q oth]
  have out: "\<not> in_region a (rs ! j)" if "in_range base len a" "j < length rs" "j \<noteq> i" for a j
    using not_overlaps_other [OF oth that(2,3)] inq [of a] that(1)
    by (auto simp: in_region_def)
  show "mapped base len m rs (rs[i := extend_region base len offset ?r])"
    unfolding q_def [symmetric]
  proof (rule mappedI [OF ok w(1)])
    show "maps_to (rs[i := q]) a n \<longleftrightarrow> (if in_range base len a then n = m else maps_to rs a n)" for a n
      using w(2) [of a n] inq [of a] qs(3) maps_to_nth [of rs a n] m out [of a] i by auto
  qed
qed

lemma extend_mapping_ok:
  assumes ok: "table_ok t" and len: "length (vm_regions t) < 2 ^ 31"
  shows "\<exists>r t'. task_add_or_extend_vm_mapping base l m offset t = Some (r, t') \<and> grows t t' \<and>
    (r = OK \<longrightarrow> mapped base l m (vm_regions t) (vm_regions t')) \<and>
    (r \<noteq> OK \<longrightarrow> vm_regions t' = vm_regions t \<and>
       (\<not> task_vm_range_is_free base l t \<or> refused t t'))"
proof (cases "base < base + l")
  case False
  then have "task_add_or_extend_vm_mapping base l m offset t = Some (ERR, t)"
    "\<not> task_vm_range_is_free base l t"
    using range_guard [of l base]
    by (simp_all add: task_add_or_extend_vm_mapping_def task_vm_range_is_free_def Let_def)
  then show ?thesis
    using ok by (simp add: table_ok_def grows_def)
next
  case range: True
  then have guard: "\<not> (l = 0 \<or> base + l < base)"
    by (simp add: range_guard)
  let ?rs = "vm_regions t"
  show ?thesis
  proof (cases "List.find (extend_fits ?rs base l m offset) [0..<length ?rs]")
    case (Some i)
    then have i: "i < length ?rs" "extend_fits ?rs base l m offset i"
      using find_upt_Some by blast+
    then show ?thesis
      using extend_fits_mapped [OF _ i range] ok Some guard
      by (simp add: task_add_or_extend_vm_mapping_def grows_def table_ok_def Let_def)
  next
    case None
    then show ?thesis
      using add_mapping_ok [OF assms, of base l m offset] guard
      by (auto simp: task_add_or_extend_vm_mapping_def Let_def)
  qed
qed

end
