(* ===== verification/Vm_Regions_Spec.thy ===== *)
theory Vm_Regions_Spec
  imports Vm_Regions_Proofs
begin

text \<open>
  Protecting and removing ranges of the region table: each round of the loops replaces one
  region by the pieces the range cuts it into, the loops end, and the table as a map is
  changed exactly on the range. The properties of the table are at the end.
\<close>

section \<open>Protecting: the pieces of one region\<close>

text \<open>A region the range \<open>[base, limit)\<close> does not cut: outside of it or inside.\<close>

definition uncut :: "u64 \<Rightarrow> u64 \<Rightarrow> task_vm_region \<Rightarrow> bool" where
  "uncut base limit r \<longleftrightarrow> region_end r \<le> base \<or> limit \<le> vr_base r \<or>
     (base \<le> vr_base r \<and> region_end r \<le> limit)"



lemma region_ok_piece:
  assumes "region_ok r"
  shows "b < e \<Longrightarrow> region_ok (r\<lparr>vr_base := b, vr_len := e - b\<rparr>)"
    and "vr_base r < e \<Longrightarrow> region_ok (r\<lparr>vr_len := e - vr_base r\<rparr>)"
    and "region_ok (region_set_prot p r)"
  using assms by (simp_all add: region_ok_def del: writable_upd) (simp_all add: region_set_prot_def)

lemma in_region_piece:
  "in_region a (r\<lparr>vr_base := b, vr_len := e - b\<rparr>) \<longleftrightarrow> b \<le> a \<and> a < e"
  "in_region a (r\<lparr>vr_len := e - vr_base r\<rparr>) \<longleftrightarrow> vr_base r \<le> a \<and> a < e"
  "in_region a (region_set_prot p r) \<longleftrightarrow> in_region a r"
  by (simp_all add: in_region_def)



section \<open>Protecting: the loop\<close>




text \<open>
  The loop works through a queue: the regions before \<open>i\<close> are finished, and the pieces cut
  off go to the end, where a later round finds them uncut. A region to be cut weighs 3,
  any other 1.
\<close>

definition cut_weight :: "u64 \<Rightarrow> u64 \<Rightarrow> task_vm_region list \<Rightarrow> nat" where
  "cut_weight base limit rs = (\<Sum>r \<leftarrow> rs. if uncut base limit r then 1 else 3)"

lemma cut_weight_simps [simp]:
  "cut_weight base limit [] = 0"
  "cut_weight base limit (r # rs) = (if uncut base limit r then 1 else 3) + cut_weight base limit rs"
  "cut_weight base limit (rs @ qs) = cut_weight base limit rs + cut_weight base limit qs"
  by (simp_all add: cut_weight_def)

lemma cut_weight_uncut: "\<forall>r \<in> set rs. uncut base limit r \<Longrightarrow> cut_weight base limit rs = length rs"
  by (induction rs) auto

lemma length_le_cut_weight: "length rs \<le> cut_weight base limit rs"
  by (induction rs) auto

lemma cut_weight_bound: "cut_weight base limit rs \<le> 3 * length rs"
  by (induction rs) auto




section \<open>The coverage check\<close>



section \<open>Removing: the pieces of one region\<close>

definition carved_off :: "u64 \<Rightarrow> u64 \<Rightarrow> u64 \<Rightarrow> vm_attrs \<Rightarrow> vm_attrs option" where
  "carved_off base limit a m = (if base \<le> a \<and> a < limit then None else Some m)"

definition remove_pieces :: "u64 \<Rightarrow> u64 \<Rightarrow> task_vm_region \<Rightarrow> task_vm_region list" where
  "remove_pieces base limit r =
     (let left = r\<lparr>vr_len := base - vr_base r\<rparr>;
          right = r\<lparr>vr_base := limit, vr_len := region_end r - limit\<rparr>
      in if region_end r \<le> base \<or> limit \<le> vr_base r then [r]
         else (if vr_base r < base then [left] else []) @ (if limit < region_end r then [right] else []))"

lemma remove_pieces_ok:
  assumes r: "region_ok r" and range: "base < limit"
  shows "carves (carved_off base limit) r (remove_pieces base limit r)"
    and "\<forall>q \<in> set (remove_pieces base limit r). uncut base limit q"
proof -
  have lt: "vr_base r < region_end r"
    using r by (simp add: region_ok_def)
  show "carves (carved_off base limit) r (remove_pieces base limit r)"
  proof (cases "region_end r \<le> base \<or> limit \<le> vr_base r")
    case True
    then show ?thesis
      using r by (auto simp: remove_pieces_def carves_def maps_to_Cons regions_ok_Cons carved_off_def in_region_def)
  next
    case False
    then show ?thesis
      using lt range region_ok_piece [OF r]
      by (auto simp: remove_pieces_def Let_def carves_def maps_to_Cons regions_ok_Cons carved_off_def
          apart_def in_region_piece in_region_def)
  qed
  show "\<forall>q \<in> set (remove_pieces base limit r). uncut base limit q"
    using lt range by (auto simp: remove_pieces_def Let_def uncut_def)
qed


section \<open>Removing: the loop\<close>

text \<open>The last region of the table takes the place of a removed one.\<close>

definition move_last :: "'a list \<Rightarrow> 'a list" where
  "move_last q = (if q = [] then [] else last q # butlast q)"

lemma butlast_update_mid: "butlast ((d @ r # q)[length d := last (d @ r # q)]) = d @ move_last q"
  by (cases q rule: rev_cases) (simp_all add: move_last_def butlast_append)

lemma set_move_last [simp]: "set (move_last q) = set q"
  by (cases q rule: rev_cases) (auto simp: move_last_def)

lemma maps_to_move_last [simp]: "maps_to (move_last q) a m \<longleftrightarrow> maps_to q a m"
  by (simp add: maps_to_def)

lemma length_move_last [simp]: "length (move_last q) = length q"
  by (simp add: move_last_def)

lemma regions_ok_move_last: "regions_ok (d @ q) \<Longrightarrow> regions_ok (d @ move_last q)"
  by (cases q rule: rev_cases)
    (auto simp: move_last_def regions_ok_append regions_ok_Cons intro: apart_sym)

lemma cut_weight_move_last [simp]: "cut_weight base limit (move_last q) = cut_weight base limit q"
  by (cases q rule: rev_cases) (simp_all add: move_last_def)

lemma remove_one_ok:
  assumes rs: "vm_regions t = d @ r # q" and cap: "length (vm_regions t) \<le> unat (vm_region_capacity t)"
    and len: "length (vm_regions t) < 2 ^ 31" and r: "region_ok r" and range: "base < base + l"
  shows "\<exists>u. (remove_one base l (length d) t = Some (Inl u) \<and> grows t u \<and> refused t u) \<or>
    (\<exists>d' q'. remove_one base l (length d) t = Some (Inr (length d', u)) \<and> grows t u \<and>
       vm_regions u = d' @ q' \<and>
       (remove_pieces base (base + l) r = [] \<and> d' = d \<and> q' = move_last q \<or>
        (\<exists>p es. remove_pieces base (base + l) r = p # es \<and> d' = d @ [p] \<and> q' = q @ es)))"
proof -
  let ?limit = "base + l"
  have lt: "vr_base r < region_end r"
    using r by (simp add: region_ok_def)
  have region: "vm_regions t ! length d = r"
    by (simp add: rs)
  have end_r: "vr_base r + vr_len r = region_end r"
    by (simp add: region_end_def)
  note one = remove_one_def [of base l "length d" t, unfolded Let_def region regions_overlap_end end_r]
  consider (out) "region_end r \<le> base \<or> ?limit \<le> vr_base r"
    | (all) "base \<le> vr_base r" "region_end r \<le> ?limit"
    | (tail) "base \<le> vr_base r" "vr_base r < ?limit" "?limit < region_end r"
    | (front) "vr_base r < base" "base < region_end r" "region_end r \<le> ?limit"
    | (mid) "vr_base r < base" "?limit < region_end r"
    by fastforce
  then show ?thesis
  proof cases
    case out
    then have "remove_one base l (length d) t = Some (Inr (length (d @ [r]), t))"
      "remove_pieces base ?limit r = [r]"
      using one by (auto simp: remove_pieces_def)
    then show ?thesis
      using rs cap by (fastforce simp: grows_def)
  next
    case all
    let ?u = "t\<lparr>vm_regions := d @ move_last q\<rparr>"
    have "remove_one base l (length d) t = Some (Inr (length d, ?u))"
      using one all lt range butlast_update_mid [of d r q] by (auto simp: rs)
    moreover have "remove_pieces base ?limit r = []"
      using all lt range by (auto simp: remove_pieces_def)
    moreover have "grows t ?u"
      using cap rs by (simp add: grows_def)
    ultimately show ?thesis by force
  next
    case tail
    let ?p = "r\<lparr>vr_base := ?limit, vr_len := region_end r - ?limit\<rparr>"
    let ?u = "t\<lparr>vm_regions := (d @ [?p]) @ q\<rparr>"
    have "remove_one base l (length d) t = Some (Inr (length (d @ [?p]), ?u))"
      using one tail lt range by (auto simp: rs)
    moreover have "remove_pieces base ?limit r = [?p]"
      using tail lt range by (auto simp: remove_pieces_def)
    moreover have "grows t ?u"
      using cap rs by (simp add: grows_def)
    ultimately show ?thesis by force
  next
    case front
    let ?p = "r\<lparr>vr_len := base - vr_base r\<rparr>"
    let ?u = "t\<lparr>vm_regions := (d @ [?p]) @ q\<rparr>"
    have "remove_one base l (length d) t = Some (Inr (length (d @ [?p]), ?u))"
      using one front lt range by (auto simp: rs)
    moreover have "remove_pieces base ?limit r = [?p]"
      using front lt range by (auto simp: remove_pieces_def)
    moreover have "grows t ?u"
      using cap rs by (simp add: grows_def)
    ultimately show ?thesis by force
  next
    case mid
    let ?p = "r\<lparr>vr_len := base - vr_base r\<rparr>"
    let ?e = "r\<lparr>vr_base := ?limit, vr_len := region_end r - ?limit\<rparr>"
    obtain s u where g: "task_grow_vm_regions_locked (of_nat (length (vm_regions t)) + 1) t = Some (s, u)"
      "vm_regions u = vm_regions t" "grows t u"
      "s = OK \<Longrightarrow> length (vm_regions t) < unat (vm_region_capacity u)" "s \<noteq> OK \<Longrightarrow> refused t u"
      using grow_ok [OF cap len] by metis
    let ?u = "u\<lparr>vm_regions := (d @ [?p]) @ (q @ [?e])\<rparr>"
    have "remove_one base l (length d) t =
        Some (if s \<noteq> OK then Inl u else Inr (length (d @ [?p]), ?u))"
      using one mid lt range g(1,2) by (auto simp: rs)
    moreover have "remove_pieces base ?limit r = [?p, ?e]"
      using mid lt range by (auto simp: remove_pieces_def)
    moreover have "grows t ?u" if "s = OK"
      using g(3) g(4) [OF that] rs by (simp add: grows_def)
    ultimately show ?thesis
      using g(3,5) by (cases "s = OK") force+
  qed
qed

text \<open>What a round does to the finished and the unfinished part of the table.\<close>

lemma remove_round:
  assumes ok: "regions_ok (d @ r # q)" and range: "base < base + l"
    and step: "remove_pieces base (base + l) r = [] \<and> d' = d \<and> q' = move_last q \<or>
      (\<exists>p es. remove_pieces base (base + l) r = p # es \<and> d' = d @ [p] \<and> q' = q @ es)"
  shows "regions_ok (d' @ q')"
    and "cut_weight base (base + l) q' < cut_weight base (base + l) (r # q)"
    and "length d' + cut_weight base (base + l) q' \<le> length d + cut_weight base (base + l) (r # q)"
    and "maps_to d' a m \<or> maps_to q' a m \<and> \<not> in_range base l a \<longleftrightarrow>
         maps_to d a m \<or> maps_to (r # q) a m \<and> \<not> in_range base l a"
proof -
  let ?ps = "remove_pieces base (base + l) r"
  have r: "region_ok r"
    using ok by (simp add: regions_ok_append regions_ok_Cons)
  note pieces = remove_pieces_ok [OF r range]
  have kept: "carved_off base (base + l) a n = Some m \<longleftrightarrow> n = m \<and> \<not> in_range base l a" for a n m
    by (auto simp: carved_off_def in_range_def)
  have maps: "maps_to ?ps a m \<longleftrightarrow> in_region a r \<and> attrs_of r = m \<and> \<not> in_range base l a" for a m
    using carves_maps_to [OF pieces(1)] by (simp add: kept)
  have "regions_ok (d' @ q') \<and> cut_weight base (base + l) q' < cut_weight base (base + l) (r # q) \<and>
    length d' + cut_weight base (base + l) q' \<le> length d + cut_weight base (base + l) (r # q) \<and>
    (maps_to d' a m \<or> maps_to q' a m \<and> \<not> in_range base l a \<longleftrightarrow>
     maps_to d a m \<or> maps_to (r # q) a m \<and> \<not> in_range base l a)"
    using step
  proof (elim disjE exE conjE)
    assume e: "?ps = []" "d' = d" "q' = move_last q"
    have "regions_ok (d @ q)"
      using ok by (auto simp: regions_ok_append regions_ok_Cons)
    then show ?thesis
      using maps [of a m] regions_ok_move_last e by (auto simp: maps_to_Cons)
  next
    fix p es
    assume e: "?ps = p # es" "d' = d @ [p]" "q' = q @ es"
    have "uncut base (base + l) r \<Longrightarrow> es = []" "length es \<le> 1"
      using e(1) by (auto simp: remove_pieces_def uncut_def Let_def split: if_splits)
    moreover have "cut_weight base (base + l) es = length es"
      using pieces(2) e(1) by (intro cut_weight_uncut) auto
    moreover have "regions_ok (d @ [p] @ q @ es)"
      using replace_ok [of d r q _ "[p]" es] ok pieces(1) e(1) by simp
    moreover have "maps_to [p] a m \<or> maps_to es a m \<longleftrightarrow>
        in_region a r \<and> attrs_of r = m \<and> \<not> in_range base l a"
      using maps [of a m] e(1) by (simp add: maps_to_Cons)
    ultimately show ?thesis
      using e by (auto simp: maps_to_append maps_to_Cons)
  qed
  then show "regions_ok (d' @ q')"
    and "cut_weight base (base + l) q' < cut_weight base (base + l) (r # q)"
    and "length d' + cut_weight base (base + l) q' \<le> length d + cut_weight base (base + l) (r # q)"
    and "maps_to d' a m \<or> maps_to q' a m \<and> \<not> in_range base l a \<longleftrightarrow>
         maps_to d a m \<or> maps_to (r # q) a m \<and> \<not> in_range base l a"
    by blast+
qed

lemma remove_loop_ok:
  assumes "vm_regions t = d @ q" and "regions_ok (d @ q)"
    and "length (vm_regions t) \<le> unat (vm_region_capacity t)"
    and "length d + cut_weight base (base + l) q < 2 ^ 31" and "base < base + l"
  shows "\<exists>s t'. remove_loop base l (length d) t = Some (s, t') \<and> grows t t' \<and>
    (s = OK \<longrightarrow> regions_ok (vm_regions t') \<and>
       (\<forall>a m. maps_to (vm_regions t') a m \<longleftrightarrow>
          maps_to d a m \<or> (maps_to q a m \<and> \<not> in_range base l a))) \<and>
    (s \<noteq> OK \<longrightarrow> refused t t')"
  using assms
proof (induction "cut_weight base (base + l) q" arbitrary: d q t rule: less_induct)
  case less
  show ?case
  proof (cases q)
    case Nil
    then show ?thesis
      using less.prems by (subst remove_loop.simps) (simp add: grows_def)
  next
    case (Cons r q0)
    have rs: "vm_regions t = d @ r # q0"
      using less.prems Cons by simp
    have ok: "regions_ok (d @ r # q0)"
      using less.prems(2) Cons by simp
    then have r: "region_ok r"
      by (simp add: regions_ok_append regions_ok_Cons)
    have len: "length (vm_regions t) < 2 ^ 31"
      using less.prems(1,4) length_le_cut_weight [of q base "base + l"] by simp
    have lt: "length d < length (vm_regions t)"
      by (simp add: rs)
    from remove_one_ok [OF rs less.prems(3) len r less.prems(5)] obtain u where
      "(remove_one base l (length d) t = Some (Inl u) \<and> grows t u \<and> refused t u) \<or>
       (\<exists>d' q'. remove_one base l (length d) t = Some (Inr (length d', u)) \<and> grows t u \<and>
       vm_regions u = d' @ q' \<and>
       (remove_pieces base (base + l) r = [] \<and> d' = d \<and> q' = move_last q0 \<or>
        (\<exists>p es. remove_pieces base (base + l) r = p # es \<and> d' = d @ [p] \<and> q' = q0 @ es)))"
      by blast
    then consider (err) "remove_one base l (length d) t = Some (Inl u)" "grows t u" "refused t u"
      | (go) d' q' where "remove_one base l (length d) t = Some (Inr (length d', u))" "grows t u"
        "vm_regions u = d' @ q'"
        "remove_pieces base (base + l) r = [] \<and> d' = d \<and> q' = move_last q0 \<or>
          (\<exists>p es. remove_pieces base (base + l) r = p # es \<and> d' = d @ [p] \<and> q' = q0 @ es)"
      by blast
    then show ?thesis
    proof cases
      case err
      then show ?thesis
        using lt by (subst remove_loop.simps) simp
    next
      case (go d' q')
      note one = go(1-3) and step = go(4)
      note round = remove_round [OF ok less.prems(5) step]
      have loop: "remove_loop base l (length d) t = remove_loop base l (length d') u"
        using lt one(1) by (subst remove_loop.simps) simp
      have "\<exists>s t'. remove_loop base l (length d') u = Some (s, t') \<and> grows u t' \<and>
        (s = OK \<longrightarrow> regions_ok (vm_regions t') \<and> (\<forall>a m. maps_to (vm_regions t') a m \<longleftrightarrow>
           maps_to d' a m \<or> (maps_to q' a m \<and> \<not> in_range base l a))) \<and> (s \<noteq> OK \<longrightarrow> refused u t')"
        using round(1-3) one less.prems(4,5) Cons
        by (intro less.hyps) (auto simp: grows_def)
      then show ?thesis
        unfolding loop round(4) Cons using grows_trans [OF one(2)] refused_trans [OF one(2)] by blast
    qed
  qed
qed


section \<open>Tearing the table down\<close>

lemma remove_loop_outside:
  assumes "\<forall>r \<in> set (drop i (vm_regions t)). region_end r \<le> base \<or> base + l \<le> vr_base r"
  shows "remove_loop base l i t = Some (OK, t)"
  using assms
proof (induction "length (vm_regions t) - i" arbitrary: i)
  case 0
  then show ?case by (subst remove_loop.simps) simp
next
  case (Suc n)
  then have i: "i < length (vm_regions t)" by simp
  let ?r = "vm_regions t ! i"
  have "region_end ?r \<le> base \<or> base + l \<le> vr_base ?r"
    using Suc.prems i by (metis in_set_conv_nth drop_eq_Nil2 hd_drop_conv_nth list.set_sel(1) not_le)
  then have "remove_one base l i t = Some (Inr (i + 1, t))"
    by (auto simp: remove_one_def Let_def regions_overlap_end)
  moreover have "\<forall>r \<in> set (drop (i + 1) (vm_regions t)). region_end r \<le> base \<or> base + l \<le> vr_base r"
    using Suc.prems set_drop_subset_set_drop [of i "i + 1" "vm_regions t"] by auto
  then have "remove_loop base l (i + 1) t = Some (OK, t)"
    using Suc.hyps by (intro Suc.hyps(1)) auto
  ultimately show ?case
    using i by (subst remove_loop.simps) simp
qed

lemma remove_own_range:
  assumes rs: "vm_regions t = r # q" and ok: "regions_ok (r # q)"
  shows "task_remove_vm_region (vr_base r) (vr_len r) t = Some (OK, t\<lparr>vm_regions := move_last q\<rparr>)"
proof -
  have lt: "vr_base r < vr_base r + vr_len r"
    using ok by (simp add: regions_ok_Cons region_ok_def region_end_def)
  have out: "\<forall>x \<in> set q. region_end x \<le> vr_base r \<or> vr_base r + vr_len r \<le> vr_base x"
    using ok by (auto simp: regions_ok_Cons apart_def region_end_def)
  have "remove_one (vr_base r) (vr_len r) 0 t = Some (Inr (0, t\<lparr>vm_regions := move_last q\<rparr>))"
    using lt butlast_update_mid [of "[]" r q]
    by (simp add: remove_one_def Let_def rs regions_overlap_def)
  moreover have "remove_loop (vr_base r) (vr_len r) 0 (t\<lparr>vm_regions := move_last q\<rparr>) =
      Some (OK, t\<lparr>vm_regions := move_last q\<rparr>)"
    using out by (intro remove_loop_outside) simp
  ultimately have "remove_loop (vr_base r) (vr_len r) 0 t = Some (OK, t\<lparr>vm_regions := move_last q\<rparr>)"
    using rs by (subst remove_loop.simps) simp
  moreover have "\<not> (vr_len r = 0 \<or> vr_base r + vr_len r < vr_base r)"
    unfolding range_guard using lt by simp
  ultimately show ?thesis
    by (simp add: task_remove_vm_region_def)
qed

lemma unat_region_count: "length (vm_regions t) < 2 ^ 31 \<Longrightarrow> task_vm_region_count t = 0 \<longleftrightarrow> vm_regions t = []"
  by (simp add: task_vm_region_count_def of_nat_eq_0_iff word_of_nat_eq_0_iff) (auto dest: nat_dvd_not_less)

lemma teardown_ok:
  assumes "regions_ok (vm_regions t)" and "length (vm_regions t) < 2 ^ 31"
  shows "\<exists>us t'. vm_teardown_loop before t = Some (before @ us, t') \<and> vm_regions t' = [] \<and>
    length us = length (vm_regions t) \<and>
    set us = (\<lambda>r. (vr_base r, vr_len r)) ` set (vm_regions t)"
  using assms
proof (induction "length (vm_regions t)" arbitrary: before t)
  case 0
  then show ?case
    by (subst vm_teardown_loop.simps) (simp add: unat_region_count)
next
  case (Suc n)
  then obtain r q where rs: "vm_regions t = r # q"
    by (cases "vm_regions t") auto
  let ?t = "t\<lparr>vm_regions := move_last q\<rparr>"
  let ?b = "before @ [(vr_base r, vr_len r)]"
  have step: "vm_teardown_loop before t = vm_teardown_loop ?b ?t"
    using remove_own_range [OF rs] Suc.prems rs unat_region_count [OF Suc.prems(2)]
    by (subst vm_teardown_loop.simps) (simp add: task_vm_region_at_def)
  have "regions_ok (vm_regions ?t)"
    using regions_ok_move_last [of "[]" q] Suc.prems(1) rs by (simp add: regions_ok_Cons)
  with Suc.hyps(1) [of ?t ?b] Suc.hyps(2) Suc.prems(2) rs obtain us t' where
    "vm_teardown_loop ?b ?t = Some (?b @ us, t')" "vm_regions t' = []" "length us = length q"
    "set us = (\<lambda>r. (vr_base r, vr_len r)) ` set q"
    by auto
  then show ?case
    unfolding step rs by (intro exI [of _ "(vr_base r, vr_len r) # us"] exI [of _ t']) auto
qed


section \<open>Properties\<close>

definition sample_region :: task_vm_region where
  "sample_region = \<lparr>vr_base = 0x1000, vr_len = 0x3000, vr_offset = 0, vr_writable = False, vr_kind = 1,
     vr_prot = 1, vr_flags = 1, vr_object_type = 2, vr_object_id = 7\<rparr>"

definition sample_table :: vm_table where
  "sample_table = \<lparr>vm_regions = [sample_region], vm_region_capacity = 32, vm_allocs = []\<rparr>"

lemma sample_table_ok: "table_ok sample_table"
  by (simp add: table_ok_def sample_table_def regions_ok_Cons region_ok_def sample_region_def
      region_end_def)

lemma sample_view: "region_view (vm_regions sample_table) a =
    (if 0x1000 \<le> a \<and> a < 0x4000 then Some (attrs_of sample_region) else None)"
  by (simp add: region_view_def sample_table_def in_region_def sample_region_def region_end_def)

text \<open>
  C22. Adding a mapping. On a well-formed region table \<^verbatim>\<open>task_add_vm_mapping\<close> returns.
  Success means the range was free, and the table then maps exactly the range to the new
  attributes, everything else as before, still without overlaps. Failure means the range
  is empty, wraps around or overlaps a region, or that there was no memory for a new
  entry; then no region has changed.
\<close>

theorem vm_add_exact:
  assumes "table_ok t" and "length (vm_regions t) < 2 ^ 31"
  shows "\<exists>s t'. task_add_vm_mapping base len m offset t = Some (s, t') \<and>
    (s = OK \<longrightarrow> table_ok t' \<and> task_vm_range_is_free base len t \<and>
       (\<forall>a. region_view (vm_regions t') a =
              (if in_range base len a then Some m else region_view (vm_regions t) a))) \<and>
    (s \<noteq> OK \<longrightarrow> vm_regions t' = vm_regions t \<and>
       (\<not> task_vm_range_is_free base len t \<or> refused t t'))"
  using add_mapping_ok [OF assms, of base len m offset]
  unfolding mapped_def table_ok_def grows_def by blast

theorem vm_add_exact_witness:
  "\<exists>t'. task_add_vm_mapping 0x4000 0x1000 (attrs_of sample_region) 0x3000 sample_table = Some (OK, t') \<and>
     region_view (vm_regions t') 0x4800 = Some (attrs_of sample_region)"
proof -
  obtain t' where ret: "task_add_vm_mapping 0x4000 0x1000 (attrs_of sample_region) 0x3000 sample_table = Some (OK, t')"
    by (simp add: task_add_vm_mapping_def sample_table_def append_fits_def sample_region_def attrs_match
        vm_region_append_offset_matches_def region_end_def task_vm_range_overlaps_other_locked_def Let_def)
  have "length (vm_regions sample_table) < 2 ^ 31"
    by (simp add: sample_table_def)
  from vm_add_exact [OF sample_table_ok this, of "0x4000" "0x1000" "attrs_of sample_region" "0x3000"] ret
  have "\<forall>a. region_view (vm_regions t') a = (if in_range 0x4000 0x1000 a then Some (attrs_of sample_region)
      else region_view (vm_regions sample_table) a)"
    by (metis option.inject prod.inject)
  then have "region_view (vm_regions t') 0x4800 = Some (attrs_of sample_region)"
    by (simp add: in_range_def)
  with ret show ?thesis by blast
qed

text \<open>
  C23. Extending. \<^verbatim>\<open>task_add_or_extend_vm_mapping\<close>, which lets the range overlap or touch
  a region of the same attributes, returns and on success maps exactly the range to these
  attributes and leaves every other address alone; it fails only on an occupied range or
  for want of memory, and then no region has changed.
\<close>

theorem vm_extend_exact:
  assumes "table_ok t" and "length (vm_regions t) < 2 ^ 31"
  shows "\<exists>s t'. task_add_or_extend_vm_mapping base len m offset t = Some (s, t') \<and>
    (s = OK \<longrightarrow> table_ok t' \<and>
       (\<forall>a. region_view (vm_regions t') a =
              (if in_range base len a then Some m else region_view (vm_regions t) a))) \<and>
    (s \<noteq> OK \<longrightarrow> vm_regions t' = vm_regions t \<and>
       (\<not> task_vm_range_is_free base len t \<or> refused t t'))"
  using extend_mapping_ok [OF assms, of base len m offset]
  unfolding mapped_def table_ok_def grows_def by blast

theorem vm_extend_exact_witness:
  "\<exists>t'. task_add_or_extend_vm_mapping 0x3000 0x2000 (attrs_of sample_region) 0 sample_table = Some (OK, t') \<and>
     region_view (vm_regions t') 0x4800 = Some (attrs_of sample_region)"
proof -
  obtain t' where ret: "task_add_or_extend_vm_mapping 0x3000 0x2000 (attrs_of sample_region) 0 sample_table = Some (OK, t')"
    by (simp add: task_add_or_extend_vm_mapping_def sample_table_def extend_fits_def sample_region_def
        attrs_match vm_region_prepend_offset_matches_def merged_base_def merged_end_def region_end_def
        task_vm_range_overlaps_other_locked_def Let_def)
  have "length (vm_regions sample_table) < 2 ^ 31"
    by (simp add: sample_table_def)
  from vm_extend_exact [OF sample_table_ok this, of "0x3000" "0x2000" "attrs_of sample_region" 0] ret
  have "\<forall>a. region_view (vm_regions t') a = (if in_range 0x3000 0x2000 a then Some (attrs_of sample_region)
      else region_view (vm_regions sample_table) a)"
    by (metis option.inject prod.inject)
  then have "region_view (vm_regions t') 0x4800 = Some (attrs_of sample_region)"
    by (simp add: in_range_def)
  with ret show ?thesis by blast
qed



text \<open>
  C8. Removing. On a well-formed table of fewer than \<open>2^29\<close> regions
  \<^verbatim>\<open>task_remove_vm_region\<close> returns, although it shortens, splits and reorders the table
  while it walks it; on success exactly the addresses of the range have lost their mapping.
  It fails only on a bad range, changing nothing, or for want of memory.
\<close>

theorem vm_remove_exact:
  assumes "table_ok t" and "length (vm_regions t) < 2 ^ 29"
  shows "\<exists>s t'. task_remove_vm_region base len t = Some (s, t') \<and>
    (s = OK \<longrightarrow> table_ok t' \<and>
       (\<forall>a. region_view (vm_regions t') a =
              (if in_range base len a then None else region_view (vm_regions t) a))) \<and>
    (s \<noteq> OK \<longrightarrow> refused t t' \<or> t' = t \<and> \<not> base < base + len)"
proof (cases "base < base + len")
  case False
  then show ?thesis
    using range_guard [of len base] by (simp add: task_remove_vm_region_def)
next
  case range: True
  have ok: "regions_ok (vm_regions t)" and cap: "length (vm_regions t) \<le> unat (vm_region_capacity t)"
    using assms(1) by (simp_all add: table_ok_def)
  have guard: "\<not> (len = 0 \<or> base + len < base)"
    using range by (simp add: range_guard)
  have "length [] + cut_weight base (base + len) (vm_regions t) < 2 ^ 31"
    using assms(2) cut_weight_bound [of base "base + len" "vm_regions t"] by simp
  from remove_loop_ok [OF _ _ cap this range] ok obtain s t' where
    loop: "remove_loop base len 0 t = Some (s, t')" "grows t t'" "s \<noteq> OK \<longrightarrow> refused t t'"
    "s = OK \<longrightarrow> regions_ok (vm_regions t')"
    and maps: "s = OK \<longrightarrow> (\<forall>a m. maps_to (vm_regions t') a m \<longleftrightarrow>
      maps_to (vm_regions t) a m \<and> \<not> in_range base len a)"
    by auto
  have "region_view (vm_regions t') a =
      (if in_range base len a then None else region_view (vm_regions t) a)" if "s = OK" for a
    using loop(4) maps that
    by (intro region_view_eqI) (auto simp: region_view_eq [OF ok, symmetric])
  then show ?thesis
    using loop guard by (auto simp: task_remove_vm_region_def table_ok_def grows_def)
qed

theorem vm_remove_exact_witness:
  "\<exists>t'. task_remove_vm_region 0x2000 0x1000 sample_table = Some (OK, t') \<and>
     region_view (vm_regions t') 0x2800 = None \<and>
     region_view (vm_regions t') 0x3000 = Some (attrs_of sample_region)"
proof -
  have "map_option fst (task_remove_vm_region 0x2000 0x1000 sample_table) = Some OK"
    by code_simp
  then obtain t' where ret: "task_remove_vm_region 0x2000 0x1000 sample_table = Some (OK, t')"
    by auto
  have "length (vm_regions sample_table) < 2 ^ 29"
    by (simp add: sample_table_def)
  from vm_remove_exact [OF sample_table_ok this, of "0x2000" "0x1000"] ret
  have "\<forall>a. region_view (vm_regions t') a = (if in_range 0x2000 0x1000 a
      then None else region_view (vm_regions sample_table) a)"
    by (metis option.inject prod.inject)
  then have "region_view (vm_regions t') 0x2800 = None"
    "region_view (vm_regions t') 0x3000 = Some (attrs_of sample_region)"
    by (simp_all add: in_range_def sample_view)
  with ret show ?thesis by blast
qed

text \<open>
  C25. Teardown ends. The loop of \<^verbatim>\<open>task_teardown\<close> that removes the first region until the
  table is empty ends, needs no memory, and has then unmapped each region of the table
  exactly once.
\<close>

theorem vm_teardown_complete:
  assumes "table_ok t" and "length (vm_regions t) < 2 ^ 31"
  shows "\<exists>us t'. vm_teardown_loop [] t = Some (us, t') \<and> vm_regions t' = [] \<and>
    length us = length (vm_regions t) \<and>
    set us = (\<lambda>r. (vr_base r, vr_len r)) ` set (vm_regions t)"
  using teardown_ok [of t "[]"] assms by (simp add: table_ok_def)

theorem vm_teardown_complete_witness:
  "\<exists>us t'. vm_teardown_loop [] sample_table = Some (us, t') \<and> set us = {(0x1000, 0x3000)}"
  using vm_teardown_complete [OF sample_table_ok]
  by (auto simp: sample_table_def sample_region_def)






end
