(* ===== verification/Objects.thy ===== *)
theory Objects
  imports Vm_Regions
begin

text \<open>
  The kernel objects that handles and messages refer to, and their reference counts: ports
  (\<^verbatim>\<open>kernel/ipc.c\<close>), shared buffers (\<^verbatim>\<open>kernel/buffer.c\<close>), tasks, hardware resources
  and scheduling policies (\<^verbatim>\<open>kernel/sched.c\<close>).

  Objects live in stores from addresses to records. An object that \<^verbatim>\<open>slab_free\<close> has
  taken is no longer in its store, and addresses are never given out twice, so an access to a
  freed object shows: a call that makes one, that waits for a spinlock its caller holds, or
  that does not end, has the value \<open>None\<close>. The indices by name, id and pid are the maps
  that the trees of \<^verbatim>\<open>kernel/tree.h\<close> implement. \<open>k_allocs\<close> are the answers of the
  slab allocator to come; the last fields record the calls into other parts of the kernel.
  Calls on ports hold \<^verbatim>\<open>ipc_lock\<close>; \<open>k_ipc_locked\<close> says that a thread has gone away with it.
\<close>

section \<open>Data\<close>

datatype task_handle_type =
    TASK_HANDLE_EMPTY
  | TASK_HANDLE_PORT
  | TASK_HANDLE_TASK
  | TASK_HANDLE_BUFFER
  | TASK_HANDLE_HW_RESOURCE
  | TASK_HANDLE_SCHED_POLICY

record task_handle =
  h_type :: task_handle_type
  h_rights :: u32
  h_tag :: u32
  h_object :: "nat option"

abbreviation (input) TASK_RIGHT_SEND :: u32 where "TASK_RIGHT_SEND \<equiv> 1"
abbreviation (input) TASK_RIGHT_RECV :: u32 where "TASK_RIGHT_RECV \<equiv> 2"
abbreviation (input) TASK_RIGHT_DUP :: u32 where "TASK_RIGHT_DUP \<equiv> 4"
abbreviation (input) TASK_HW_RESOURCE_OWNED :: u32 where "TASK_HW_RESOURCE_OWNED \<equiv> 1"
abbreviation (input) INITIAL_TASK_HANDLES :: u32 where "INITIAL_TASK_HANDLES \<equiv> 16"

datatype ipc_cap_type =
    IPC_CAP_NONE
  | IPC_CAP_PORT
  | IPC_CAP_BUFFER
  | IPC_CAP_TASK
  | IPC_CAP_HW_RESOURCE
  | IPC_CAP_SCHED_POLICY

record ipc_message =
  m_protocol :: u32
  m_type :: u32
  m_sender :: u32
  m_cap_rights :: u32
  m_reply_port :: "nat option"
  m_cap_type :: ipc_cap_type
  m_cap_object :: "nat option"
  m_words :: "u64 list"

text \<open>A receiver's wait record, on the stack of the blocked thread.\<close>

record ipc_wait =
  w_message :: ipc_message
  w_index :: u64
  w_delivered :: bool

text \<open>The list from \<^verbatim>\<open>head\<close> to \<^verbatim>\<open>tail\<close> is \<open>p_queue\<close>.\<close>

record ipc_port =
  p_name :: string
  p_id :: u64
  p_ref_count :: u32
  p_immortal :: bool
  p_queue :: "ipc_message list"
  p_receiver :: "nat option"
  p_receiver_wait :: "nat option"
  p_receiver_index :: u64
  p_affinity_cpu :: u32
  p_affinity_valid :: bool
  p_queued :: u32

record shared_buffer =
  b_id :: u64
  b_size :: u64
  b_ref_count :: u32
  b_data :: "u8 list"

record task_hw_resource =
  hw_type :: u32
  hw_ops :: u32
  hw_flags :: u32
  hw_ref_count :: u32
  hw_base :: u64
  hw_len :: u64

record sched_policy_cap =
  sp_ref_count :: u32
  sp_target_kind :: u32
  sp_rights :: u32
  sp_delegation_depth :: u32
  sp_target_id :: u64
  sp_class_mask :: u64
  sp_min_priority :: u32
  sp_max_priority :: u32
  sp_min_weight :: u32
  sp_max_weight :: u32
  sp_cpu_mask :: u64

text \<open>The handle table is the list of its \<^verbatim>\<open>handle_capacity\<close> slots.\<close>

record task =
  t_pid :: u32
  t_name :: string
  t_ref_count :: u32
  t_dead :: bool
  t_killing :: bool
  t_thread_count :: u32
  t_vm_space :: "nat option"
  t_owns_vm_space :: bool
  t_ipc_affinity_cpu :: u32
  t_ipc_affinity_valid :: bool
  t_vm :: vm_table
  t_reply_port :: "nat option"
  t_handles :: "task_handle list"

datatype thread_state =
    THREAD_EMPTY
  | THREAD_READY
  | THREAD_RUNNING
  | THREAD_BLOCKED
  | THREAD_DEAD

text \<open>What message passing needs of a thread.\<close>

record kthread =
  th_state :: thread_state
  th_task :: nat
  th_cpu :: u32

text \<open>The counters of \<^verbatim>\<open>struct ipc_stats\<close>; each has a total and one value per CPU.\<close>

datatype ipc_stat =
    SENDS
  | QUEUED
  | DIRECT_DELIVERED
  | DIRECT_HANDOFF
  | FALLBACK_CROSS_CPU
  | FALLBACK_NESTED
  | FALLBACK_SCHEDULER
  | FALLBACK_INVALID

record kstate =
  k_ports :: "nat \<rightharpoonup> ipc_port"
  k_buffers :: "nat \<rightharpoonup> shared_buffer"
  k_tasks :: "nat \<rightharpoonup> task"
  k_hws :: "nat \<rightharpoonup> task_hw_resource"
  k_policies :: "nat \<rightharpoonup> sched_policy_cap"
  k_threads :: "nat \<rightharpoonup> kthread"
  k_waits :: "nat \<rightharpoonup> ipc_wait"
  k_ports_by_name :: "string \<rightharpoonup> nat"
  k_ports_by_id :: "u64 \<rightharpoonup> nat"
  k_tasks_by_pid :: "u32 \<rightharpoonup> nat"
  k_kernel_task :: nat
  k_next_port_id :: u64
  k_next_buffer_id :: u64
  k_next_pid :: u32
  k_next_addr :: nat
  k_ipc_locked :: bool
  k_stats :: "ipc_stat \<Rightarrow> u64"
  k_cpu_stats :: "ipc_stat \<Rightarrow> u32 \<Rightarrow> u64"
  k_allocs :: "bool list"
  k_deaths :: "u32 list"
  k_unmapped :: "(nat option \<times> u64 \<times> u64) list"
  k_destroyed_spaces :: "nat option list"

definition set_port :: "nat \<Rightarrow> ipc_port \<Rightarrow> kstate \<Rightarrow> kstate" where
  "set_port a p K = K\<lparr>k_ports := (k_ports K)(a \<mapsto> p)\<rparr>"

definition set_buffer :: "nat \<Rightarrow> shared_buffer \<Rightarrow> kstate \<Rightarrow> kstate" where
  "set_buffer a b K = K\<lparr>k_buffers := (k_buffers K)(a \<mapsto> b)\<rparr>"

definition set_task :: "nat \<Rightarrow> task \<Rightarrow> kstate \<Rightarrow> kstate" where
  "set_task a t K = K\<lparr>k_tasks := (k_tasks K)(a \<mapsto> t)\<rparr>"

definition set_hw :: "nat \<Rightarrow> task_hw_resource \<Rightarrow> kstate \<Rightarrow> kstate" where
  "set_hw a h K = K\<lparr>k_hws := (k_hws K)(a \<mapsto> h)\<rparr>"

definition set_policy :: "nat \<Rightarrow> sched_policy_cap \<Rightarrow> kstate \<Rightarrow> kstate" where
  "set_policy a c K = K\<lparr>k_policies := (k_policies K)(a \<mapsto> c)\<rparr>"

text \<open>Next answer of \<^verbatim>\<open>slab_alloc\<close>: whether there is memory.\<close>

definition slab_answer :: "kstate \<Rightarrow> bool \<times> kstate" where
  "slab_answer K =
     (k_allocs K \<noteq> [] \<and> hd (k_allocs K), K\<lparr>k_allocs := tl (k_allocs K)\<rparr>)"


section \<open>Ports\<close>

definition ipc_port_remove_locked :: "nat \<Rightarrow> ipc_port \<Rightarrow> kstate \<Rightarrow> kstate" where
  "ipc_port_remove_locked a p K =
     K\<lparr>k_ports_by_id := (if k_ports_by_id K (p_id p) = Some a
                         then (k_ports_by_id K)(p_id p := None) else k_ports_by_id K),
       k_ports_by_name := (if k_ports_by_name K (p_name p) = Some a
                           then (k_ports_by_name K)(p_name p := None) else k_ports_by_name K)\<rparr>"

definition ipc_lock :: "kstate \<Rightarrow> unit option" where
  "ipc_lock K = (if k_ipc_locked K then None else Some ())"

definition ipc_port_alloc :: "string \<Rightarrow> bool \<Rightarrow> kstate \<Rightarrow> (nat option \<times> kstate) option" where
  "ipc_port_alloc name reuse_named K = do {
     _ \<leftarrow> ipc_lock K;
     Some (case (if reuse_named then k_ports_by_name K name else None) of
        Some existing \<Rightarrow> (Some existing, K)
      | None \<Rightarrow>
          (let (ok, K1) = slab_answer K
           in if \<not> ok then (None, K1)
              else let a = k_next_addr K1; i = k_next_port_id K1;
                       port = \<lparr>p_name = name, p_id = i, p_ref_count = 0, p_immortal = reuse_named,
                               p_queue = [], p_receiver = None, p_receiver_wait = None,
                               p_receiver_index = 0, p_affinity_cpu = 0,
                               p_affinity_valid = False, p_queued = 0\<rparr>;
                       K2 = K1\<lparr>k_next_port_id := i + 1\<rparr>
                   in if k_ports_by_id K2 i \<noteq> None then (None, K2)
                      else (Some a,
                            set_port a port K2\<lparr>k_next_addr := a + 1,
                              k_ports_by_id := (k_ports_by_id K2)(i \<mapsto> a),
                              k_ports_by_name := (if reuse_named then (k_ports_by_name K2)(name \<mapsto> a)
                                                  else k_ports_by_name K2)\<rparr>)))
   }"

definition ipc_port_create :: "string \<Rightarrow> kstate \<Rightarrow> (nat option \<times> kstate) option" where
  "ipc_port_create name = ipc_port_alloc name True"

definition ipc_port_create_private :: "string \<Rightarrow> kstate \<Rightarrow> (nat option \<times> kstate) option" where
  "ipc_port_create_private name = ipc_port_alloc name False"

definition ipc_port_find :: "string \<Rightarrow> kstate \<Rightarrow> nat option option" where
  "ipc_port_find name K = do { _ \<leftarrow> ipc_lock K; Some (k_ports_by_name K name) }"

definition ipc_port_from_id :: "u64 \<Rightarrow> kstate \<Rightarrow> nat option option" where
  "ipc_port_from_id i K =
     (if i = 0 then Some None else do { _ \<leftarrow> ipc_lock K; Some (k_ports_by_id K i) })"

definition ipc_port_retain :: "nat option \<Rightarrow> kstate \<Rightarrow> kstate option" where
  "ipc_port_retain port K =
     (case port of
        None \<Rightarrow> Some K
      | Some a \<Rightarrow> do {
          _ \<leftarrow> ipc_lock K;
          p \<leftarrow> k_ports K a;
          Some (set_port a (p\<lparr>p_ref_count := p_ref_count p + 1\<rparr>) K)
        })"

definition ipc_port_release :: "nat option \<Rightarrow> kstate \<Rightarrow> kstate option" where
  "ipc_port_release port K =
     (case port of
        None \<Rightarrow> Some K
      | Some a \<Rightarrow> do {
          _ \<leftarrow> ipc_lock K;
          p \<leftarrow> k_ports K a;
          let p1 = p\<lparr>p_ref_count := (if p_ref_count p > 0 then p_ref_count p - 1
                                      else p_ref_count p)\<rparr> in
          if p_immortal p1 \<or> p_ref_count p1 \<noteq> 0 \<or> p_queued p1 \<noteq> 0 \<or> p_receiver p1 \<noteq> None
          then Some (set_port a p1 K)
          else let K1 = ipc_port_remove_locked a p1 K
               in Some (K1\<lparr>k_ports := (k_ports K1)(a := None)\<rparr>)
        })"

definition ipc_port_affinity_cpu :: "nat \<Rightarrow> kstate \<Rightarrow> u32 option option" where
  "ipc_port_affinity_cpu a K = do {
     _ \<leftarrow> ipc_lock K;
     p \<leftarrow> k_ports K a;
     Some (if p_affinity_valid p then Some (p_affinity_cpu p) else None)
   }"


section \<open>Shared buffers\<close>

abbreviation (input) BUFFER_MAX_SIZE :: u64 where "BUFFER_MAX_SIZE \<equiv> 2097152"

definition buffer_create :: "u64 \<Rightarrow> kstate \<Rightarrow> nat option \<times> kstate" where
  "buffer_create len K =
     (if len = 0 \<or> len > BUFFER_MAX_SIZE then (None, K)
      else let (ok, K1) = slab_answer K
           in if \<not> ok then (None, K1)
              else let (data_ok, K2) = slab_answer K1
                   in if \<not> data_ok then (None, K2)
                      else let a = k_next_addr K2
                           in (Some a,
                               set_buffer a \<lparr>b_id = k_next_buffer_id K2, b_size = len,
                                             b_ref_count = 1, b_data = replicate (unat len) 0\<rparr>
                                 K2\<lparr>k_next_addr := a + 1,
                                    k_next_buffer_id := k_next_buffer_id K2 + 1\<rparr>))"

definition buffer_destroy :: "nat option \<Rightarrow> kstate \<Rightarrow> kstate option" where
  "buffer_destroy buffer K =
     (case buffer of
        None \<Rightarrow> Some K
      | Some a \<Rightarrow> do {
          b \<leftarrow> k_buffers K a;
          if b_ref_count b \<noteq> 0 then Some K
          else Some (K\<lparr>k_buffers := (k_buffers K)(a := None)\<rparr>)
        })"

definition buffer_retain :: "nat option \<Rightarrow> kstate \<Rightarrow> kstate option" where
  "buffer_retain buffer K =
     (case buffer of
        None \<Rightarrow> Some K
      | Some a \<Rightarrow> do {
          b \<leftarrow> k_buffers K a;
          Some (set_buffer a (b\<lparr>b_ref_count := b_ref_count b + 1\<rparr>) K)
        })"

definition buffer_release :: "nat option \<Rightarrow> kstate \<Rightarrow> kstate option" where
  "buffer_release buffer K =
     (case buffer of
        None \<Rightarrow> Some K
      | Some a \<Rightarrow> do {
          b \<leftarrow> k_buffers K a;
          let refs = (if b_ref_count b > 0 then b_ref_count b - 1 else b_ref_count b) in
          let K1 = set_buffer a (b\<lparr>b_ref_count := refs\<rparr>) K in
          if refs = 0 then buffer_destroy buffer K1 else Some K1
        })"

definition buffer_id :: "nat option \<Rightarrow> kstate \<Rightarrow> u64 option" where
  "buffer_id buffer K = (case buffer of None \<Rightarrow> Some 0 | Some a \<Rightarrow> map_option b_id (k_buffers K a))"

definition buffer_size :: "nat option \<Rightarrow> kstate \<Rightarrow> u64 option" where
  "buffer_size buffer K = (case buffer of None \<Rightarrow> Some 0 | Some a \<Rightarrow> map_option b_size (k_buffers K a))"

text \<open>Reading returns the bytes copied to the caller; writing copies the caller's \<open>len\<close> bytes.\<close>

definition buffer_read ::
  "nat option \<Rightarrow> u64 \<Rightarrow> u64 \<Rightarrow> kstate \<Rightarrow> (u8 list option) option" where
  "buffer_read buffer offset len K =
     (case buffer of
        None \<Rightarrow> Some None
      | Some a \<Rightarrow> do {
          b \<leftarrow> k_buffers K a;
          Some (if offset > b_size b \<or> len > b_size b - offset then None
                else Some (map (\<lambda>i. b_data b ! (unat offset + i)) [0..<unat len]))
        })"

fun mem_copy :: "u8 list \<Rightarrow> nat \<Rightarrow> u8 list \<Rightarrow> u8 list" where
  "mem_copy dst i [] = dst"
| "mem_copy dst i (x # src) = mem_copy (dst[i := x]) (Suc i) src"

definition buffer_write ::
  "nat option \<Rightarrow> u64 \<Rightarrow> u8 list \<Rightarrow> u64 \<Rightarrow> kstate \<Rightarrow> (status \<times> kstate) option" where
  "buffer_write buffer offset src len K =
     (case buffer of
        None \<Rightarrow> Some (ERR, K)
      | Some a \<Rightarrow> do {
          b \<leftarrow> k_buffers K a;
          if offset > b_size b \<or> len > b_size b - offset then Some (ERR, K)
          else Some (OK, set_buffer a
                 (b\<lparr>b_data := mem_copy (b_data b) (unat offset) (take (unat len) src)\<rparr>) K)
        })"


section \<open>Hardware resources and scheduling policies\<close>

definition task_hw_resource_retain :: "nat option \<Rightarrow> kstate \<Rightarrow> (status \<times> kstate) option" where
  "task_hw_resource_retain resource K =
     (case resource of
        None \<Rightarrow> Some (ERR, K)
      | Some a \<Rightarrow> do {
          h \<leftarrow> k_hws K a;
          Some (OK, if hw_flags h AND TASK_HW_RESOURCE_OWNED \<noteq> 0
                    then set_hw a (h\<lparr>hw_ref_count := hw_ref_count h + 1\<rparr>) K else K)
        })"

definition task_hw_resource_release :: "nat option \<Rightarrow> kstate \<Rightarrow> kstate option" where
  "task_hw_resource_release resource K =
     (case resource of
        None \<Rightarrow> Some K
      | Some a \<Rightarrow> do {
          h \<leftarrow> k_hws K a;
          if hw_flags h AND TASK_HW_RESOURCE_OWNED = 0 then Some K
          else let refs = hw_ref_count h - 1
               in if refs = 0 then Some (K\<lparr>k_hws := (k_hws K)(a := None)\<rparr>)
                  else Some (set_hw a (h\<lparr>hw_ref_count := refs\<rparr>) K)
        })"

definition sched_policy_cap_retain :: "nat option \<Rightarrow> kstate \<Rightarrow> (status \<times> kstate) option" where
  "sched_policy_cap_retain cap K =
     (case cap of
        None \<Rightarrow> Some (ERR, K)
      | Some a \<Rightarrow> do {
          c \<leftarrow> k_policies K a;
          Some (OK, set_policy a (c\<lparr>sp_ref_count := sp_ref_count c + 1\<rparr>) K)
        })"

definition sched_policy_cap_release :: "nat option \<Rightarrow> kstate \<Rightarrow> kstate option" where
  "sched_policy_cap_release cap K =
     (case cap of
        None \<Rightarrow> Some K
      | Some a \<Rightarrow> do {
          c \<leftarrow> k_policies K a;
          let refs = sp_ref_count c - 1 in
          if refs = 0 then Some (K\<lparr>k_policies := (k_policies K)(a := None)\<rparr>)
          else Some (set_policy a (c\<lparr>sp_ref_count := refs\<rparr>) K)
        })"


section \<open>Tasks\<close>

definition task_retain :: "nat option \<Rightarrow> kstate \<Rightarrow> (status \<times> kstate) option" where
  "task_retain task K =
     (case task of
        None \<Rightarrow> Some (ERR, K)
      | Some a \<Rightarrow>
          if a = k_kernel_task K then Some (ERR, K)
          else do {
            t \<leftarrow> k_tasks K a;
            if t_dead t then Some (ERR, K)
            else Some (OK, set_task a (t\<lparr>t_ref_count := t_ref_count t + 1\<rparr>) K)
          })"

text \<open>
  \<^verbatim>\<open>task_release\<close>, \<^verbatim>\<open>task_teardown\<close> and \<^verbatim>\<open>task_handle_release\<close> call each other: the
  handles of a dead task may hold the last references to other dead tasks. The first two
  definitions below take the release of a task as an argument, which ties the knot in
  \<open>task_release\<close>.
\<close>

definition handle_release_by ::
  "(nat option \<Rightarrow> kstate \<Rightarrow> kstate option) \<Rightarrow> task_handle_type \<Rightarrow> nat option \<Rightarrow> kstate \<Rightarrow> kstate option"
where
  "handle_release_by release_task ty object K =
     (case ty of
        TASK_HANDLE_PORT \<Rightarrow> ipc_port_release object K
      | TASK_HANDLE_BUFFER \<Rightarrow> buffer_release object K
      | TASK_HANDLE_TASK \<Rightarrow> release_task object K
      | TASK_HANDLE_HW_RESOURCE \<Rightarrow> task_hw_resource_release object K
      | TASK_HANDLE_SCHED_POLICY \<Rightarrow> sched_policy_cap_release object K
      | TASK_HANDLE_EMPTY \<Rightarrow> Some K)"

fun release_handles ::
  "(nat option \<Rightarrow> kstate \<Rightarrow> kstate option) \<Rightarrow> task_handle list \<Rightarrow> kstate \<Rightarrow> kstate option" where
  "release_handles release_task [] K = Some K"
| "release_handles release_task (h # hs) K = do {
     K1 \<leftarrow> handle_release_by release_task (h_type h) (h_object h) K;
     release_handles release_task hs K1
   }"

definition task_remove_from_list :: "nat \<Rightarrow> kstate \<Rightarrow> kstate option" where
  "task_remove_from_list a K = do {
     t \<leftarrow> k_tasks K a;
     Some (if k_tasks_by_pid K (t_pid t) = Some a
           then K\<lparr>k_tasks_by_pid := (k_tasks_by_pid K)(t_pid t := None)\<rparr> else K)
   }"

definition teardown_vm :: "task \<Rightarrow> ((u64 \<times> u64) list \<times> vm_table) option" where
  "teardown_vm t = (if t_owns_vm_space t then vm_teardown_loop [] (t_vm t) else Some ([], t_vm t))"

text \<open>The first half of \<^verbatim>\<open>task_teardown\<close>: notify, unmap, and take the fields of the task.\<close>

definition teardown_detach :: "nat \<Rightarrow> kstate \<Rightarrow> (task \<times> kstate) option" where
  "teardown_detach a K = do {
     t \<leftarrow> k_tasks K a;
     (unmapped, vm) \<leftarrow> teardown_vm t;
     let t1 = t\<lparr>t_handles := [], t_reply_port := None, t_vm_space := None,
                t_owns_vm_space := False,
                t_vm := vm\<lparr>vm_regions := [], vm_region_capacity := 0\<rparr>\<rparr> in
     Some (t, set_task a t1
       (K\<lparr>k_deaths := k_deaths K @ [t_pid t],
          k_unmapped := k_unmapped K @ map (\<lambda>(base, len). (t_vm_space t, base, len)) unmapped\<rparr>))
   }"

definition teardown_by ::
  "(nat option \<Rightarrow> kstate \<Rightarrow> kstate option) \<Rightarrow> nat \<Rightarrow> kstate \<Rightarrow> kstate option" where
  "teardown_by release_task a K = do {
     (t, K1) \<leftarrow> teardown_detach a K;
     K2 \<leftarrow> release_handles release_task (t_handles t) K1;
     K3 \<leftarrow> ipc_port_release (t_reply_port t) K2;
     let K4 = (if t_owns_vm_space t
               then K3\<lparr>k_destroyed_spaces := k_destroyed_spaces K3 @ [t_vm_space t]\<rparr> else K3) in
     task_remove_from_list a K4
   }"

lemma handle_release_by_mono [partial_function_mono]:
  assumes "\<And>object K. mono_option (\<lambda>f. r f object K)"
  shows "mono_option (\<lambda>f. handle_release_by (r f) ty object K)"
  unfolding handle_release_by_def
  by (cases ty) (auto intro: assms option.const_mono)

lemma release_handles_mono [partial_function_mono]:
  assumes "\<And>object K. mono_option (\<lambda>f. r f object K)"
  shows "mono_option (\<lambda>f. release_handles (r f) hs K)"
proof (induction hs arbitrary: K)
  case Nil
  then show ?case by (simp add: option.const_mono)
next
  case (Cons h hs)
  show ?case
    unfolding release_handles.simps
    by (intro bind_mono handle_release_by_mono assms Cons.IH)
qed

lemma teardown_by_mono [partial_function_mono]:
  assumes "\<And>object K. mono_option (\<lambda>f. r f object K)"
  shows "mono_option (\<lambda>f. teardown_by (r f) a K)"
  unfolding teardown_by_def Let_def case_prod_beta
  by (intro bind_mono release_handles_mono assms option.const_mono)

partial_function (option) task_release :: "nat option \<Rightarrow> kstate \<Rightarrow> kstate option" where
  "task_release task K =
     (case task of
        None \<Rightarrow> Some K
      | Some a \<Rightarrow>
          if a = k_kernel_task K then Some K
          else do {
            t \<leftarrow> k_tasks K a;
            let t1 = t\<lparr>t_ref_count := (if t_ref_count t > 0 then t_ref_count t - 1
                                        else t_ref_count t)\<rparr>;
                K1 = set_task a t1 K
            in if t_ref_count t1 = 0 \<and> t_dead t1
               then do {
                 K2 \<leftarrow> teardown_by task_release a K1;
                 Some (K2\<lparr>k_tasks := (k_tasks K2)(a := None)\<rparr>)
               }
               else Some K1
          })"

declare task_release.simps [code]

definition task_teardown :: "nat option \<Rightarrow> kstate \<Rightarrow> kstate option" where
  "task_teardown task K =
     (case task of
        None \<Rightarrow> Some K
      | Some a \<Rightarrow> if a = k_kernel_task K then Some K else teardown_by task_release a K)"

definition task_handle_release ::
  "task_handle_type \<Rightarrow> nat option \<Rightarrow> kstate \<Rightarrow> kstate option" where
  "task_handle_release = handle_release_by task_release"

end
