(* ===== verification/Handles.thy ===== *)
theory Handles
  imports Objects
begin

text \<open>
  Handle tables (\<^verbatim>\<open>kernel/sched.c\<close>): granting, finding, inheriting, exporting, cloning and
  closing handles, and the start and end of the life of a task. Pointers that the source
  checks against null are options. A call that answers a handle answers 0 on failure, and
  handle \<open>h\<close> is slot \<open>h - 1\<close>.
\<close>

section \<open>Slots\<close>

definition empty_handle :: task_handle where
  "empty_handle = \<lparr>h_type = TASK_HANDLE_EMPTY, h_rights = 0, h_tag = 0, h_object = None\<rparr>"

fun handle_scan :: "(task_handle \<Rightarrow> bool) \<Rightarrow> nat \<Rightarrow> task_handle list \<Rightarrow> nat option" where
  "handle_scan P i [] = None"
| "handle_scan P i (h # hs) = (if P h then Some i else handle_scan P (Suc i) hs)"

definition handle_capacity :: "task \<Rightarrow> u32" where
  "handle_capacity t = of_nat (length (t_handles t))"

definition task_grow_handles_locked :: "nat \<Rightarrow> u32 \<Rightarrow> kstate \<Rightarrow> (status \<times> kstate) option" where
  "task_grow_handles_locked a min_capacity K = do {
     t \<leftarrow> k_tasks K a;
     if handle_capacity t \<ge> min_capacity then Some (OK, K)
     else do {
       new_capacity \<leftarrow> grow_capacity
         (if handle_capacity t = 0 then INITIAL_TASK_HANDLES else handle_capacity t) min_capacity;
       let (ok, K1) = slab_answer K in
       if \<not> ok then Some (ERR, K1)
       else Some (OK, set_task a
              (t\<lparr>t_handles := t_handles t @
                   replicate (unat new_capacity - length (t_handles t)) empty_handle\<rparr>) K1)
     }
   }"

text \<open>The loop that looks for an empty slot and grows the table while there is none.\<close>

partial_function (option) free_slot_loop :: "nat \<Rightarrow> kstate \<Rightarrow> (nat option \<times> kstate) option" where
  "free_slot_loop a K = do {
     t \<leftarrow> k_tasks K a;
     (case handle_scan (\<lambda>h. h_type h = TASK_HANDLE_EMPTY) 0 (t_handles t) of
        Some i \<Rightarrow> Some (Some i, K)
      | None \<Rightarrow> do {
          (s, K1) \<leftarrow> task_grow_handles_locked a (handle_capacity t + 1) K;
          if s = OK then free_slot_loop a K1 else Some (None, K1)
        })
   }"

declare free_slot_loop.simps [code]

text \<open>
  The slot of a grant: one that already has the same type, object and rights (\<open>True\<close>), else
  a free one (\<open>False\<close>).
\<close>

definition grant_slot ::
  "nat \<Rightarrow> task_handle_type \<Rightarrow> nat \<Rightarrow> u32 \<Rightarrow> kstate \<Rightarrow> ((nat \<times> bool) option \<times> kstate) option" where
  "grant_slot a ty object rights K = do {
     t \<leftarrow> k_tasks K a;
     (case handle_scan (\<lambda>h. h_type h = ty \<and> h_object h = Some object \<and> h_rights h = rights) 0
             (t_handles t) of
        Some i \<Rightarrow> Some (Some (i, True), K)
      | None \<Rightarrow> do {
          (slot, K1) \<leftarrow> free_slot_loop a K;
          Some (map_option (\<lambda>i. (i, False)) slot, K1)
        })
   }"

definition write_handle :: "nat \<Rightarrow> nat \<Rightarrow> (task_handle \<Rightarrow> task_handle) \<Rightarrow> kstate \<Rightarrow> kstate option" where
  "write_handle a i f K = do {
     t \<leftarrow> k_tasks K a;
     if i < length (t_handles t)
     then Some (set_task a (t\<lparr>t_handles := (t_handles t)[i := f (t_handles t ! i)]\<rparr>) K)
     else None
   }"

definition fill_handle :: "task_handle_type \<Rightarrow> u32 \<Rightarrow> nat \<Rightarrow> task_handle \<Rightarrow> task_handle" where
  "fill_handle ty rights object h = h\<lparr>h_type := ty, h_rights := rights, h_object := Some object\<rparr>"

definition handle_no :: "nat \<Rightarrow> u64" where
  "handle_no i = of_nat (Suc i)"


section \<open>References held by handles\<close>

text \<open>
  \<open>locked\<close> are the tasks whose spinlock the caller holds: taking one of them again does not
  return. The two branches of the source for tasks differ in nothing but a comparison with the
  current task.
\<close>

definition task_handle_retain ::
  "nat list \<Rightarrow> task_handle_type \<Rightarrow> nat option \<Rightarrow> kstate \<Rightarrow> (status \<times> kstate) option" where
  "task_handle_retain locked ty object K =
     (case ty of
        TASK_HANDLE_PORT \<Rightarrow> do { K1 \<leftarrow> ipc_port_retain object K; Some (OK, K1) }
      | TASK_HANDLE_BUFFER \<Rightarrow> do { K1 \<leftarrow> buffer_retain object K; Some (OK, K1) }
      | TASK_HANDLE_TASK \<Rightarrow> do {
          a \<leftarrow> object;
          t \<leftarrow> k_tasks K a;
          if a \<in> set locked then None
          else if t_dead t then Some (ERR, K)
          else Some (OK, set_task a (t\<lparr>t_ref_count := t_ref_count t + 1\<rparr>) K)
        }
      | TASK_HANDLE_HW_RESOURCE \<Rightarrow> task_hw_resource_retain object K
      | TASK_HANDLE_SCHED_POLICY \<Rightarrow> sched_policy_cap_retain object K
      | TASK_HANDLE_EMPTY \<Rightarrow> Some (ERR, K))"

definition task_handle_retain_from_locked_task ::
  "nat \<Rightarrow> task_handle_type \<Rightarrow> nat option \<Rightarrow> kstate \<Rightarrow> (status \<times> kstate) option" where
  "task_handle_retain_from_locked_task locked_task ty object K =
     (if ty = TASK_HANDLE_TASK \<and> object = Some locked_task
      then do {
        t \<leftarrow> k_tasks K locked_task;
        if t_dead t then Some (ERR, K)
        else Some (OK, set_task locked_task (t\<lparr>t_ref_count := t_ref_count t + 1\<rparr>) K)
      }
      else task_handle_retain [locked_task] ty object K)"


section \<open>Granting\<close>

definition note_affinity :: "nat \<Rightarrow> u32 option \<Rightarrow> kstate \<Rightarrow> kstate option" where
  "note_affinity a affinity K = do {
     t \<leftarrow> k_tasks K a;
     (case affinity of
        Some cpu \<Rightarrow>
          if t_thread_count t = 0
          then Some (set_task a (t\<lparr>t_ipc_affinity_cpu := cpu, t_ipc_affinity_valid := True\<rparr>) K)
          else Some K
      | None \<Rightarrow> Some K)
   }"

definition task_grant_port ::
  "nat option \<Rightarrow> nat option \<Rightarrow> u32 \<Rightarrow> kstate \<Rightarrow> (u64 \<times> kstate) option" where
  "task_grant_port task port rights K =
     (case (task, port) of
        (Some a, Some p) \<Rightarrow> do {
          affinity \<leftarrow> (if rights AND TASK_RIGHT_SEND \<noteq> 0 then ipc_port_affinity_cpu p K else Some None);
          (slot, K1) \<leftarrow> grant_slot a TASK_HANDLE_PORT p rights K;
          (case slot of
             None \<Rightarrow> Some (0, K1)
           | Some (i, True) \<Rightarrow> do { K2 \<leftarrow> note_affinity a affinity K1; Some (handle_no i, K2) }
           | Some (i, False) \<Rightarrow> do {
               K2 \<leftarrow> write_handle a i (fill_handle TASK_HANDLE_PORT rights p) K1;
               K3 \<leftarrow> note_affinity a affinity K2;
               K4 \<leftarrow> ipc_port_retain (Some p) K3;
               Some (handle_no i, K4)
             })
        }
      | _ \<Rightarrow> Some (0, K))"

definition task_grant_buffer ::
  "nat option \<Rightarrow> nat option \<Rightarrow> u32 \<Rightarrow> kstate \<Rightarrow> (u64 \<times> kstate) option" where
  "task_grant_buffer task buffer rights K =
     (case (task, buffer) of
        (Some a, Some b) \<Rightarrow> do {
          (slot, K1) \<leftarrow> grant_slot a TASK_HANDLE_BUFFER b rights K;
          (case slot of
             None \<Rightarrow> Some (0, K1)
           | Some (i, True) \<Rightarrow> Some (handle_no i, K1)
           | Some (i, False) \<Rightarrow> do {
               K2 \<leftarrow> write_handle a i (fill_handle TASK_HANDLE_BUFFER rights b) K1;
               K3 \<leftarrow> buffer_retain (Some b) K2;
               Some (handle_no i, K3)
             })
        }
      | _ \<Rightarrow> Some (0, K))"

definition task_grant_task ::
  "nat option \<Rightarrow> nat option \<Rightarrow> u32 \<Rightarrow> kstate \<Rightarrow> (u64 \<times> kstate) option" where
  "task_grant_task owner target rights K =
     (case (owner, target) of
        (Some a, Some b) \<Rightarrow>
          if rights = 0 then Some (0, K)
          else do {
            tb \<leftarrow> k_tasks K b;
            if t_dead tb then Some (0, K)
            else do {
              (slot, K1) \<leftarrow> grant_slot a TASK_HANDLE_TASK b rights K;
              (case slot of
                 None \<Rightarrow> Some (0, K1)
               | Some (i, True) \<Rightarrow> Some (handle_no i, K1)
               | Some (i, False) \<Rightarrow> do {
                   K2 \<leftarrow> write_handle a i (fill_handle TASK_HANDLE_TASK rights b) K1;
                   t \<leftarrow> k_tasks K2 b;
                   if t_dead t
                   then do { K3 \<leftarrow> write_handle a i (\<lambda>_. empty_handle) K2; Some (0, K3) }
                   else Some (handle_no i, set_task b (t\<lparr>t_ref_count := t_ref_count t + 1\<rparr>) K2)
                 })
            }
          }
      | _ \<Rightarrow> Some (0, K))"

definition grant_retained ::
  "task_handle_type \<Rightarrow> nat option \<Rightarrow> nat option \<Rightarrow> u32 \<Rightarrow> kstate \<Rightarrow> (u64 \<times> kstate) option" where
  "grant_retained ty task object rights K =
     (case (task, object) of
        (Some a, Some b) \<Rightarrow>
          if rights = 0 then Some (0, K)
          else do {
            (slot, K1) \<leftarrow> grant_slot a ty b rights K;
            (case slot of
               None \<Rightarrow> Some (0, K1)
             | Some (i, True) \<Rightarrow> Some (handle_no i, K1)
             | Some (i, False) \<Rightarrow> do {
                 (s, K2) \<leftarrow> task_handle_retain [a] ty (Some b) K1;
                 if s \<noteq> OK then Some (0, K2)
                 else do {
                   K3 \<leftarrow> write_handle a i (fill_handle ty rights b) K2;
                   Some (handle_no i, K3)
                 }
               })
          }
      | _ \<Rightarrow> Some (0, K))"

definition task_grant_hw_resource ::
  "nat option \<Rightarrow> nat option \<Rightarrow> u32 \<Rightarrow> kstate \<Rightarrow> (u64 \<times> kstate) option" where
  "task_grant_hw_resource = grant_retained TASK_HANDLE_HW_RESOURCE"

definition task_grant_sched_policy ::
  "nat option \<Rightarrow> nat option \<Rightarrow> u32 \<Rightarrow> kstate \<Rightarrow> (u64 \<times> kstate) option" where
  "task_grant_sched_policy = grant_retained TASK_HANDLE_SCHED_POLICY"


section \<open>Looking up\<close>

text \<open>The handle of a number: \<open>Some None\<close> when it is 0 or beyond the table.\<close>

definition handle_at :: "nat \<Rightarrow> u64 \<Rightarrow> kstate \<Rightarrow> task_handle option option" where
  "handle_at a handle K = do {
     t \<leftarrow> k_tasks K a;
     Some (if handle = 0 \<or> unat handle > length (t_handles t) then None
           else Some (t_handles t ! (unat handle - 1)))
   }"

definition has_rights :: "u32 \<Rightarrow> task_handle \<Rightarrow> bool" where
  "has_rights rights h \<longleftrightarrow> h_rights h AND rights = rights"

definition object_from_handle ::
  "task_handle_type \<Rightarrow> nat option \<Rightarrow> u64 \<Rightarrow> u32 \<Rightarrow> kstate \<Rightarrow> (nat option \<times> kstate) option" where
  "object_from_handle ty task handle rights K =
     (case task of
        None \<Rightarrow> Some (None, K)
      | Some a \<Rightarrow> do {
          found \<leftarrow> handle_at a handle K;
          (case found of
             None \<Rightarrow> Some (None, K)
           | Some h \<Rightarrow>
               if h_type h \<noteq> ty \<or> \<not> has_rights rights h then Some (None, K)
               else do {
                 (s, K1) \<leftarrow> task_handle_retain_from_locked_task a (h_type h) (h_object h) K;
                 if s \<noteq> OK then Some (None, K1) else Some (h_object h, K1)
               })
        })"

definition task_port_from_handle ::
  "nat option \<Rightarrow> u64 \<Rightarrow> u32 \<Rightarrow> kstate \<Rightarrow> (nat option \<times> kstate) option" where
  "task_port_from_handle = object_from_handle TASK_HANDLE_PORT"

definition task_buffer_from_handle ::
  "nat option \<Rightarrow> u64 \<Rightarrow> u32 \<Rightarrow> kstate \<Rightarrow> (nat option \<times> kstate) option" where
  "task_buffer_from_handle = object_from_handle TASK_HANDLE_BUFFER"

definition task_hw_resource_from_handle ::
  "nat option \<Rightarrow> u64 \<Rightarrow> u32 \<Rightarrow> kstate \<Rightarrow> (nat option \<times> kstate) option" where
  "task_hw_resource_from_handle = object_from_handle TASK_HANDLE_HW_RESOURCE"

definition task_sched_policy_from_handle ::
  "nat option \<Rightarrow> u64 \<Rightarrow> u32 \<Rightarrow> kstate \<Rightarrow> (nat option \<times> kstate) option" where
  "task_sched_policy_from_handle = object_from_handle TASK_HANDLE_SCHED_POLICY"

definition task_from_handle ::
  "nat option \<Rightarrow> u64 \<Rightarrow> u32 \<Rightarrow> kstate \<Rightarrow> (nat option \<times> kstate) option" where
  "task_from_handle owner handle rights K =
     (case owner of
        None \<Rightarrow> Some (None, K)
      | Some a \<Rightarrow> do {
          found \<leftarrow> handle_at a handle K;
          (case found of
             None \<Rightarrow> Some (None, K)
           | Some h \<Rightarrow>
               if h_type h \<noteq> TASK_HANDLE_TASK then Some (None, K)
               else do {
                 b \<leftarrow> h_object h;
                 t \<leftarrow> k_tasks K b;
                 if t_dead t \<or> \<not> has_rights rights h then Some (None, K)
                 else do {
                   (s, K1) \<leftarrow> task_handle_retain_from_locked_task a (h_type h) (h_object h) K;
                   if s \<noteq> OK then Some (None, K1) else Some (h_object h, K1)
                 }
               })
        })"

definition handle_cap_type :: "task_handle_type \<Rightarrow> ipc_cap_type" where
  "handle_cap_type ty =
     (case ty of
        TASK_HANDLE_PORT \<Rightarrow> IPC_CAP_PORT
      | TASK_HANDLE_BUFFER \<Rightarrow> IPC_CAP_BUFFER
      | TASK_HANDLE_TASK \<Rightarrow> IPC_CAP_TASK
      | TASK_HANDLE_HW_RESOURCE \<Rightarrow> IPC_CAP_HW_RESOURCE
      | TASK_HANDLE_SCHED_POLICY \<Rightarrow> IPC_CAP_SCHED_POLICY
      | TASK_HANDLE_EMPTY \<Rightarrow> IPC_CAP_NONE)"

definition task_export_cap ::
  "nat option \<Rightarrow> u64 \<Rightarrow> u32 \<Rightarrow> kstate \<Rightarrow> ((ipc_cap_type \<times> nat option) option \<times> kstate) option" where
  "task_export_cap task handle rights K =
     (case task of
        None \<Rightarrow> Some (None, K)
      | Some a \<Rightarrow> do {
          found \<leftarrow> handle_at a handle K;
          (case found of
             None \<Rightarrow> Some (None, K)
           | Some h \<Rightarrow>
               if h_type h = TASK_HANDLE_EMPTY \<or> \<not> has_rights rights h then Some (None, K)
               else do {
                 (s, K1) \<leftarrow> task_handle_retain_from_locked_task a (h_type h) (h_object h) K;
                 if s \<noteq> OK then Some (None, K1)
                 else Some (Some (handle_cap_type (h_type h), h_object h), K1)
               })
        })"

definition task_set_handle_tag ::
  "nat option \<Rightarrow> u64 \<Rightarrow> u32 \<Rightarrow> kstate \<Rightarrow> (status \<times> kstate) option" where
  "task_set_handle_tag task handle tag K =
     (case task of
        None \<Rightarrow> Some (ERR, K)
      | Some a \<Rightarrow> do {
          found \<leftarrow> handle_at a handle K;
          (case found of
             None \<Rightarrow> Some (ERR, K)
           | Some h \<Rightarrow>
               if h_type h = TASK_HANDLE_EMPTY then Some (ERR, K)
               else do {
                 K1 \<leftarrow> write_handle a (unat handle - 1) (\<lambda>h. h\<lparr>h_tag := tag\<rparr>) K;
                 Some (OK, K1)
               })
        })"

definition task_handle_find :: "nat option \<Rightarrow> u32 \<Rightarrow> kstate \<Rightarrow> u64 option" where
  "task_handle_find task tag K =
     (case task of
        None \<Rightarrow> Some 0
      | Some a \<Rightarrow>
          if tag = 0 then Some 0
          else do {
            t \<leftarrow> k_tasks K a;
            Some (case handle_scan (\<lambda>h. h_type h \<noteq> TASK_HANDLE_EMPTY \<and> h_tag h = tag) 0
                         (t_handles t) of
                    Some i \<Rightarrow> handle_no i
                  | None \<Rightarrow> 0)
          })"


section \<open>Inheriting, closing and cloning\<close>

definition can_inherit :: "u32 \<Rightarrow> task_handle \<Rightarrow> bool" where
  "can_inherit rights h \<longleftrightarrow> h_type h \<noteq> TASK_HANDLE_EMPTY \<and> h_rights h AND TASK_RIGHT_DUP \<noteq> 0 \<and>
     rights AND NOT (h_rights h) = 0"

definition task_can_inherit_handle ::
  "nat option \<Rightarrow> u64 \<Rightarrow> u32 \<Rightarrow> kstate \<Rightarrow> status option" where
  "task_can_inherit_handle src handle rights K =
     (case src of
        None \<Rightarrow> Some ERR
      | Some a \<Rightarrow>
          if rights = 0 then Some ERR
          else do {
            found \<leftarrow> handle_at a handle K;
            Some (case found of None \<Rightarrow> ERR | Some h \<Rightarrow> if can_inherit rights h then OK else ERR)
          })"

definition task_grant_inherited_handle ::
  "nat option \<Rightarrow> nat option \<Rightarrow> u64 \<Rightarrow> u32 \<Rightarrow> kstate \<Rightarrow> (u64 \<times> kstate) option" where
  "task_grant_inherited_handle dst src handle rights K =
     (case (dst, src) of
        (Some _, Some a) \<Rightarrow>
          if rights = 0 then Some (0, K)
          else do {
            found \<leftarrow> handle_at a handle K;
            (case found of
               None \<Rightarrow> Some (0, K)
             | Some h \<Rightarrow>
                 if \<not> can_inherit rights h then Some (0, K)
                 else do {
                   (s, K1) \<leftarrow> task_handle_retain_from_locked_task a (h_type h) (h_object h) K;
                   if s \<noteq> OK then Some (0, K1)
                   else do {
                     (granted, K2) \<leftarrow>
                       (case h_type h of
                          TASK_HANDLE_PORT \<Rightarrow> task_grant_port dst (h_object h) rights K1
                        | TASK_HANDLE_BUFFER \<Rightarrow> task_grant_buffer dst (h_object h) rights K1
                        | TASK_HANDLE_TASK \<Rightarrow> task_grant_task dst (h_object h) rights K1
                        | TASK_HANDLE_HW_RESOURCE \<Rightarrow> task_grant_hw_resource dst (h_object h) rights K1
                        | TASK_HANDLE_SCHED_POLICY \<Rightarrow> task_grant_sched_policy dst (h_object h) rights K1
                        | TASK_HANDLE_EMPTY \<Rightarrow> Some (0, K1));
                     K3 \<leftarrow> task_handle_release (h_type h) (h_object h) K2;
                     Some (granted, K3)
                   }
                 })
          }
      | _ \<Rightarrow> Some (0, K))"

definition task_close_handle :: "nat option \<Rightarrow> u64 \<Rightarrow> kstate \<Rightarrow> (status \<times> kstate) option" where
  "task_close_handle task handle K =
     (case task of
        None \<Rightarrow> Some (ERR, K)
      | Some a \<Rightarrow> do {
          found \<leftarrow> handle_at a handle K;
          (case found of
             None \<Rightarrow> Some (ERR, K)
           | Some h \<Rightarrow>
               if h_type h = TASK_HANDLE_EMPTY then Some (ERR, K)
               else do {
                 K1 \<leftarrow> write_handle a (unat handle - 1) (\<lambda>_. empty_handle) K;
                 K2 \<leftarrow> task_handle_release (h_type h) (h_object h) K1;
                 Some (OK, K2)
               })
        })"

fun clone_loop :: "nat \<Rightarrow> nat \<Rightarrow> nat \<Rightarrow> task_handle list \<Rightarrow> kstate \<Rightarrow> kstate option" where
  "clone_loop dst src i [] K = Some K"
| "clone_loop dst src i (h # hs) K =
     (if h_type h = TASK_HANDLE_EMPTY then clone_loop dst src (Suc i) hs K
      else if h_type h = TASK_HANDLE_TASK \<and> h_object h = Some src
      then do {
        t \<leftarrow> k_tasks K dst;
        let K1 = set_task dst (t\<lparr>t_ref_count := t_ref_count t + 1\<rparr>) K in
        do {
          K2 \<leftarrow> write_handle dst i (\<lambda>_. h\<lparr>h_object := Some dst\<rparr>) K1;
          clone_loop dst src (Suc i) hs K2
        }
      }
      else do {
        (s, K1) \<leftarrow> task_handle_retain [src, dst] (h_type h) (h_object h) K;
        if s \<noteq> OK then clone_loop dst src (Suc i) hs K1
        else do {
          K2 \<leftarrow> write_handle dst i (\<lambda>_. h) K1;
          clone_loop dst src (Suc i) hs K2
        }
      })"

definition task_clone_handles :: "nat option \<Rightarrow> nat option \<Rightarrow> kstate \<Rightarrow> (status \<times> kstate) option" where
  "task_clone_handles dst src K =
     (case (dst, src) of
        (Some d, Some a) \<Rightarrow>
          if d = a then None
          else do {
            t \<leftarrow> k_tasks K a;
            (s, K1) \<leftarrow> task_grow_handles_locked d (handle_capacity t) K;
            if s \<noteq> OK then Some (ERR, K1)
            else do { K2 \<leftarrow> clone_loop d a 0 (t_handles t) K1; Some (OK, K2) }
          }
      | _ \<Rightarrow> Some (ERR, K))"


section \<open>The life of a task\<close>

abbreviation (input) TASK_NAME_MAX :: nat where "TASK_NAME_MAX \<equiv> 64"

definition task_name_copy :: "string \<Rightarrow> kstate \<Rightarrow> string option \<times> kstate" where
  "task_name_copy name K =
     (if name = [] \<or> length name \<ge> TASK_NAME_MAX then (None, K)
      else let (ok, K1) = slab_answer K in if ok then (Some name, K1) else (None, K1))"

definition new_task :: "u32 \<Rightarrow> string \<Rightarrow> nat \<Rightarrow> bool \<Rightarrow> task" where
  "new_task pid name space owns =
     \<lparr>t_pid = pid, t_name = name, t_ref_count = 1, t_dead = False, t_killing = False,
      t_thread_count = 0, t_vm_space = Some space, t_owns_vm_space = owns,
      t_ipc_affinity_cpu = 0, t_ipc_affinity_valid = False,
      t_vm = \<lparr>vm_regions = [], vm_region_capacity = 0, vm_allocs = []\<rparr>,
      t_reply_port = None, t_handles = []\<rparr>"

definition task_create_with_vm_ownership ::
  "string \<Rightarrow> nat option \<Rightarrow> bool \<Rightarrow> kstate \<Rightarrow> nat option \<times> kstate" where
  "task_create_with_vm_ownership name vm_space owns K =
     (case vm_space of
        None \<Rightarrow> (None, K)
      | Some space \<Rightarrow>
          (case task_name_copy name K of
             (None, K1) \<Rightarrow> (None, K1)
           | (Some owned, K1) \<Rightarrow>
               (let (ok, K2) = slab_answer K1
                in if \<not> ok then (None, K2)
                   else let a = k_next_addr K2; pid = k_next_pid K2;
                            K3 = K2\<lparr>k_next_pid := pid + 1\<rparr>
                        in if k_tasks_by_pid K3 pid \<noteq> None then (None, K3)
                           else (Some a,
                                 set_task a (new_task pid owned space owns)
                                   K3\<lparr>k_next_addr := a + 1,
                                      k_tasks_by_pid := (k_tasks_by_pid K3)(pid \<mapsto> a)\<rparr>))))"

definition task_find_by_id_retain :: "u32 \<Rightarrow> kstate \<Rightarrow> (nat option \<times> kstate) option" where
  "task_find_by_id_retain pid K =
     (case k_tasks_by_pid K pid of
        None \<Rightarrow> Some (None, K)
      | Some a \<Rightarrow> do {
          (s, K1) \<leftarrow> task_retain (Some a) K;
          Some (if s = OK then Some a else None, K1)
        })"

text \<open>
  What reaping a dead thread does to its task (\<^verbatim>\<open>sched_reap_thread\<close>): the last thread
  marks the task dead and gives up the reference the task was created with.
\<close>

definition task_thread_gone :: "nat \<Rightarrow> kstate \<Rightarrow> kstate option" where
  "task_thread_gone a K = do {
     t \<leftarrow> k_tasks K a;
     let t1 = t\<lparr>t_thread_count := (if t_thread_count t > 0 then t_thread_count t - 1
                                    else t_thread_count t)\<rparr>;
         teardown = (t_thread_count t1 = 0 \<and> a \<noteq> k_kernel_task K);
         t2 = (if teardown then t1\<lparr>t_dead := True\<rparr> else t1);
         K1 = set_task a t2 K
     in if teardown then task_release (Some a) K1 else Some K1
   }"

definition task_discard_unstarted :: "nat option \<Rightarrow> kstate \<Rightarrow> (status \<times> kstate) option" where
  "task_discard_unstarted task K =
     (case task of
        None \<Rightarrow> Some (ERR, K)
      | Some a \<Rightarrow>
          if a = k_kernel_task K then Some (ERR, K)
          else do {
            t \<leftarrow> k_tasks K a;
            if t_dead t \<or> t_thread_count t \<noteq> 0 then Some (ERR, K)
            else do {
              K1 \<leftarrow> task_release (Some a) (set_task a (t\<lparr>t_killing := True, t_dead := True\<rparr>) K);
              Some (OK, K1)
            }
          })"

definition task_reply_port :: "nat option \<Rightarrow> kstate \<Rightarrow> (nat option \<times> kstate) option" where
  "task_reply_port task K =
     (case task of
        None \<Rightarrow> Some (None, K)
      | Some a \<Rightarrow> do {
          t \<leftarrow> k_tasks K a;
          (case t_reply_port t of
             Some p \<Rightarrow> Some (Some p, K)
           | None \<Rightarrow>
               do {
                 (port, K1) \<leftarrow> ipc_port_create_private ''reply'' K;
                 K2 \<leftarrow> ipc_port_retain port (set_task a (t\<lparr>t_reply_port := port\<rparr>) K1);
                 Some (port, K2)
               })
        })"

end
