(* ===== verification/Ipc.thy ===== *)
theory Ipc
  imports Handles
begin

text \<open>
  Message passing (\<^verbatim>\<open>kernel/ipc.c\<close>): sending to a port, receiving from one port or from
  several, and what blocking, waking and killing threads does to the ports.

  A blocking receive is split where the thread gives up the processor: the call up to there
  (\<open>ipc_recv\<close>, \<open>ipc_recv_any\<close>) and the part after the thread has been woken (\<open>ipc_recv_resume\<close>,
  \<open>ipc_recv_any_resume\<close>), which may wait again. The wait record of a receive is a local variable
  of the blocked thread; it is stored under the thread's own address, exists while the call is
  active and is gone when the call has returned or the thread has been freed.
\<close>

section \<open>References held by messages\<close>

definition ipc_message_retain :: "ipc_message \<Rightarrow> kstate \<Rightarrow> kstate option" where
  "ipc_message_retain m K = do {
     K1 \<leftarrow> ipc_port_retain (m_reply_port m) K;
     (case m_cap_type m of
        IPC_CAP_PORT \<Rightarrow> ipc_port_retain (m_cap_object m) K1
      | IPC_CAP_BUFFER \<Rightarrow> buffer_retain (m_cap_object m) K1
      | IPC_CAP_TASK \<Rightarrow> map_option snd (task_retain (m_cap_object m) K1)
      | IPC_CAP_HW_RESOURCE \<Rightarrow> map_option snd (task_hw_resource_retain (m_cap_object m) K1)
      | IPC_CAP_SCHED_POLICY \<Rightarrow> map_option snd (sched_policy_cap_retain (m_cap_object m) K1)
      | IPC_CAP_NONE \<Rightarrow> Some K1)
   }"

definition clear_message :: "ipc_message \<Rightarrow> ipc_message" where
  "clear_message m =
     m\<lparr>m_reply_port := None, m_cap_type := IPC_CAP_NONE, m_cap_object := None, m_cap_rights := 0\<rparr>"

definition ipc_message_release :: "ipc_message \<Rightarrow> kstate \<Rightarrow> (ipc_message \<times> kstate) option" where
  "ipc_message_release m K = do {
     K1 \<leftarrow> (case m_cap_type m of
              IPC_CAP_PORT \<Rightarrow> ipc_port_release (m_cap_object m) K
            | IPC_CAP_BUFFER \<Rightarrow> buffer_release (m_cap_object m) K
            | IPC_CAP_TASK \<Rightarrow> task_release (m_cap_object m) K
            | IPC_CAP_HW_RESOURCE \<Rightarrow> task_hw_resource_release (m_cap_object m) K
            | IPC_CAP_SCHED_POLICY \<Rightarrow> sched_policy_cap_release (m_cap_object m) K
            | IPC_CAP_NONE \<Rightarrow> Some K);
     K2 \<leftarrow> ipc_port_release (m_reply_port m) K1;
     Some (clear_message m, K2)
   }"

definition message_free :: "ipc_message \<Rightarrow> kstate \<Rightarrow> kstate option" where
  "message_free m K = map_option snd (ipc_message_release m K)"


section \<open>Counters and threads\<close>

abbreviation (input) IPC_STATS_CPUS :: u32 where "IPC_STATS_CPUS \<equiv> 8"

definition ipc_stats_inc :: "u32 \<Rightarrow> ipc_stat \<Rightarrow> kstate \<Rightarrow> kstate" where
  "ipc_stats_inc cpu c K =
     K\<lparr>k_stats := (k_stats K)(c := k_stats K c + 1),
       k_cpu_stats := (if cpu < IPC_STATS_CPUS
         then (k_cpu_stats K)(c := (k_cpu_stats K c)(cpu := k_cpu_stats K c cpu + 1))
         else k_cpu_stats K)\<rparr>"

definition set_thread :: "nat \<Rightarrow> kthread \<Rightarrow> kstate \<Rightarrow> kstate" where
  "set_thread th t K = K\<lparr>k_threads := (k_threads K)(th \<mapsto> t)\<rparr>"

definition thread_unblock :: "nat option \<Rightarrow> kstate \<Rightarrow> kstate option" where
  "thread_unblock thread K =
     (case thread of
        None \<Rightarrow> Some K
      | Some th \<Rightarrow> do {
          t \<leftarrow> k_threads K th;
          Some (if th_state t \<noteq> THREAD_BLOCKED then K
                else set_thread th (t\<lparr>th_state := THREAD_READY\<rparr>) K)
        })"

text \<open>
  What \<^verbatim>\<open>thread_handoff\<close> asks of the CPU it runs on: its number, whether its
  scheduler is running rather than a thread, and how many handoffs are under way.
\<close>

record cpu_env =
  ce_id :: u32
  ce_scheduler :: bool
  ce_handoff_depth :: u32

datatype handoff =
    THREAD_HANDOFF_INVALID
  | THREAD_HANDOFF_DIRECT
  | THREAD_HANDOFF_CROSS_CPU
  | THREAD_HANDOFF_NESTED
  | THREAD_HANDOFF_SCHEDULER
  | Handoff_Exit

definition thread_task_is_killing :: "nat option \<Rightarrow> kstate \<Rightarrow> bool option" where
  "thread_task_is_killing task K =
     (case task of None \<Rightarrow> Some False | Some a \<Rightarrow> map_option t_killing (k_tasks K a))"

text \<open>
  \<open>current\<close> is the task of the running thread; when it is being killed the thread exits instead
  of handing over (\<open>Handoff_Exit\<close>). A direct handoff switches to the receiver and returns when
  the sender is scheduled again; what runs in between are steps of other threads.
\<close>

definition thread_handoff ::
  "cpu_env \<Rightarrow> nat option \<Rightarrow> nat option \<Rightarrow> kstate \<Rightarrow> (handoff \<times> kstate) option" where
  "thread_handoff env current thread K =
     (case thread of
        None \<Rightarrow> Some (THREAD_HANDOFF_INVALID, K)
      | Some th \<Rightarrow> do {
          t \<leftarrow> k_threads K th;
          if th_state t \<noteq> THREAD_BLOCKED then Some (THREAD_HANDOFF_INVALID, K)
          else do {
            killing \<leftarrow> thread_task_is_killing current K;
            woken \<leftarrow> thread_unblock thread K;
            Some (if ce_scheduler env then (THREAD_HANDOFF_SCHEDULER, woken)
                  else if th_cpu t \<noteq> ce_id env then (THREAD_HANDOFF_CROSS_CPU, woken)
                  else if ce_handoff_depth env \<noteq> 0 then (THREAD_HANDOFF_NESTED, woken)
                  else if killing then (Handoff_Exit, woken)
                  else (THREAD_HANDOFF_DIRECT, set_thread th (t\<lparr>th_state := THREAD_RUNNING\<rparr>) K))
          }
        })"

definition handoff_stat :: "handoff \<Rightarrow> ipc_stat" where
  "handoff_stat h =
     (case h of
        THREAD_HANDOFF_DIRECT \<Rightarrow> DIRECT_HANDOFF
      | THREAD_HANDOFF_CROSS_CPU \<Rightarrow> FALLBACK_CROSS_CPU
      | THREAD_HANDOFF_NESTED \<Rightarrow> FALLBACK_NESTED
      | THREAD_HANDOFF_SCHEDULER \<Rightarrow> FALLBACK_SCHEDULER
      | _ \<Rightarrow> FALLBACK_INVALID)"

definition task_id :: "nat option \<Rightarrow> kstate \<Rightarrow> u32 option" where
  "task_id task K = (case task of None \<Rightarrow> Some 0 | Some a \<Rightarrow> map_option t_pid (k_tasks K a))"


section \<open>Sending\<close>

text \<open>A blocked receiver of an empty port gets the message at once; \<open>Some th\<close> is that receiver.\<close>

definition deliver_direct :: "u32 \<Rightarrow> nat \<Rightarrow> ipc_message \<Rightarrow> kstate \<Rightarrow> (nat option \<times> kstate) option" where
  "deliver_direct cpu a m K = do {
     _ \<leftarrow> ipc_lock K;
     p \<leftarrow> k_ports K a;
     let K1 = ipc_stats_inc cpu SENDS K in
     (case (p_receiver p, p_receiver_wait p) of
        (Some th, Some w) \<Rightarrow> do {
          wait \<leftarrow> k_waits K1 w;
          if \<not> w_delivered wait \<and> p_queue p = []
          then Some (Some th,
                 ipc_stats_inc cpu DIRECT_DELIVERED
                   (set_port a (p\<lparr>p_receiver := None, p_receiver_wait := None\<rparr>)
                     K1\<lparr>k_waits := (k_waits K1)(w \<mapsto>
                          \<lparr>w_message = m, w_index = p_receiver_index p, w_delivered = True\<rparr>)\<rparr>))
          else Some (None, K1)
        }
      | _ \<Rightarrow> Some (None, K1))
   }"

definition enqueue_message :: "u32 \<Rightarrow> nat \<Rightarrow> ipc_message \<Rightarrow> kstate \<Rightarrow> kstate option" where
  "enqueue_message cpu a m K = do {
     _ \<leftarrow> ipc_lock K;
     p \<leftarrow> k_ports K a;
     let K1 = ipc_stats_inc cpu QUEUED
               (set_port a (p\<lparr>p_queue := p_queue p @ [m], p_queued := p_queued p + 1,
                             p_receiver := None,
                             p_receiver_wait := (if p_receiver p \<noteq> None then None
                                                 else p_receiver_wait p)\<rparr>) K) in
     thread_unblock (p_receiver p) K1
   }"

text \<open>\<open>Sender_Exits\<close>: the call does not return, for its thread has exited.\<close>

datatype send_outcome = Sent | Send_Failed | Sender_Exits

definition ipc_send ::
  "cpu_env \<Rightarrow> nat option \<Rightarrow> nat option \<Rightarrow> ipc_message \<Rightarrow> kstate \<Rightarrow> (send_outcome \<times> kstate) option"
where
  "ipc_send env current port message K =
     (case port of
        None \<Rightarrow> Some (Send_Failed, K)
      | Some a \<Rightarrow> do {
          sender \<leftarrow> task_id current K;
          let m = message\<lparr>m_sender := sender\<rparr> in
          do {
            K1 \<leftarrow> ipc_message_retain m K;
            (receiver, K2) \<leftarrow> deliver_direct (ce_id env) a m K1;
            (case receiver of
               Some th \<Rightarrow>
                 if m_reply_port message \<noteq> None
                 then do { K3 \<leftarrow> thread_unblock (Some th) K2; Some (Sent, K3) }
                 else do {
                   (h, K3) \<leftarrow> thread_handoff env current (Some th) K2;
                   if h = Handoff_Exit then Some (Sender_Exits, K3)
                   else do {
                     _ \<leftarrow> ipc_lock K3;
                     Some (if h = THREAD_HANDOFF_INVALID then Send_Failed else Sent,
                           ipc_stats_inc (ce_id env) (handoff_stat h) K3)
                   }
                 }
             | None \<Rightarrow> do {
                 (_, K3) \<leftarrow> ipc_message_release m K2;
                 let (ok, K4) = slab_answer K3 in
                 if \<not> ok then Some (Send_Failed, K4)
                 else do {
                   K5 \<leftarrow> ipc_message_retain m K4;
                   K6 \<leftarrow> enqueue_message (ce_id env) a m K5;
                   Some (Sent, K6)
                 }
               })
          }
        })"


section \<open>Receiving\<close>

datatype recv_outcome =
    Received ipc_message u64
  | Waiting
  | Nothing
  | Refused
  | Exited

definition empty_message :: ipc_message where
  "empty_message = \<lparr>m_protocol = 0, m_type = 0, m_sender = 0, m_cap_rights = 0, m_reply_port = None,
     m_cap_type = IPC_CAP_NONE, m_cap_object = None, m_words = [0, 0, 0, 0]\<rparr>"

definition open_wait :: "nat \<Rightarrow> kstate \<Rightarrow> kstate" where
  "open_wait th K = K\<lparr>k_waits := (k_waits K)(th \<mapsto>
     \<lparr>w_message = empty_message, w_index = 0, w_delivered = False\<rparr>)\<rparr>"

definition close_wait :: "nat \<Rightarrow> kstate \<Rightarrow> kstate" where
  "close_wait th K = K\<lparr>k_waits := (k_waits K)(th := None)\<rparr>"

definition note_receiver_cpu :: "u32 \<Rightarrow> nat \<Rightarrow> kstate \<Rightarrow> kstate option" where
  "note_receiver_cpu cpu a K = do {
     p \<leftarrow> k_ports K a;
     Some (set_port a (p\<lparr>p_affinity_cpu := cpu, p_affinity_valid := True\<rparr>) K)
   }"

text \<open>The head of the queue moves to the caller; the node is cleared and freed.\<close>

definition take_message :: "nat \<Rightarrow> kstate \<Rightarrow> (ipc_message option \<times> kstate) option" where
  "take_message a K = do {
     p \<leftarrow> k_ports K a;
     (case p_queue p of
        [] \<Rightarrow> Some (None, K)
      | m # rest \<Rightarrow> do {
          K1 \<leftarrow> message_free (clear_message m)
                 (set_port a (p\<lparr>p_queue := rest, p_queued := p_queued p - 1\<rparr>) K);
          Some (Some m, K1)
        })
   }"

text \<open>
  \<^verbatim>\<open>thread_prepare_block\<close>: \<open>True\<close> when the task is being killed, for then the call is
  \<^verbatim>\<open>thread_exit\<close> and does not return.
\<close>

definition thread_prepare_block :: "nat \<Rightarrow> kstate \<Rightarrow> (bool \<times> kstate) option" where
  "thread_prepare_block th K = do {
     t \<leftarrow> k_threads K th;
     tk \<leftarrow> k_tasks K (th_task t);
     Some (if t_killing tk then (True, set_thread th (t\<lparr>th_state := THREAD_DEAD\<rparr>) K)
           else (False, set_thread th (t\<lparr>th_state := THREAD_BLOCKED\<rparr>) K))
   }"

fun register_receiver :: "nat \<Rightarrow> u64 \<Rightarrow> nat list \<Rightarrow> kstate \<Rightarrow> kstate option" where
  "register_receiver th i [] K = Some K"
| "register_receiver th i (a # ports) K = do {
     p \<leftarrow> k_ports K a;
     register_receiver th (i + 1) ports
       (set_port a (p\<lparr>p_receiver := Some th, p_receiver_wait := Some th, p_receiver_index := i\<rparr>) K)
   }"

text \<open>One round of the loop of \<^verbatim>\<open>ipc_recv\<close>, with \<^verbatim>\<open>ipc_lock\<close> held.\<close>

definition recv_round :: "nat \<Rightarrow> nat \<Rightarrow> kstate \<Rightarrow> (recv_outcome \<times> kstate) option" where
  "recv_round th a K = do {
     (taken, K1) \<leftarrow> take_message a K;
     (case taken of
        Some m \<Rightarrow> Some (Received m 0, close_wait th K1)
      | None \<Rightarrow> do {
          w \<leftarrow> k_waits K1 th;
          let K2 = K1\<lparr>k_waits := (k_waits K1)(th \<mapsto> w\<lparr>w_delivered := False\<rparr>)\<rparr> in
          do {
            (exits, K3) \<leftarrow> thread_prepare_block th K2;
            if exits then Some (Exited, K3\<lparr>k_ipc_locked := True\<rparr>)
            else do { K4 \<leftarrow> register_receiver th 0 [a] K3; Some (Waiting, K4) }
          }
        })
   }"

definition ipc_recv :: "u32 \<Rightarrow> nat \<Rightarrow> nat option \<Rightarrow> kstate \<Rightarrow> (recv_outcome \<times> kstate) option" where
  "ipc_recv cpu th port K =
     (case port of
        None \<Rightarrow> Some (Refused, K)
      | Some a \<Rightarrow> do {
          _ \<leftarrow> ipc_lock K;
          K1 \<leftarrow> note_receiver_cpu cpu a (open_wait th K);
          recv_round th a K1
        })"

definition ipc_recv_resume :: "nat \<Rightarrow> nat \<Rightarrow> kstate \<Rightarrow> (recv_outcome \<times> kstate) option" where
  "ipc_recv_resume th a K = do {
     _ \<leftarrow> ipc_lock K;
     w \<leftarrow> k_waits K th;
     if w_delivered w then Some (Received (w_message w) 0, close_wait th K)
     else recv_round th a K
   }"

definition ipc_try_recv :: "u32 \<Rightarrow> nat option \<Rightarrow> kstate \<Rightarrow> (recv_outcome \<times> kstate) option" where
  "ipc_try_recv cpu port K =
     (case port of
        None \<Rightarrow> Some (Refused, K)
      | Some a \<Rightarrow> do {
          _ \<leftarrow> ipc_lock K;
          K1 \<leftarrow> note_receiver_cpu cpu a K;
          (taken, K2) \<leftarrow> take_message a K1;
          Some (case taken of Some m \<Rightarrow> Received m 0 | None \<Rightarrow> Nothing, K2)
        })"


section \<open>Receiving from several ports\<close>

fun note_receiver_cpus :: "u32 \<Rightarrow> nat list \<Rightarrow> kstate \<Rightarrow> kstate option" where
  "note_receiver_cpus cpu [] K = Some K"
| "note_receiver_cpus cpu (a # ports) K = do {
     K1 \<leftarrow> note_receiver_cpu cpu a K;
     note_receiver_cpus cpu ports K1
   }"

fun take_first :: "u64 \<Rightarrow> nat list \<Rightarrow> kstate \<Rightarrow> ((ipc_message \<times> u64) option \<times> kstate) option" where
  "take_first i [] K = Some (None, K)"
| "take_first i (a # ports) K = do {
     (taken, K1) \<leftarrow> take_message a K;
     (case taken of Some m \<Rightarrow> Some (Some (m, i), K1) | None \<Rightarrow> take_first (i + 1) ports K1)
   }"

fun clear_receiver :: "nat \<Rightarrow> nat list \<Rightarrow> kstate \<Rightarrow> kstate option" where
  "clear_receiver th [] K = Some K"
| "clear_receiver th (a # ports) K = do {
     p \<leftarrow> k_ports K a;
     clear_receiver th ports
       (if p_receiver p = Some th
        then set_port a (p\<lparr>p_receiver := None, p_receiver_wait := None\<rparr>) K else K)
   }"

definition any_round :: "u32 \<Rightarrow> nat \<Rightarrow> nat list \<Rightarrow> kstate \<Rightarrow> (recv_outcome \<times> kstate) option" where
  "any_round cpu th ports K = do {
     K1 \<leftarrow> note_receiver_cpus cpu ports K;
     (taken, K2) \<leftarrow> take_first 0 ports K1;
     (case taken of
        Some (m, i) \<Rightarrow> Some (Received m i, close_wait th K2)
      | None \<Rightarrow> do {
          (exits, K3) \<leftarrow> thread_prepare_block th K2;
          if exits then Some (Exited, K3\<lparr>k_ipc_locked := True\<rparr>)
          else do { K4 \<leftarrow> register_receiver th 0 ports K3; Some (Waiting, K4) }
        })
   }"

abbreviation (input) IPC_RECV_ANY_MAX :: nat where "IPC_RECV_ANY_MAX \<equiv> 4"

definition ipc_recv_any ::
  "u32 \<Rightarrow> nat \<Rightarrow> nat option list \<Rightarrow> kstate \<Rightarrow> (recv_outcome \<times> kstate) option" where
  "ipc_recv_any cpu th ports K =
     (if ports = [] \<or> length ports > IPC_RECV_ANY_MAX \<or> None \<in> set ports \<or> \<not> distinct ports
      then Some (Refused, K)
      else do {
        _ \<leftarrow> ipc_lock K;
        any_round cpu th (map the ports) (open_wait th K)
      })"

definition ipc_recv_any_resume ::
  "u32 \<Rightarrow> nat \<Rightarrow> nat list \<Rightarrow> kstate \<Rightarrow> (recv_outcome \<times> kstate) option" where
  "ipc_recv_any_resume cpu th ports K = do {
     _ \<leftarrow> ipc_lock K;
     K1 \<leftarrow> clear_receiver th ports K;
     w \<leftarrow> k_waits K1 th;
     if w_delivered w then Some (Received (w_message w) (w_index w), close_wait th K1)
     else any_round cpu th ports K1
   }"


section \<open>Killing threads\<close>

text \<open>The walk over the ports by id: a port is visited when the index holds it.\<close>

definition ipc_cancel_thread :: "nat option \<Rightarrow> kstate \<Rightarrow> kstate option" where
  "ipc_cancel_thread thread K =
     (case thread of
        None \<Rightarrow> Some K
      | Some th \<Rightarrow> do {
          _ \<leftarrow> ipc_lock K;
          Some (K\<lparr>k_ports := (\<lambda>a. map_option
            (\<lambda>p. if p_receiver p = Some th \<and> k_ports_by_id K (p_id p) = Some a
                  then p\<lparr>p_receiver := None, p_receiver_wait := None\<rparr> else p) (k_ports K a))\<rparr>)
        })"

text \<open>The body of the first loop of \<^verbatim>\<open>task_kill\<close>, for a thread that is blocked.\<close>

definition kill_blocked_thread :: "nat \<Rightarrow> kstate \<Rightarrow> kstate option" where
  "kill_blocked_thread th K = do {
     t \<leftarrow> k_threads K th;
     if th_state t = THREAD_BLOCKED
     then do { K1 \<leftarrow> ipc_cancel_thread (Some th) K; thread_unblock (Some th) K1 }
     else Some K
   }"

definition sched_reap_thread :: "nat option \<Rightarrow> kstate \<Rightarrow> kstate option" where
  "sched_reap_thread thread K =
     (case thread of
        None \<Rightarrow> Some K
      | Some th \<Rightarrow> do {
          t \<leftarrow> k_threads K th;
          if th_state t \<noteq> THREAD_DEAD then Some K
          else task_thread_gone (th_task t)
                 (close_wait th (K\<lparr>k_threads := (k_threads K)(th := None)\<rparr>))
        })"

text \<open>\<^verbatim>\<open>sched_cancel_ready_task\<close> for one thread of the task.\<close>

definition cancel_ready_thread :: "nat \<Rightarrow> kstate \<Rightarrow> kstate option" where
  "cancel_ready_thread th K = do {
     t \<leftarrow> k_threads K th;
     if th_state t = THREAD_READY
     then sched_reap_thread (Some th) (set_thread th (t\<lparr>th_state := THREAD_DEAD\<rparr>) K)
     else Some K
   }"

end
