(* ===== verification/Objects_Proofs.thy ===== *)
theory Objects_Proofs
  imports Ipc Vm_Regions_Spec "HOL-Library.Multiset"
begin

text \<open>
  Reference counting of the kernel objects. The references that the stores hold (handles,
  reply ports, queued messages) form a multiset; code in the middle of a call holds further
  ones, the argument \<open>ext\<close>. The invariant \<open>kernel_ok K ext\<close> says that every reference is to an
  object that is still allocated and that each count is exactly the number of references.
  Retaining and releasing objects keep it, tasks with everything they own included.
\<close>

section \<open>Sums over finite maps\<close>

definition map_sum :: "('v \<Rightarrow> 'a multiset) \<Rightarrow> ('k \<rightharpoonup> 'v) \<Rightarrow> 'a multiset" where
  "map_sum f m = (\<Sum>a\<in>dom m. f (the (m a)))"

lemma map_sum_update:
  assumes "finite (dom m)" and "m a = Some x"
  shows "map_sum f (m(a \<mapsto> y)) + f x = map_sum f m + f y"
proof -
  have eq: "(\<Sum>b\<in>dom m - {a}. f (the ((m(a \<mapsto> y)) b))) = (\<Sum>b\<in>dom m - {a}. f (the (m b)))"
    by (rule sum.cong) auto
  have "map_sum f (m(a \<mapsto> y)) = f y + (\<Sum>b\<in>dom m - {a}. f (the (m b)))"
    unfolding map_sum_def eq [symmetric] using assms by (subst sum.remove [of _ a]) (auto simp: insert_absorb)
  moreover have "map_sum f m = f x + (\<Sum>b\<in>dom m - {a}. f (the (m b)))"
    unfolding map_sum_def using assms by (subst sum.remove [of _ a]) auto
  ultimately show ?thesis by (simp add: ac_simps)
qed

lemma map_sum_delete:
  assumes "finite (dom m)" and "m a = Some x"
  shows "map_sum f (m(a := None)) + f x = map_sum f m"
proof -
  have "(\<Sum>b\<in>dom m - {a}. f (the ((m(a := None)) b))) = (\<Sum>b\<in>dom m - {a}. f (the (m b)))"
    by (rule sum.cong) auto
  then show ?thesis
    unfolding map_sum_def using assms by (simp add: sum.remove [of "dom m" a] domI add.commute)
qed

lemma map_sum_insert:
  assumes "finite (dom m)" and "m a = None"
  shows "map_sum f (m(a \<mapsto> y)) = map_sum f m + f y"
proof -
  have "(\<Sum>b\<in>dom m. f (the ((m(a \<mapsto> y)) b))) = (\<Sum>b\<in>dom m. f (the (m b)))"
    using assms(2) by (intro sum.cong) auto
  then show ?thesis
    unfolding map_sum_def using assms by (simp add: domIff add.commute)
qed

lemma map_sum_cong:
  assumes "dom m = dom m'" and "\<And>a x y. m a = Some x \<Longrightarrow> m' a = Some y \<Longrightarrow> f x = f y"
  shows "map_sum f m = map_sum f m'"
  unfolding map_sum_def using assms by (intro sum.cong) (auto, metis domI domD option.sel)


section \<open>References\<close>

datatype kobj = KPort nat | KBuffer nat | KTask nat | KHw nat | KPolicy nat

definition handle_obj :: "task_handle_type \<Rightarrow> nat option \<Rightarrow> kobj multiset" where
  "handle_obj ty object =
     (case object of
        None \<Rightarrow> {#}
      | Some a \<Rightarrow>
          (case ty of
             TASK_HANDLE_EMPTY \<Rightarrow> {#}
           | TASK_HANDLE_PORT \<Rightarrow> {#KPort a#}
           | TASK_HANDLE_TASK \<Rightarrow> {#KTask a#}
           | TASK_HANDLE_BUFFER \<Rightarrow> {#KBuffer a#}
           | TASK_HANDLE_HW_RESOURCE \<Rightarrow> {#KHw a#}
           | TASK_HANDLE_SCHED_POLICY \<Rightarrow> {#KPolicy a#}))"

definition handle_refs :: "task_handle \<Rightarrow> kobj multiset" where
  "handle_refs h = handle_obj (h_type h) (h_object h)"

definition port_ref :: "nat option \<Rightarrow> kobj multiset" where
  "port_ref port = (case port of None \<Rightarrow> {#} | Some a \<Rightarrow> {#KPort a#})"

definition cap_obj :: "ipc_cap_type \<Rightarrow> nat option \<Rightarrow> kobj multiset" where
  "cap_obj ty object =
     (case object of
        None \<Rightarrow> {#}
      | Some a \<Rightarrow>
          (case ty of
             IPC_CAP_NONE \<Rightarrow> {#}
           | IPC_CAP_PORT \<Rightarrow> {#KPort a#}
           | IPC_CAP_BUFFER \<Rightarrow> {#KBuffer a#}
           | IPC_CAP_TASK \<Rightarrow> {#KTask a#}
           | IPC_CAP_HW_RESOURCE \<Rightarrow> {#KHw a#}
           | IPC_CAP_SCHED_POLICY \<Rightarrow> {#KPolicy a#}))"

definition message_refs :: "ipc_message \<Rightarrow> kobj multiset" where
  "message_refs m = cap_obj (m_cap_type m) (m_cap_object m) + port_ref (m_reply_port m)"

definition handles_refs :: "task_handle list \<Rightarrow> kobj multiset" where
  "handles_refs hs = sum_list (map handle_refs hs)"

definition task_refs :: "task \<Rightarrow> kobj multiset" where
  "task_refs t = handles_refs (t_handles t) + port_ref (t_reply_port t)"

definition queue_refs :: "ipc_port \<Rightarrow> kobj multiset" where
  "queue_refs p = sum_list (map message_refs (p_queue p))"

definition held :: "kstate \<Rightarrow> kobj multiset" where
  "held K = map_sum task_refs (k_tasks K) + map_sum queue_refs (k_ports K)"

fun alive :: "kstate \<Rightarrow> kobj \<Rightarrow> bool" where
  "alive K (KPort a) = (k_ports K a \<noteq> None)"
| "alive K (KBuffer a) = (k_buffers K a \<noteq> None)"
| "alive K (KTask a) = (k_tasks K a \<noteq> None)"
| "alive K (KHw a) = (k_hws K a \<noteq> None)"
| "alive K (KPolicy a) = (k_policies K a \<noteq> None)"

text \<open>
  The count an object keeps. The task of the kernel itself and hardware resources without
  \<^verbatim>\<open>TASK_HW_RESOURCE_OWNED\<close> are not counted: they are never freed.
\<close>

definition hw_owned :: "task_hw_resource \<Rightarrow> bool" where
  "hw_owned h \<longleftrightarrow> hw_flags h AND TASK_HW_RESOURCE_OWNED \<noteq> 0"

fun refcount :: "kstate \<Rightarrow> kobj \<Rightarrow> nat option" where
  "refcount K (KPort a) = map_option (\<lambda>p. unat (p_ref_count p)) (k_ports K a)"
| "refcount K (KBuffer a) = map_option (\<lambda>b. unat (b_ref_count b)) (k_buffers K a)"
| "refcount K (KTask a) =
     (if a = k_kernel_task K then None else map_option (\<lambda>t. unat (t_ref_count t)) (k_tasks K a))"
| "refcount K (KHw a) =
     (case k_hws K a of Some h \<Rightarrow> if hw_owned h then Some (unat (hw_ref_count h)) else None
                      | None \<Rightarrow> None)"
| "refcount K (KPolicy a) = map_option (\<lambda>c. unat (sp_ref_count c)) (k_policies K a)"

definition refs_ok :: "kstate \<Rightarrow> kobj multiset \<Rightarrow> bool" where
  "refs_ok K ext \<longleftrightarrow>
     (\<forall>x \<in># held K + ext. alive K x) \<and>
     (\<forall>x n. refcount K x = Some n \<longrightarrow> n = count (held K + ext) x)"

lemma refs_ok_alive: "refs_ok K ext \<Longrightarrow> x \<in># held K + ext \<Longrightarrow> alive K x"
  by (auto simp: refs_ok_def)

lemma refs_ok_count: "refs_ok K ext \<Longrightarrow> refcount K x = Some n \<Longrightarrow> n = count (held K + ext) x"
  by (auto simp: refs_ok_def)

lemma refs_ok_move:
  assumes "refs_ok K ext" and "refcount K' = refcount K" and "alive K' = alive K"
    and "held K' + ext' = held K + ext"
  shows "refs_ok K' ext'"
  using assms by (simp add: refs_ok_def)

lemma refs_ok_inc:
  assumes "refs_ok K ext" and "refcount K' = (refcount K)(x := map_option Suc (refcount K x))"
    and "alive K' = alive K" and "held K' = held K" and "alive K x"
  shows "refs_ok K' (ext + {#x#})"
  using assms unfolding refs_ok_def by (auto split: if_splits)

lemma refs_ok_dec:
  assumes "refs_ok K (ext + {#x#})"
    and "refcount K' = (refcount K)(x := map_option (\<lambda>n. n - 1) (refcount K x))"
    and "alive K' = alive K" and "held K' = held K"
  shows "refs_ok K' ext"
proof -
  have "n = count (held K' + ext) y" if r: "refcount K' y = Some n" for y n
  proof (cases "y = x")
    case True
    then obtain k where "refcount K x = Some k" "n = k - 1"
      using r assms(2) by auto
    then show ?thesis
      using refs_ok_count [OF assms(1), of x k] True assms(4) by simp
  next
    case False
    then show ?thesis
      using r refs_ok_count [OF assms(1), of y n] assms(2,4) by simp
  qed
  then show ?thesis
    using assms by (auto simp: refs_ok_def)
qed

lemma refs_ok_free:
  assumes "refs_ok K ext" and "refcount K x = Some 0"
    and "\<And>y. refcount K' y = (if y = x then None else refcount K y)"
    and "\<And>y. alive K' y \<longleftrightarrow> y \<noteq> x \<and> alive K y" and "held K' = held K"
  shows "refs_ok K' ext"
proof -
  have "x \<notin># held K + ext"
    using refs_ok_count [OF assms(1,2)] by (simp add: not_in_iff)
  with assms show ?thesis
    unfolding refs_ok_def by (auto split: if_splits)
qed


section \<open>The invariant\<close>

text \<open>A slot in use has an object.\<close>

definition handle_ok :: "task_handle \<Rightarrow> bool" where
  "handle_ok h \<longleftrightarrow> (h_type h \<noteq> TASK_HANDLE_EMPTY \<longrightarrow> h_object h \<noteq> None)"

definition task_ok :: "task \<Rightarrow> bool" where
  "task_ok t \<longleftrightarrow> table_ok (t_vm t) \<and> length (vm_regions (t_vm t)) < 2 ^ 31 \<and>
     length (t_handles t) < 2 ^ 31 \<and> (\<forall>h \<in> set (t_handles t). handle_ok h)"

text \<open>
  A port with messages has no receiver; a receiver is an existing thread whose wait record is
  alive.
\<close>

definition port_ok :: "kstate \<Rightarrow> ipc_port \<Rightarrow> bool" where
  "port_ok K p \<longleftrightarrow> length (p_queue p) < 2 ^ 32 \<and> p_queued p = of_nat (length (p_queue p)) \<and>
     p_receiver_wait p = p_receiver p \<and> (p_queue p \<noteq> [] \<longrightarrow> p_receiver p = None) \<and>
     (\<forall>th. p_receiver p = Some th \<longrightarrow> k_threads K th \<noteq> None \<and> k_waits K th \<noteq> None)"

definition buffer_ok :: "shared_buffer \<Rightarrow> bool" where
  "buffer_ok b \<longleftrightarrow> length (b_data b) = unat (b_size b)"

definition index_ok :: "kstate \<Rightarrow> bool" where
  "index_ok K \<longleftrightarrow>
     (\<forall>a p. k_ports K a = Some p \<longrightarrow> k_ports_by_id K (p_id p) = Some a) \<and>
     (\<forall>i a. k_ports_by_id K i = Some a \<longrightarrow> (\<exists>p. k_ports K a = Some p \<and> p_id p = i)) \<and>
     (\<forall>n a. k_ports_by_name K n = Some a \<longrightarrow> (\<exists>p. k_ports K a = Some p \<and> p_immortal p \<and> p_name p = n)) \<and>
     (\<forall>i a. k_tasks_by_pid K i = Some a \<longrightarrow> (\<exists>t. k_tasks K a = Some t \<and> t_pid t = i))"

definition stores_ok :: "kstate \<Rightarrow> bool" where
  "stores_ok K \<longleftrightarrow> finite (dom (k_tasks K)) \<and> finite (dom (k_ports K)) \<and>
     (\<forall>a t. k_tasks K a = Some t \<longrightarrow> task_ok t) \<and>
     (\<forall>a p. k_ports K a = Some p \<longrightarrow> port_ok K p) \<and>
     (\<forall>a b. k_buffers K a = Some b \<longrightarrow> buffer_ok b) \<and>
     k_tasks K (k_kernel_task K) \<noteq> None \<and> \<not> k_ipc_locked K \<and>
     (\<forall>a. k_next_addr K \<le> a \<longrightarrow> k_tasks K a = None \<and> k_ports K a = None \<and> k_buffers K a = None \<and>
        k_hws K a = None \<and> k_policies K a = None)"

definition kernel_ok :: "kstate \<Rightarrow> kobj multiset \<Rightarrow> bool" where
  "kernel_ok K ext \<longleftrightarrow> refs_ok K ext \<and> stores_ok K \<and> index_ok K"

lemma kernel_okD:
  assumes "kernel_ok K ext"
  shows "refs_ok K ext" and "stores_ok K" and "index_ok K"
    and "finite (dom (k_tasks K))" and "finite (dom (k_ports K))"
    and "\<not> k_ipc_locked K" and "ipc_lock K = Some ()"
    and "k_tasks K a = Some t \<Longrightarrow> task_ok t" and "k_ports K a = Some p \<Longrightarrow> port_ok K p"
    and "k_tasks K (k_kernel_task K) \<noteq> None"
  using assms by (auto simp: kernel_ok_def stores_ok_def ipc_lock_def)

text \<open>Only counts change, and objects may go away.\<close>

definition sub_map :: "('a \<Rightarrow> 'a \<Rightarrow> bool) \<Rightarrow> ('k \<rightharpoonup> 'a) \<Rightarrow> ('k \<rightharpoonup> 'a) \<Rightarrow> bool" where
  "sub_map R m m' \<longleftrightarrow> (\<forall>a y. m' a = Some y \<longrightarrow> (\<exists>x. m a = Some x \<and> R x y))"

definition shrinks :: "kstate \<Rightarrow> kstate \<Rightarrow> bool" where
  "shrinks K K' \<longleftrightarrow>
     sub_map (\<lambda>t t'. \<exists>n. t' = t\<lparr>t_ref_count := n\<rparr>) (k_tasks K) (k_tasks K') \<and>
     sub_map (\<lambda>p p'. \<exists>n. p' = p\<lparr>p_ref_count := n\<rparr>) (k_ports K) (k_ports K') \<and>
     sub_map (\<lambda>b b'. \<exists>n. b' = b\<lparr>b_ref_count := n\<rparr>) (k_buffers K) (k_buffers K') \<and>
     sub_map (\<lambda>h h'. \<exists>n. h' = h\<lparr>hw_ref_count := n\<rparr>) (k_hws K) (k_hws K') \<and>
     sub_map (\<lambda>c c'. \<exists>n. c' = c\<lparr>sp_ref_count := n\<rparr>) (k_policies K) (k_policies K') \<and>
     sub_map (=) (k_ports_by_id K) (k_ports_by_id K') \<and>
     sub_map (=) (k_tasks_by_pid K) (k_tasks_by_pid K') \<and>
     k_ports_by_name K' = k_ports_by_name K \<and>
     k_threads K' = k_threads K \<and> k_waits K' = k_waits K \<and> k_kernel_task K' = k_kernel_task K \<and>
     k_next_addr K' = k_next_addr K \<and> k_next_port_id K' = k_next_port_id K \<and>
     k_ipc_locked K' = k_ipc_locked K \<and> k_allocs K' = k_allocs K"

lemma sub_map_refl: "(\<And>x. R x x) \<Longrightarrow> sub_map R m m"
  by (auto simp: sub_map_def)

lemma sub_map_trans:
  assumes "\<And>x y z. R x y \<Longrightarrow> R y z \<Longrightarrow> R x z"
  shows "sub_map R m m' \<Longrightarrow> sub_map R m' m'' \<Longrightarrow> sub_map R m m''"
  unfolding sub_map_def using assms by blast

lemma sub_map_upd: "m a = Some x \<Longrightarrow> R x y \<Longrightarrow> (\<And>z. R z z) \<Longrightarrow> sub_map R m (m(a \<mapsto> y))"
  by (auto simp: sub_map_def)

lemma sub_map_del: "(\<And>z. R z z) \<Longrightarrow> sub_map R m (m(a := None))"
  by (auto simp: sub_map_def)

lemma sub_mapD: "sub_map R m m' \<Longrightarrow> m' a = Some y \<Longrightarrow> \<exists>x. m a = Some x \<and> R x y"
  by (auto simp: sub_map_def)

lemma ref_count_refl [simp]:
  "\<exists>n. t = t\<lparr>t_ref_count := n\<rparr>" "\<exists>n. p = p\<lparr>p_ref_count := n\<rparr>" "\<exists>n. b = b\<lparr>b_ref_count := n\<rparr>"
  "\<exists>n. h = h\<lparr>hw_ref_count := n\<rparr>" "\<exists>n. c = c\<lparr>sp_ref_count := n\<rparr>"
  for t :: task and p :: ipc_port and b :: shared_buffer and h :: task_hw_resource
    and c :: sched_policy_cap
  by (rule exI [of _ "t_ref_count t"], simp) (rule exI [of _ "p_ref_count p"], simp,
    rule exI [of _ "b_ref_count b"], simp, rule exI [of _ "hw_ref_count h"], simp,
    rule exI [of _ "sp_ref_count c"], simp)

lemma shrinks_refl [simp]: "shrinks K K"
  unfolding shrinks_def by (simp add: sub_map_refl)

lemma shrinks_trans: "shrinks K K' \<Longrightarrow> shrinks K' K'' \<Longrightarrow> shrinks K K''"
  unfolding shrinks_def by (auto elim!: sub_map_trans [rotated])


lemma task_ok_ref [simp]: "task_ok (t\<lparr>t_ref_count := n\<rparr>) = task_ok t"
  by (simp add: task_ok_def)

lemma port_ok_ref [simp]: "port_ok K (p\<lparr>p_ref_count := n\<rparr>) = port_ok K p"
  by (simp add: port_ok_def)

lemma buffer_ok_ref [simp]: "buffer_ok (b\<lparr>b_ref_count := n\<rparr>) = buffer_ok b"
  by (simp add: buffer_ok_def)

lemma port_ok_cong: "k_threads K' = k_threads K \<Longrightarrow> k_waits K' = k_waits K \<Longrightarrow> port_ok K' p = port_ok K p"
  by (simp add: port_ok_def)

lemma sub_map_dom: "sub_map R m m' \<Longrightarrow> dom m' \<subseteq> dom m"
  by (auto simp: sub_map_def)

lemma sub_map_None: "sub_map R m m' \<Longrightarrow> m a = None \<Longrightarrow> m' a = None"
  by (metis not_None_eq sub_mapD)

lemma shrinksD:
  assumes "shrinks K K'"
  shows "k_tasks K' a = Some t' \<Longrightarrow> \<exists>t n. k_tasks K a = Some t \<and> t' = t\<lparr>t_ref_count := n\<rparr>"
    and "k_ports K' a = Some p' \<Longrightarrow> \<exists>p n. k_ports K a = Some p \<and> p' = p\<lparr>p_ref_count := n\<rparr>"
    and "k_buffers K' a = Some b' \<Longrightarrow> \<exists>b n. k_buffers K a = Some b \<and> b' = b\<lparr>b_ref_count := n\<rparr>"
    and "k_hws K' a = Some h' \<Longrightarrow> \<exists>h n. k_hws K a = Some h \<and> h' = h\<lparr>hw_ref_count := n\<rparr>"
    and "k_policies K' a = Some c' \<Longrightarrow> \<exists>c n. k_policies K a = Some c \<and> c' = c\<lparr>sp_ref_count := n\<rparr>"
    and "k_ports_by_id K' i = Some a \<Longrightarrow> k_ports_by_id K i = Some a"
    and "k_tasks_by_pid K' j = Some a \<Longrightarrow> k_tasks_by_pid K j = Some a"
    and "k_ports_by_name K' = k_ports_by_name K" and "k_threads K' = k_threads K"
    and "k_waits K' = k_waits K" and "k_kernel_task K' = k_kernel_task K"
    and "k_next_addr K' = k_next_addr K" and "k_ipc_locked K' = k_ipc_locked K"
    and "k_allocs K' = k_allocs K"
  using assms unfolding shrinks_def sub_map_def by blast+

lemma shrinks_None:
  assumes "shrinks K K'"
  shows "k_tasks K a = None \<Longrightarrow> k_tasks K' a = None" and "k_ports K a = None \<Longrightarrow> k_ports K' a = None"
    and "k_buffers K a = None \<Longrightarrow> k_buffers K' a = None" and "k_hws K a = None \<Longrightarrow> k_hws K' a = None"
    and "k_policies K a = None \<Longrightarrow> k_policies K' a = None"
  using shrinksD(1-5) [OF assms] by (metis not_None_eq)+

lemma shrinks_dom:
  assumes "shrinks K K'"
  shows "dom (k_tasks K') \<subseteq> dom (k_tasks K)" and "dom (k_ports K') \<subseteq> dom (k_ports K)"
  using shrinksD(1,2) [OF assms] by blast+

lemma stores_ok_shrinks:
  assumes ok: "stores_ok K" and sh: "shrinks K K'" and kt: "k_tasks K' (k_kernel_task K') \<noteq> None"
  shows "stores_ok K'"
proof -
  have "finite (dom (k_tasks K'))" "finite (dom (k_ports K'))"
    using ok shrinks_dom [OF sh] by (auto simp: stores_ok_def intro: finite_subset)
  moreover have "task_ok t'" if "k_tasks K' a = Some t'" for a t'
    using ok shrinksD(1) [OF sh that] by (auto simp: stores_ok_def)
  moreover have "port_ok K' p'" if "k_ports K' a = Some p'" for a p'
    using ok shrinksD(2) [OF sh that] port_ok_cong [OF shrinksD(9,10) [OF sh]]
    by (auto simp: stores_ok_def)
  moreover have "buffer_ok b'" if "k_buffers K' a = Some b'" for a b'
    using ok shrinksD(3) [OF sh that] by (auto simp: stores_ok_def)
  moreover have "k_tasks K' a = None \<and> k_ports K' a = None \<and>
      k_buffers K' a = None \<and> k_hws K' a = None \<and> k_policies K' a = None" if "k_next_addr K' \<le> a" for a
    using ok that shrinks_None [OF sh] shrinksD(12) [OF sh] by (simp add: stores_ok_def)
  moreover have "\<not> k_ipc_locked K'"
    using ok shrinksD(13) [OF sh] by (simp add: stores_ok_def)
  ultimately show ?thesis
    using kt unfolding stores_ok_def by blast
qed

lemma index_okD:
  assumes "index_ok K"
  shows "k_ports K a = Some p \<Longrightarrow> k_ports_by_id K (p_id p) = Some a"
    and "k_ports_by_id K i = Some a \<Longrightarrow> k_ports K a \<noteq> None"
    and "k_ports_by_name K n = Some a \<Longrightarrow> k_ports K a \<noteq> None"
    and "k_tasks_by_pid K j = Some a \<Longrightarrow> k_tasks K a \<noteq> None"
    and "k_ports_by_name K n = Some a \<Longrightarrow> k_ports K a = Some p \<Longrightarrow> p_immortal p"
    and "k_ports_by_id K i = Some a \<Longrightarrow> k_ports K a = Some p \<Longrightarrow> p_id p = i"
    and "k_tasks_by_pid K j = Some a \<Longrightarrow> k_tasks K a = Some t \<Longrightarrow> t_pid t = j"
    and "k_ports_by_name K n = Some a \<Longrightarrow> k_ports K a = Some p \<Longrightarrow> p_name p = n"
  using assms unfolding index_ok_def by (metis option.discI option.inject)+

lemma index_ok_shrinks:
  assumes ok: "index_ok K" and sh: "shrinks K K'"
    and "\<And>a p. k_ports K' a = Some p \<Longrightarrow> k_ports_by_id K' (p_id p) = Some a"
    and "\<And>i a. k_ports_by_id K' i = Some a \<Longrightarrow> k_ports K' a \<noteq> None"
    and "\<And>n a. k_ports_by_name K' n = Some a \<Longrightarrow> k_ports K' a \<noteq> None"
    and "\<And>i a. k_tasks_by_pid K' i = Some a \<Longrightarrow> k_tasks K' a \<noteq> None"
  shows "index_ok K'"
proof -
  have "\<exists>p. k_ports K' a = Some p \<and> p_id p = i" if i: "k_ports_by_id K' i = Some a" for i a
  proof -
    obtain p' where p': "k_ports K' a = Some p'" using assms(4) [OF i] by auto
    moreover obtain p where "k_ports K a = Some p" "p_id p' = p_id p"
      using shrinksD(2) [OF sh p'] by auto
    moreover have "k_ports_by_id K i = Some a"
      using shrinksD(6,7) [OF sh] i by auto
    ultimately show ?thesis using index_okD(6) [OF ok] by auto
  qed
  moreover have "\<exists>p. k_ports K' a = Some p \<and> p_immortal p \<and> p_name p = n"
    if n: "k_ports_by_name K' n = Some a" for n a
  proof -
    obtain p' where p': "k_ports K' a = Some p'" using assms(5) [OF n] by auto
    moreover obtain p where "k_ports K a = Some p" "p_name p' = p_name p" "p_immortal p' = p_immortal p"
      using shrinksD(2) [OF sh p'] by auto
    moreover have "k_ports_by_name K n = Some a"
      using shrinksD(8) [OF sh] n by simp
    ultimately show ?thesis using index_okD(5,8) [OF ok] by auto
  qed
  moreover have "\<exists>t. k_tasks K' a = Some t \<and> t_pid t = i" if i: "k_tasks_by_pid K' i = Some a" for i a
  proof -
    obtain t' where t': "k_tasks K' a = Some t'" using assms(6) [OF i] by auto
    moreover obtain t where "k_tasks K a = Some t" "t_pid t' = t_pid t"
      using shrinksD(1) [OF sh t'] by auto
    moreover have "k_tasks_by_pid K i = Some a"
      using shrinksD(6,7) [OF sh] i by auto
    ultimately show ?thesis using index_okD(7) [OF ok] by auto
  qed
  ultimately show ?thesis
    using assms(3) unfolding index_ok_def by blast
qed

text \<open>Counts move and nothing goes away.\<close>

lemma kernel_ok_shrinks_same:
  assumes ok: "stores_ok K" "index_ok K" and sh: "shrinks K K'"
    and dom: "alive K' = alive K" and idx: "k_ports_by_id K' = k_ports_by_id K"
      "k_tasks_by_pid K' = k_tasks_by_pid K"
  shows "stores_ok K' \<and> index_ok K'"
proof -
  have d: "k_ports K' a = None \<longleftrightarrow> k_ports K a = None" "k_tasks K' a = None \<longleftrightarrow> k_tasks K a = None" for a
    using fun_cong [OF dom, of "KPort a"] fun_cong [OF dom, of "KTask a"] by auto
  have "stores_ok K'"
    using stores_ok_shrinks [OF ok(1) sh] ok(1) d shrinksD(11) [OF sh] by (auto simp: stores_ok_def)
  moreover have "index_ok K'"
  proof (rule index_ok_shrinks [OF ok(2) sh])
    show "k_ports_by_id K' (p_id p) = Some a" if "k_ports K' a = Some p" for a p
      using index_okD(1) [OF ok(2)] shrinksD(2) [OF sh that] idx by auto
    show "k_ports K' a \<noteq> None" if "k_ports_by_id K' i = Some a" for i a
      using index_okD(2) [OF ok(2)] that idx(1) d(1) by auto
    show "k_ports K' a \<noteq> None" if "k_ports_by_name K' n = Some a" for n a
      using index_okD(3) [OF ok(2)] that shrinksD(8) [OF sh] d(1) by auto
    show "k_tasks K' a \<noteq> None" if "k_tasks_by_pid K' i = Some a" for i a
      using index_okD(4) [OF ok(2)] that idx(2) d(2) by auto
  qed
  ultimately show ?thesis ..
qed


section \<open>One object changes\<close>

lemma set_fields [simp]:
  "k_ports (set_port a p K) = (k_ports K)(a \<mapsto> p)" "k_tasks (set_port a p K) = k_tasks K"
  "k_buffers (set_port a p K) = k_buffers K" "k_hws (set_port a p K) = k_hws K"
  "k_policies (set_port a p K) = k_policies K"
  "k_tasks (set_task a t K) = (k_tasks K)(a \<mapsto> t)" "k_ports (set_task a t K) = k_ports K"
  "k_buffers (set_task a t K) = k_buffers K" "k_hws (set_task a t K) = k_hws K"
  "k_policies (set_task a t K) = k_policies K"
  "k_buffers (set_buffer a b K) = (k_buffers K)(a \<mapsto> b)" "k_tasks (set_buffer a b K) = k_tasks K"
  "k_ports (set_buffer a b K) = k_ports K" "k_hws (set_buffer a b K) = k_hws K"
  "k_policies (set_buffer a b K) = k_policies K"
  "k_hws (set_hw a h K) = (k_hws K)(a \<mapsto> h)" "k_tasks (set_hw a h K) = k_tasks K"
  "k_ports (set_hw a h K) = k_ports K" "k_buffers (set_hw a h K) = k_buffers K"
  "k_policies (set_hw a h K) = k_policies K"
  "k_policies (set_policy a c K) = (k_policies K)(a \<mapsto> c)" "k_tasks (set_policy a c K) = k_tasks K"
  "k_ports (set_policy a c K) = k_ports K" "k_buffers (set_policy a c K) = k_buffers K"
  "k_hws (set_policy a c K) = k_hws K"
  by (simp_all add: set_port_def set_task_def set_buffer_def set_hw_def set_policy_def)

lemma set_other_fields [simp]:
  "k_ports_by_id (set_port a p K) = k_ports_by_id K" "k_ports_by_name (set_port a p K) = k_ports_by_name K"
  "k_tasks_by_pid (set_port a p K) = k_tasks_by_pid K" "k_kernel_task (set_port a p K) = k_kernel_task K"
  "k_ports_by_id (set_task a t K) = k_ports_by_id K" "k_ports_by_name (set_task a t K) = k_ports_by_name K"
  "k_tasks_by_pid (set_task a t K) = k_tasks_by_pid K" "k_kernel_task (set_task a t K) = k_kernel_task K"
  "k_ports_by_id (set_buffer a b K) = k_ports_by_id K" "k_ports_by_name (set_buffer a b K) = k_ports_by_name K"
  "k_tasks_by_pid (set_buffer a b K) = k_tasks_by_pid K" "k_kernel_task (set_buffer a b K) = k_kernel_task K"
  "k_ports_by_id (set_hw a h K) = k_ports_by_id K" "k_ports_by_name (set_hw a h K) = k_ports_by_name K"
  "k_tasks_by_pid (set_hw a h K) = k_tasks_by_pid K" "k_kernel_task (set_hw a h K) = k_kernel_task K"
  "k_ports_by_id (set_policy a c K) = k_ports_by_id K" "k_ports_by_name (set_policy a c K) = k_ports_by_name K"
  "k_tasks_by_pid (set_policy a c K) = k_tasks_by_pid K" "k_kernel_task (set_policy a c K) = k_kernel_task K"
  by (simp_all add: set_port_def set_task_def set_buffer_def set_hw_def set_policy_def)

lemma set_call_fields [simp]:
  "k_threads (set_port a p K) = k_threads K" "k_waits (set_port a p K) = k_waits K"
  "k_ipc_locked (set_port a p K) = k_ipc_locked K" "k_next_addr (set_port a p K) = k_next_addr K"
  "k_allocs (set_port a p K) = k_allocs K" "k_next_port_id (set_port a p K) = k_next_port_id K"
  "k_threads (set_task a t K) = k_threads K" "k_waits (set_task a t K) = k_waits K"
  "k_ipc_locked (set_task a t K) = k_ipc_locked K" "k_next_addr (set_task a t K) = k_next_addr K"
  "k_allocs (set_task a t K) = k_allocs K" "k_next_port_id (set_task a t K) = k_next_port_id K"
  "k_threads (set_buffer a b K) = k_threads K" "k_waits (set_buffer a b K) = k_waits K"
  "k_ipc_locked (set_buffer a b K) = k_ipc_locked K" "k_next_addr (set_buffer a b K) = k_next_addr K"
  "k_allocs (set_buffer a b K) = k_allocs K" "k_next_port_id (set_buffer a b K) = k_next_port_id K"
  "k_threads (set_hw a h K) = k_threads K" "k_waits (set_hw a h K) = k_waits K"
  "k_ipc_locked (set_hw a h K) = k_ipc_locked K" "k_next_addr (set_hw a h K) = k_next_addr K"
  "k_allocs (set_hw a h K) = k_allocs K" "k_next_port_id (set_hw a h K) = k_next_port_id K"
  "k_threads (set_policy a c K) = k_threads K" "k_waits (set_policy a c K) = k_waits K"
  "k_ipc_locked (set_policy a c K) = k_ipc_locked K" "k_next_addr (set_policy a c K) = k_next_addr K"
  "k_allocs (set_policy a c K) = k_allocs K" "k_next_port_id (set_policy a c K) = k_next_port_id K"
  by (simp_all add: set_port_def set_task_def set_buffer_def set_hw_def set_policy_def)

end
