(* ===== verification/Objects_Refs.thy ===== *)
theory Objects_Refs
  imports Objects_Proofs
begin

text \<open>
  Retaining and releasing each kind of object keeps the invariant: the contract of a counted
  object as a locale, its instances, and the release of tasks with everything they own.
\<close>

section \<open>Counts and references after a change\<close>

lemma held_set [simp]:
  "held (set_buffer a b K) = held K" "held (set_hw a h K) = held K" "held (set_policy a c K) = held K"
  by (simp_all add: held_def)

lemma held_set_task:
  assumes "finite (dom (k_tasks K))" and "k_tasks K a = Some t"
  shows "held (set_task a t' K) + task_refs t = held K + task_refs t'"
  using map_sum_update [where f = task_refs and y = t', OF assms] by (simp add: held_def ac_simps)

lemma held_set_port:
  assumes "finite (dom (k_ports K))" and "k_ports K a = Some p"
  shows "held (set_port a p' K) + queue_refs p = held K + queue_refs p'"
  using map_sum_update [where f = queue_refs and y = p', OF assms] by (simp add: held_def ac_simps)

lemma held_cong:
  "k_tasks K' = k_tasks K \<Longrightarrow> k_ports K' = k_ports K \<Longrightarrow> held K' = held K"
  by (simp add: held_def)

lemma held_del_task:
  assumes "finite (dom (k_tasks K))" and "k_tasks K a = Some t" and "task_refs t = {#}"
  shows "held (K\<lparr>k_tasks := (k_tasks K)(a := None)\<rparr>) = held K"
  using map_sum_delete [where f = task_refs, OF assms(1,2)] assms(3) by (simp add: held_def)

lemma held_del_port:
  assumes "finite (dom (k_ports K))" and "k_ports K a = Some p" and "queue_refs p = {#}"
    and "k_ports K' = (k_ports K)(a := None)" and "k_tasks K' = k_tasks K"
  shows "held K' = held K"
  using map_sum_delete [where f = queue_refs, OF assms(1,2)] assms(3-) by (simp add: held_def)

lemma refs_ref_count [simp]:
  "task_refs (t\<lparr>t_ref_count := n\<rparr>) = task_refs t" "queue_refs (p\<lparr>p_ref_count := m\<rparr>) = queue_refs p"
  by (simp_all add: task_refs_def queue_refs_def)

lemma alive_set:
  "k_ports K a \<noteq> None \<Longrightarrow> alive (set_port a p K) = alive K"
  "k_tasks K a \<noteq> None \<Longrightarrow> alive (set_task a t K) = alive K"
  "k_buffers K a \<noteq> None \<Longrightarrow> alive (set_buffer a b K) = alive K"
  "k_hws K a \<noteq> None \<Longrightarrow> alive (set_hw a h K) = alive K"
  "k_policies K a \<noteq> None \<Longrightarrow> alive (set_policy a c K) = alive K"
  by (rule ext, case_tac x; auto)+

lemma refcount_set:
  "refcount (set_port a p K) = (refcount K)(KPort a := Some (unat (p_ref_count p)))"
  "refcount (set_buffer a b K) = (refcount K)(KBuffer a := Some (unat (b_ref_count b)))"
  "refcount (set_hw a h K) = (refcount K)(KHw a := if hw_owned h then Some (unat (hw_ref_count h)) else None)"
  "refcount (set_policy a c K) = (refcount K)(KPolicy a := Some (unat (sp_ref_count c)))"
  "refcount (set_task a t K) = (refcount K)(KTask a :=
     (if a = k_kernel_task K then None else Some (unat (t_ref_count t))))"
  by (rule ext, case_tac x; auto)+

lemma shrinks_set:
  "k_ports K a = Some p \<Longrightarrow> shrinks K (set_port a (p\<lparr>p_ref_count := n\<rparr>) K)"
  "k_tasks K a = Some t \<Longrightarrow> shrinks K (set_task a (t\<lparr>t_ref_count := n\<rparr>) K)"
  "k_buffers K a = Some b \<Longrightarrow> shrinks K (set_buffer a (b\<lparr>b_ref_count := n\<rparr>) K)"
  "k_hws K a = Some h \<Longrightarrow> shrinks K (set_hw a (h\<lparr>hw_ref_count := n\<rparr>) K)"
  "k_policies K a = Some c \<Longrightarrow> shrinks K (set_policy a (c\<lparr>sp_ref_count := n\<rparr>) K)"
  unfolding shrinks_def by (auto intro!: sub_map_refl sub_map_upd)

text \<open>Room for one more reference; objects without a count need none.\<close>

definition room :: "kstate \<Rightarrow> kobj \<Rightarrow> bool" where
  "room K x \<longleftrightarrow> (\<forall>n. refcount K x = Some n \<longrightarrow> n < 2 ^ 32 - 1)"

lemma unat_inc_32: "unat (n :: u32) < 2 ^ 32 - 1 \<Longrightarrow> unat (n + 1) = Suc (unat n)"
  by (simp add: unat_plus_if')

lemma unat_dec_32: "0 < unat (n :: u32) \<Longrightarrow> unat (n - 1) = unat n - 1"
  by (simp add: unat_minus_one unat_gt_0)


section \<open>The contract of a counted object\<close>

text \<open>
  A release gives back one reference. It changes nothing but counts, frees what nothing
  refers to any more, and leaves tasks to which there is no reference alone.
\<close>

definition released :: "kstate \<Rightarrow> kobj multiset \<Rightarrow> kstate \<Rightarrow> kobj multiset \<Rightarrow> bool" where
  "released K ext K' ext' \<longleftrightarrow> shrinks K K' \<and> set_mset (held K' + ext') \<subseteq> set_mset (held K + ext) \<and>
     (\<forall>b. KTask b \<notin># held K + ext \<longrightarrow> k_tasks K' b = k_tasks K b)"

lemma released_refl: "released K ext K ext"
  by (simp add: released_def)

lemma released_trans:
  "released K ext K' ext' \<Longrightarrow> released K' ext' K'' ext'' \<Longrightarrow> released K ext K'' ext''"
  unfolding released_def by (auto intro: shrinks_trans)

locale releasable =
  fixes obj :: "nat \<Rightarrow> kobj"
    and release :: "nat option \<Rightarrow> kstate \<Rightarrow> kstate option"
  assumes release_null: "release None K = Some K"
    and release_ok: "kernel_ok K (ext + {#obj a#}) \<Longrightarrow>
      \<exists>K'. release (Some a) K = Some K' \<and> kernel_ok K' ext \<and> released K (ext + {#obj a#}) K' ext"
begin

text \<open>Releasing a whole list of references, one after the other.\<close>

fun release_all :: "nat list \<Rightarrow> kstate \<Rightarrow> kstate option" where
  "release_all [] K = Some K"
| "release_all (a # as) K = Option.bind (release (Some a) K) (release_all as)"

lemma release_all_ok:
  assumes "kernel_ok K (ext + mset (map obj as))"
  shows "\<exists>K'. release_all as K = Some K' \<and> kernel_ok K' ext \<and> shrinks K K'"
  using assms
proof (induction as arbitrary: K)
  case Nil
  then show ?case by simp
next
  case (Cons a as)
  from Cons.prems have "kernel_ok K ((ext + mset (map obj as)) + {#obj a#})"
    by simp
  from release_ok [OF this] obtain K1 where
    K1: "release (Some a) K = Some K1" "kernel_ok K1 (ext + mset (map obj as))" "shrinks K K1"
    by (auto simp: released_def)
  from Cons.IH [OF K1(2)] obtain K2 where "release_all as K1 = Some K2" "kernel_ok K2 ext" "shrinks K1 K2"
    by blast
  with K1 show ?case by (auto intro: shrinks_trans)
qed

end

locale counted = releasable +
  fixes retain :: "nat option \<Rightarrow> kstate \<Rightarrow> kstate option"
  assumes retain_null: "retain None K = Some K"
    and retain_ok: "kernel_ok K ext \<Longrightarrow> alive K (obj a) \<Longrightarrow> room K (obj a) \<Longrightarrow>
      \<exists>K'. retain (Some a) K = Some K' \<and> kernel_ok K' (ext + {#obj a#}) \<and> shrinks K K' \<and>
        alive K' = alive K \<and> held K' = held K"
begin

text \<open>Keeping a reference across a release by someone else keeps the object.\<close>

lemma retain_then_release:
  assumes "kernel_ok K (ext + {#obj a#})" and "room K (obj a)"
  shows "\<exists>K1 K2. retain (Some a) K = Some K1 \<and> release (Some a) K1 = Some K2 \<and>
    kernel_ok K2 (ext + {#obj a#}) \<and> alive K2 (obj a) \<and> shrinks K K2"
proof -
  have "alive K (obj a)"
    using assms(1) by (auto simp: kernel_ok_def intro: refs_ok_alive)
  from retain_ok [OF assms(1) this assms(2)] obtain K1 where
    K1: "retain (Some a) K = Some K1" "kernel_ok K1 (ext + {#obj a#} + {#obj a#})" "shrinks K K1"
    by blast
  from release_ok [OF K1(2)] obtain K2 where
    K2: "release (Some a) K1 = Some K2" "kernel_ok K2 (ext + {#obj a#})" "shrinks K1 K2"
    by (auto simp: released_def)
  moreover have "alive K2 (obj a)"
    using K2(2) by (auto simp: kernel_ok_def intro: refs_ok_alive)
  ultimately show ?thesis
    using K1 by (auto intro: shrinks_trans)
qed

end


section \<open>Ports, buffers, hardware resources and policies\<close>

lemma kernel_ok_inc:
  assumes "kernel_ok K ext" and "shrinks K K'"
    and "refcount K' = (refcount K)(x := map_option Suc (refcount K x))"
    and "alive K' = alive K" and "held K' = held K" and "alive K x"
    and "k_ports_by_id K' = k_ports_by_id K" and "k_tasks_by_pid K' = k_tasks_by_pid K"
  shows "kernel_ok K' (ext + {#x#})"
  using assms kernel_ok_shrinks_same [of K K'] refs_ok_inc [of K ext K' x]
  by (simp add: kernel_ok_def)

lemma kernel_ok_dec:
  assumes "kernel_ok K (ext + {#x#})" and "shrinks K K'"
    and "refcount K' = (refcount K)(x := map_option (\<lambda>n. n - 1) (refcount K x))"
    and "alive K' = alive K" and "held K' = held K"
    and "k_ports_by_id K' = k_ports_by_id K" and "k_tasks_by_pid K' = k_tasks_by_pid K"
  shows "kernel_ok K' ext"
  using assms kernel_ok_shrinks_same [of K K'] refs_ok_dec [of K ext x K']
  by (simp add: kernel_ok_def)

text \<open>Freeing an object of a kind that no index holds.\<close>

lemma kernel_ok_free:
  assumes "kernel_ok K ext" and "shrinks K K'" and "refcount K x = Some 0"
    and "\<And>y. refcount K' y = (if y = x then None else refcount K y)"
    and "\<And>y. alive K' y \<longleftrightarrow> y \<noteq> x \<and> alive K y"
    and "k_ports K' = k_ports K" and "k_tasks K' = k_tasks K"
    and "k_ports_by_id K' = k_ports_by_id K" and "k_tasks_by_pid K' = k_tasks_by_pid K"
  shows "kernel_ok K' ext"
proof -
  have "refs_ok K' ext"
    by (rule refs_ok_free [OF kernel_okD(1) [OF assms(1)] assms(3-5) held_cong [OF assms(7,6)]])
  moreover have "stores_ok K'"
  proof (rule stores_ok_shrinks [OF kernel_okD(2) [OF assms(1)] assms(2)])
    show "k_tasks K' (k_kernel_task K') \<noteq> None"
      using kernel_okD(10) [OF assms(1)] by (simp only: assms(7) shrinksD(11) [OF assms(2)] simp_thms)
  qed
  moreover have "index_ok K'"
    using kernel_okD(3) [OF assms(1)]
    by (simp only: index_ok_def assms(6-9) shrinksD(8) [OF assms(2)])
  ultimately show ?thesis by (simp add: kernel_ok_def)
qed

lemma released_simple:
  assumes "shrinks K K'" and "held K' = held K" and "k_tasks K' = k_tasks K"
  shows "released K (ext + {#x#}) K' ext"
  using assms by (auto simp: released_def)

lemma held_ref_counts:
  assumes "kernel_ok K ext"
  shows "k_ports K a = Some p \<Longrightarrow> held (set_port a (p\<lparr>p_ref_count := n\<rparr>) K) = held K"
    and "k_tasks K a = Some t \<Longrightarrow> held (set_task a (t\<lparr>t_ref_count := n\<rparr>) K) = held K"
  using held_set_port [OF kernel_okD(5) [OF assms], of a p "p\<lparr>p_ref_count := n\<rparr>"]
    held_set_task [OF kernel_okD(4) [OF assms], of a t "t\<lparr>t_ref_count := n\<rparr>"] by simp_all

lemma ext_count:
  assumes "kernel_ok K (ext + {#x#})" and "refcount K x = Some n"
  shows "0 < n"
  using refs_ok_count [OF kernel_okD(1) [OF assms(1)] assms(2)] by simp

lemma ext_alive: "kernel_ok K (ext + {#x#}) \<Longrightarrow> alive K x"
  by (auto simp: kernel_ok_def intro: refs_ok_alive)

lemma word_pos_32 [simp]: "0 < unat (n :: u32) \<longleftrightarrow> n \<noteq> 0"
  by (simp add: unat_gt_0)

lemma ipc_port_retain_ok:
  assumes "kernel_ok K ext" and "alive K (KPort a)" and "room K (KPort a)"
  shows "\<exists>K'. ipc_port_retain (Some a) K = Some K' \<and> kernel_ok K' (ext + {#KPort a#}) \<and> shrinks K K' \<and>
    alive K' = alive K \<and> held K' = held K"
proof -
  obtain p where p: "k_ports K a = Some p" using assms(2) by auto
  let ?K = "set_port a (p\<lparr>p_ref_count := p_ref_count p + 1\<rparr>) K"
  have n: "unat (p_ref_count p + 1) = Suc (unat (p_ref_count p))"
    using assms(3) p by (intro unat_inc_32) (simp add: room_def)
  have "kernel_ok ?K (ext + {#KPort a#})"
    using assms p n by (intro kernel_ok_inc [OF assms(1)])
      (simp_all add: shrinks_set refcount_set alive_set held_ref_counts [OF assms(1)])
  then show ?thesis
    using p kernel_okD(7) [OF assms(1)]
    by (simp add: ipc_port_retain_def shrinks_set alive_set held_ref_counts [OF assms(1)])
qed

lemma buffer_retain_ok:
  assumes "kernel_ok K ext" and "alive K (KBuffer a)" and "room K (KBuffer a)"
  shows "\<exists>K'. buffer_retain (Some a) K = Some K' \<and> kernel_ok K' (ext + {#KBuffer a#}) \<and> shrinks K K' \<and>
    alive K' = alive K \<and> held K' = held K"
proof -
  obtain b where b: "k_buffers K a = Some b" using assms(2) by auto
  let ?K = "set_buffer a (b\<lparr>b_ref_count := b_ref_count b + 1\<rparr>) K"
  have n: "unat (b_ref_count b + 1) = Suc (unat (b_ref_count b))"
    using assms(3) b by (intro unat_inc_32) (simp add: room_def)
  have "kernel_ok ?K (ext + {#KBuffer a#})"
    using assms b n by (intro kernel_ok_inc [OF assms(1)])
      (simp_all add: shrinks_set refcount_set alive_set)
  then show ?thesis
    using b by (simp add: buffer_retain_def shrinks_set alive_set)
qed

lemma hw_retain_ok:
  assumes "kernel_ok K ext" and "alive K (KHw a)" and "room K (KHw a)"
  shows "\<exists>K'. task_hw_resource_retain (Some a) K = Some (OK, K') \<and> kernel_ok K' (ext + {#KHw a#}) \<and>
    shrinks K K' \<and> alive K' = alive K \<and> held K' = held K"
proof -
  obtain h where h: "k_hws K a = Some h" using assms(2) by auto
  show ?thesis
  proof (cases "hw_owned h")
    case True
    let ?K = "set_hw a (h\<lparr>hw_ref_count := hw_ref_count h + 1\<rparr>) K"
    have n: "unat (hw_ref_count h + 1) = Suc (unat (hw_ref_count h))"
      using assms(3) h True by (intro unat_inc_32) (simp add: room_def)
    have "kernel_ok ?K (ext + {#KHw a#})"
      using assms h n True by (intro kernel_ok_inc [OF assms(1)])
        (simp_all add: shrinks_set refcount_set alive_set hw_owned_def)
    then show ?thesis
      using h True by (simp add: task_hw_resource_retain_def shrinks_set alive_set hw_owned_def)
  next
    case False
    have "kernel_ok K (ext + {#KHw a#})"
      using assms h False by (intro kernel_ok_inc [OF assms(1)]) (simp_all add: fun_upd_idem)
    then show ?thesis
      using h False by (simp add: task_hw_resource_retain_def hw_owned_def)
  qed
qed

lemma policy_retain_ok:
  assumes "kernel_ok K ext" and "alive K (KPolicy a)" and "room K (KPolicy a)"
  shows "\<exists>K'. sched_policy_cap_retain (Some a) K = Some (OK, K') \<and> kernel_ok K' (ext + {#KPolicy a#}) \<and>
    shrinks K K' \<and> alive K' = alive K \<and> held K' = held K"
proof -
  obtain c where c: "k_policies K a = Some c" using assms(2) by auto
  let ?K = "set_policy a (c\<lparr>sp_ref_count := sp_ref_count c + 1\<rparr>) K"
  have n: "unat (sp_ref_count c + 1) = Suc (unat (sp_ref_count c))"
    using assms(3) c by (intro unat_inc_32) (simp add: room_def)
  have "kernel_ok ?K (ext + {#KPolicy a#})"
    using assms c n by (intro kernel_ok_inc [OF assms(1)])
      (simp_all add: shrinks_set refcount_set alive_set)
  then show ?thesis
    using c by (simp add: sched_policy_cap_retain_def shrinks_set alive_set)
qed


lemma buffer_release_ok:
  assumes "kernel_ok K (ext + {#KBuffer a#})"
  shows "\<exists>K'. buffer_release (Some a) K = Some K' \<and> kernel_ok K' ext \<and>
    released K (ext + {#KBuffer a#}) K' ext"
proof -
  obtain b where b: "k_buffers K a = Some b" using ext_alive [OF assms] by auto
  have pos: "b_ref_count b \<noteq> 0"
    using ext_count [OF assms, of "unat (b_ref_count b)"] b by simp
  let ?b = "b\<lparr>b_ref_count := b_ref_count b - 1\<rparr>" and ?K = "set_buffer a (b\<lparr>b_ref_count := b_ref_count b - 1\<rparr>) K"
  let ?F = "?K\<lparr>k_buffers := (k_buffers ?K)(a := None)\<rparr>"
  have sh: "shrinks K ?K" by (rule shrinks_set(3) [OF b])
  have dec: "kernel_ok ?K ext"
    using b pos by (intro kernel_ok_dec [OF assms sh])
      (simp_all add: refcount_set alive_set unat_dec_32)
  show ?thesis
  proof (cases "b_ref_count b - 1 = 0")
    case False
    then show ?thesis
      using b pos dec released_simple [OF sh, of ext "KBuffer a"]
      by (simp add: buffer_release_def word_gt_0)
  next
    case True
    have shF: "shrinks K ?F"
      unfolding shrinks_def by (auto intro!: sub_map_refl sub_map_del)
    have "shrinks ?K ?F"
      unfolding shrinks_def by (auto intro!: sub_map_refl simp: sub_map_def)
    then have "kernel_ok ?F ext"
    proof (rule kernel_ok_free [OF dec])
      show "refcount ?K (KBuffer a) = Some 0"
        using True by (simp add: refcount_set)
      show "refcount ?F y = (if y = KBuffer a then None else refcount ?K y)" for y
        by (cases y) auto
      show "alive ?F y \<longleftrightarrow> y \<noteq> KBuffer a \<and> alive ?K y" for y
        by (cases y) auto
    qed simp_all
    then show ?thesis
      using b pos True released_simple [OF shF, of ext "KBuffer a"] held_cong [of ?F K]
      by (simp add: buffer_release_def buffer_destroy_def word_gt_0)
  qed
qed

lemma policy_release_ok:
  assumes "kernel_ok K (ext + {#KPolicy a#})"
  shows "\<exists>K'. sched_policy_cap_release (Some a) K = Some K' \<and> kernel_ok K' ext \<and>
    released K (ext + {#KPolicy a#}) K' ext"
proof -
  obtain c where c: "k_policies K a = Some c" using ext_alive [OF assms] by auto
  have pos: "sp_ref_count c \<noteq> 0"
    using ext_count [OF assms, of "unat (sp_ref_count c)"] c by simp
  let ?K = "set_policy a (c\<lparr>sp_ref_count := sp_ref_count c - 1\<rparr>) K"
  let ?F = "K\<lparr>k_policies := (k_policies K)(a := None)\<rparr>"
  have sh: "shrinks K ?K" by (rule shrinks_set(5) [OF c])
  have dec: "kernel_ok ?K ext"
    using c pos by (intro kernel_ok_dec [OF assms sh])
      (simp_all add: refcount_set alive_set unat_dec_32)
  show ?thesis
  proof (cases "sp_ref_count c - 1 = 0")
    case False
    then show ?thesis
      using c dec released_simple [OF sh, of ext "KPolicy a"]
      by (simp add: sched_policy_cap_release_def)
  next
    case True
    have shF: "shrinks K ?F" "shrinks ?K ?F"
      using c unfolding shrinks_def by (auto intro!: sub_map_refl simp: sub_map_def)
    have "kernel_ok ?F ext"
    proof (rule kernel_ok_free [OF dec shF(2)])
      show "refcount ?K (KPolicy a) = Some 0"
        using True by (simp add: refcount_set)
      show "refcount ?F y = (if y = KPolicy a then None else refcount ?K y)" for y
        by (cases y) auto
      show "alive ?F y \<longleftrightarrow> y \<noteq> KPolicy a \<and> alive ?K y" for y
        by (cases y) auto
    qed simp_all
    then show ?thesis
      using c True released_simple [OF shF(1), of ext "KPolicy a"] held_cong [of ?F K]
      by (simp add: sched_policy_cap_release_def)
  qed
qed

lemma hw_release_ok:
  assumes "kernel_ok K (ext + {#KHw a#})"
  shows "\<exists>K'. task_hw_resource_release (Some a) K = Some K' \<and> kernel_ok K' ext \<and>
    released K (ext + {#KHw a#}) K' ext"
proof -
  obtain h where h: "k_hws K a = Some h" using ext_alive [OF assms] by auto
  let ?K = "set_hw a (h\<lparr>hw_ref_count := hw_ref_count h - 1\<rparr>) K"
  let ?F = "K\<lparr>k_hws := (k_hws K)(a := None)\<rparr>"
  have sh: "shrinks K ?K" by (rule shrinks_set(4) [OF h])
  consider (static) "\<not> hw_owned h" | (more) "hw_owned h" "hw_ref_count h - 1 \<noteq> 0"
    | (last) "hw_owned h" "hw_ref_count h - 1 = 0" by blast
  then show ?thesis
  proof cases
    case static
    then have "kernel_ok K ext"
      using h by (intro kernel_ok_dec [OF assms]) (simp_all add: fun_upd_idem)
    then show ?thesis
      using h static released_simple [of K K ext "KHw a"]
      by (simp add: task_hw_resource_release_def hw_owned_def)
  next
    case more
    have pos: "hw_ref_count h \<noteq> 0"
      using ext_count [OF assms, of "unat (hw_ref_count h)"] h more by simp
    have "kernel_ok ?K ext"
      using h pos more by (intro kernel_ok_dec [OF assms sh])
        (simp_all add: refcount_set alive_set unat_dec_32 hw_owned_def)
    then show ?thesis
      using h more released_simple [OF sh, of ext "KHw a"]
      by (simp add: task_hw_resource_release_def hw_owned_def)
  next
    case last
    have pos: "hw_ref_count h \<noteq> 0"
      using ext_count [OF assms, of "unat (hw_ref_count h)"] h last by simp
    have dec: "kernel_ok ?K ext"
      using h pos last by (intro kernel_ok_dec [OF assms sh])
        (simp_all add: refcount_set alive_set unat_dec_32 hw_owned_def)
    have shF: "shrinks K ?F" "shrinks ?K ?F"
      using h unfolding shrinks_def by (auto intro!: sub_map_refl simp: sub_map_def)
    have "kernel_ok ?F ext"
    proof (rule kernel_ok_free [OF dec shF(2)])
      show "refcount ?K (KHw a) = Some 0"
        using last by (simp add: refcount_set hw_owned_def)
      show "refcount ?F y = (if y = KHw a then None else refcount ?K y)" for y
        by (cases y) auto
      show "alive ?F y \<longleftrightarrow> y \<noteq> KHw a \<and> alive ?K y" for y
        by (cases y) auto
    qed simp_all
    then show ?thesis
      using h last released_simple [OF shF(1), of ext "KHw a"] held_cong [of ?F K]
      by (simp add: task_hw_resource_release_def hw_owned_def)
  qed
qed

interpretation buffers: counted KBuffer buffer_release buffer_retain
  by unfold_locales (rule buffer_release_ok buffer_retain_ok | simp add: buffer_release_def buffer_retain_def)+

interpretation policies: counted KPolicy sched_policy_cap_release
  "\<lambda>cap K. map_option snd (sched_policy_cap_retain cap K)"
proof unfold_locales
  fix K ext a
  assume "kernel_ok K ext" "alive K (KPolicy a)" "room K (KPolicy a)"
  from policy_retain_ok [OF this]
  show "\<exists>K'. map_option snd (sched_policy_cap_retain (Some a) K) = Some K' \<and>
    kernel_ok K' (ext + {#KPolicy a#}) \<and> shrinks K K' \<and> alive K' = alive K \<and> held K' = held K"
    by auto
qed (rule policy_release_ok | simp add: sched_policy_cap_release_def sched_policy_cap_retain_def)+

interpretation hardware: counted KHw task_hw_resource_release
  "\<lambda>resource K. map_option snd (task_hw_resource_retain resource K)"
proof unfold_locales
  fix K ext a
  assume "kernel_ok K ext" "alive K (KHw a)" "room K (KHw a)"
  from hw_retain_ok [OF this]
  show "\<exists>K'. map_option snd (task_hw_resource_retain (Some a) K) = Some K' \<and>
    kernel_ok K' (ext + {#KHw a#}) \<and> shrinks K K' \<and> alive K' = alive K \<and> held K' = held K"
    by auto
qed (rule hw_release_ok | simp add: task_hw_resource_release_def task_hw_resource_retain_def)+


section \<open>Releasing a port\<close>

lemma port_queue_empty: "port_ok K p \<Longrightarrow> p_queued p = 0 \<Longrightarrow> p_queue p = []"
  by (auto simp: port_ok_def word_of_nat_eq_0_iff dest: dvd_imp_le)

lemma ipc_port_release_ok:
  assumes "kernel_ok K (ext + {#KPort a#})"
  shows "\<exists>K'. ipc_port_release (Some a) K = Some K' \<and> kernel_ok K' ext \<and>
    released K (ext + {#KPort a#}) K' ext"
proof -
  obtain p where p: "k_ports K a = Some p" using ext_alive [OF assms] by auto
  have pos: "p_ref_count p \<noteq> 0"
    using ext_count [OF assms, of "unat (p_ref_count p)"] p by simp
  let ?p = "p\<lparr>p_ref_count := p_ref_count p - 1\<rparr>"
  let ?K = "set_port a ?p K"
  let ?R = "ipc_port_remove_locked a ?p K"
  let ?F = "?R\<lparr>k_ports := (k_ports ?R)(a := None)\<rparr>"
  have sh: "shrinks K ?K" by (rule shrinks_set(1) [OF p])
  have heldK: "held ?K = held K" by (rule held_ref_counts(1) [OF assms p])
  have dec: "kernel_ok ?K ext"
    using p pos heldK by (intro kernel_ok_dec [OF assms sh])
      (simp_all add: refcount_set alive_set unat_dec_32)
  show ?thesis
  proof (cases "p_immortal p \<or> p_ref_count p - 1 \<noteq> 0 \<or> p_queued p \<noteq> 0 \<or> p_receiver p \<noteq> None")
    case True
    then show ?thesis
      using p pos dec kernel_okD(7) [OF assms] released_simple [OF sh heldK, of ext "KPort a"]
      by (auto simp: ipc_port_release_def word_gt_0)
  next
    case False
    note idx = index_okD [OF kernel_okD(3) [OF assms]]
    have byid: "k_ports_by_id K (p_id p) = Some a" by (rule idx(1) [OF p])
    have named: "k_ports_by_name K n \<noteq> Some a" for n
      using idx(5) [OF _ p, of n] False by auto
    have R: "k_ports_by_id ?F = (k_ports_by_id K)(p_id p := None)" "k_ports_by_name ?F = k_ports_by_name K"
      "k_ports ?F = (k_ports K)(a := None)" "k_tasks ?F = k_tasks K" "k_buffers ?F = k_buffers K"
      "k_hws ?F = k_hws K" "k_policies ?F = k_policies K" "k_tasks_by_pid ?F = k_tasks_by_pid K"
      "k_kernel_task ?F = k_kernel_task K"
      using byid named by (simp_all add: ipc_port_remove_locked_def)
    have shF: "shrinks K ?F" "shrinks ?K ?F"
      using R p unfolding shrinks_def
      by (auto intro!: sub_map_refl simp: sub_map_def ipc_port_remove_locked_def)
    have heldF: "held ?F = held K"
      using False port_queue_empty [OF kernel_okD(9) [OF assms p]] R(3,4)
      by (intro held_del_port [OF kernel_okD(5) [OF assms] p]) (simp_all add: queue_refs_def)
    have "refs_ok ?F ext"
    proof (rule refs_ok_free [OF kernel_okD(1) [OF dec], of "KPort a"])
      show "refcount ?K (KPort a) = Some 0"
        using False by (simp add: refcount_set)
      show "refcount ?F y = (if y = KPort a then None else refcount ?K y)" for y
        using R by (cases y) auto
      show "alive ?F y \<longleftrightarrow> y \<noteq> KPort a \<and> alive ?K y" for y
        using R by (cases y) auto
      show "held ?F = held ?K"
        by (simp only: heldF heldK)
    qed
    moreover have "stores_ok ?F"
      using stores_ok_shrinks [OF kernel_okD(2) [OF assms] shF(1)] kernel_okD(10) [OF assms] R(4,9) by simp
    moreover have "index_ok ?F"
    proof (rule index_ok_shrinks [OF kernel_okD(3) [OF assms] shF(1)])
      show "k_ports_by_id ?F (p_id q) = Some b" if "k_ports ?F b = Some q" for b q
      proof -
        have q: "k_ports K b = Some q" "b \<noteq> a"
          using that R(3) by (auto split: if_splits)
        then have "p_id q \<noteq> p_id p"
          using idx(1) [OF q(1)] byid by auto
        then show ?thesis using idx(1) [OF q(1)] R(1) by simp
      qed
      show "k_ports ?F b \<noteq> None" if "k_ports_by_id ?F i = Some b" for i b
      proof -
        have i: "k_ports_by_id K i = Some b" "i \<noteq> p_id p"
          using that R(1) by (auto split: if_splits)
        then have "b \<noteq> a" using idx(6) [OF _ p] by auto
        then show ?thesis using idx(2) [OF i(1)] R(3) by simp
      qed
      show "k_ports ?F b \<noteq> None" if "k_ports_by_name ?F n = Some b" for n b
        using that R(2,3) idx(3) [of n b] named [of n] by auto
      show "k_tasks ?F b \<noteq> None" if "k_tasks_by_pid ?F i = Some b" for i b
        using that R(4,8) idx(4) by simp
    qed
    ultimately have "kernel_ok ?F ext" by (simp add: kernel_ok_def)
    then show ?thesis
      using p pos False kernel_okD(7) [OF assms] released_simple [OF shF(1) heldF, of ext "KPort a"] R(4)
      by (simp add: ipc_port_release_def word_gt_0 Let_def)
  qed
qed

interpretation ports: counted KPort ipc_port_release ipc_port_retain
  by unfold_locales (rule ipc_port_release_ok ipc_port_retain_ok |
    simp add: ipc_port_release_def ipc_port_retain_def)+

end
