(* ===== verification/Task_Release.thy ===== *)
theory Task_Release
  imports Objects_Refs
begin

text \<open>
  Releasing the last reference to a dead task tears it down: its regions are unmapped, its
  handles and its reply port released, which may tear down further tasks. The recursion
  ends, because each teardown empties a handle table before it releases what was in it.
\<close>

section \<open>Changing one task\<close>

lemma kernel_ok_logs [simp]:
  "kernel_ok (K\<lparr>k_deaths := d\<rparr>) ext = kernel_ok K ext"
  "kernel_ok (K\<lparr>k_unmapped := u\<rparr>) ext = kernel_ok K ext"
  "kernel_ok (K\<lparr>k_destroyed_spaces := s\<rparr>) ext = kernel_ok K ext"
proof -
  have r: "refcount (K\<lparr>k_deaths := d\<rparr>) = refcount K" "refcount (K\<lparr>k_unmapped := u\<rparr>) = refcount K"
    "refcount (K\<lparr>k_destroyed_spaces := s\<rparr>) = refcount K"
    by (rule ext, case_tac x; simp)+
  have a: "alive (K\<lparr>k_deaths := d\<rparr>) = alive K" "alive (K\<lparr>k_unmapped := u\<rparr>) = alive K"
    "alive (K\<lparr>k_destroyed_spaces := s\<rparr>) = alive K"
    by (rule ext, case_tac x; simp)+
  show "kernel_ok (K\<lparr>k_deaths := d\<rparr>) ext = kernel_ok K ext"
    "kernel_ok (K\<lparr>k_unmapped := u\<rparr>) ext = kernel_ok K ext"
    "kernel_ok (K\<lparr>k_destroyed_spaces := s\<rparr>) ext = kernel_ok K ext"
    by (simp_all add: kernel_ok_def refs_ok_def r a held_def stores_ok_def index_ok_def port_ok_def)
qed

lemma held_logs [simp]:
  "held (K\<lparr>k_deaths := d\<rparr>) = held K" "held (K\<lparr>k_unmapped := u\<rparr>) = held K"
  "held (K\<lparr>k_destroyed_spaces := s\<rparr>) = held K" "held (K\<lparr>k_tasks_by_pid := i\<rparr>) = held K"
  by (simp_all add: held_def)

lemma stores_ok_set_task:
  assumes "stores_ok K" and "k_tasks K a = Some t" and "task_ok t'"
  shows "stores_ok (set_task a t' K)"
proof -
  have "a < k_next_addr K"
    using assms(1,2) unfolding stores_ok_def by (metis not_le option.distinct(1))
  then show ?thesis
    using assms by (auto simp: stores_ok_def port_ok_def)
qed

lemma index_ok_set_task:
  assumes "index_ok K" and "k_tasks K a = Some t" and "t_pid t' = t_pid t"
  shows "index_ok (set_task a t' K)"
  using assms unfolding index_ok_def by (auto simp: fun_upd_apply split: if_splits) (metis option.inject)

lemma kernel_ok_set_task:
  assumes "kernel_ok K ext" and "k_tasks K a = Some t" and "task_ok t'"
    and "t_pid t' = t_pid t" and "t_ref_count t' = t_ref_count t"
    and "task_refs t' + ext' = task_refs t + ext"
  shows "kernel_ok (set_task a t' K) ext'"
proof -
  have "held (set_task a t' K) + task_refs t = held K + task_refs t'"
    using held_set_task [OF kernel_okD(4) [OF assms(1)] assms(2)] .
  then have "held (set_task a t' K) + task_refs t + ext' = held K + (task_refs t' + ext')"
    by simp
  then have "held (set_task a t' K) + ext' = held K + ext"
    using assms(6) by (simp add: add.assoc add.left_commute)
  moreover have "refcount (set_task a t' K) = refcount K"
    using assms(2,5) by (auto simp: refcount_set fun_eq_iff)
  moreover have "alive (set_task a t' K) = alive K"
    using assms(2) by (simp add: alive_set)
  ultimately show ?thesis
    using assms refs_ok_move [of K ext "set_task a t' K" ext'] stores_ok_set_task [of K a t t']
      index_ok_set_task [of K a t t'] by (simp add: kernel_ok_def)
qed

lemma kernel_ok_del_task:
  assumes ok: "kernel_ok K ext" and t: "k_tasks K a = Some t" and "task_refs t = {#}"
    and "t_ref_count t = 0" and a: "a \<noteq> k_kernel_task K"
    and L: "task_remove_from_list a K = Some L"
  shows "kernel_ok (L\<lparr>k_tasks := (k_tasks L)(a := None)\<rparr>) ext"
    and "shrinks K (L\<lparr>k_tasks := (k_tasks L)(a := None)\<rparr>)"
    and "held (L\<lparr>k_tasks := (k_tasks L)(a := None)\<rparr>) = held K" and "k_tasks L = k_tasks K"
proof -
  define F where "F = L\<lparr>k_tasks := (k_tasks L)(a := None)\<rparr>"
  have L': "L = (if k_tasks_by_pid K (t_pid t) = Some a
      then K\<lparr>k_tasks_by_pid := (k_tasks_by_pid K)(t_pid t := None)\<rparr> else K)"
    using L t by (simp add: task_remove_from_list_def)
  have FF: "k_tasks F = (k_tasks K)(a := None)" "k_ports F = k_ports K" "k_buffers F = k_buffers K"
    "k_hws F = k_hws K" "k_policies F = k_policies K" "k_ports_by_id F = k_ports_by_id K"
    "k_ports_by_name F = k_ports_by_name K" "k_kernel_task F = k_kernel_task K"
    "k_tasks_by_pid F = (if k_tasks_by_pid K (t_pid t) = Some a
       then (k_tasks_by_pid K)(t_pid t := None) else k_tasks_by_pid K)"
    by (simp_all add: F_def L')
  show tl: "k_tasks L = k_tasks K" by (simp add: L')
  have sh: "shrinks K F"
    unfolding shrinks_def F_def L' by (auto simp: sub_map_def)
  have heldF: "held F = held K"
    using map_sum_delete [where f = task_refs, OF kernel_okD(4) [OF ok] t] assms(3) FF(1,2)
    by (simp add: held_def)
  have pid: "k_tasks_by_pid K i = Some a \<Longrightarrow> i = t_pid t" for i
    using index_okD(7) [OF kernel_okD(3) [OF ok] _ t] by auto
  have "refs_ok F ext"
  proof (rule refs_ok_free [OF kernel_okD(1) [OF ok], of "KTask a"])
    show "refcount K (KTask a) = Some 0"
      using t a assms(4) by simp
    show "refcount F y = (if y = KTask a then None else refcount K y)" for y
      using FF by (cases y) auto
    show "alive F y \<longleftrightarrow> y \<noteq> KTask a \<and> alive K y" for y
      using FF by (cases y) auto
  qed (rule heldF)
  moreover have "stores_ok F"
    using stores_ok_shrinks [OF kernel_okD(2) [OF ok] sh] kernel_okD(10) [OF ok] FF(1,8) a by simp
  moreover have "index_ok F"
  proof (rule index_ok_shrinks [OF kernel_okD(3) [OF ok] sh])
    note idx = index_okD [OF kernel_okD(3) [OF ok]]
    show "k_ports_by_id F (p_id q) = Some b" if "k_ports F b = Some q" for b q
      using that FF(2,6) idx(1) [of b q] by simp
    show "k_ports F b \<noteq> None" if "k_ports_by_id F i = Some b" for i b
      using that FF(2,6) idx(2) [of i b] by simp
    show "k_ports F b \<noteq> None" if "k_ports_by_name F n = Some b" for n b
      using that FF(2,7) idx(3) [of n b] by simp
    show "k_tasks F b \<noteq> None" if "k_tasks_by_pid F i = Some b" for i b
    proof -
      have "k_tasks_by_pid K i = Some b \<and> b \<noteq> a"
      proof (cases "k_tasks_by_pid K (t_pid t) = Some a")
        case True
        then have "i \<noteq> t_pid t" "k_tasks_by_pid K i = Some b"
          using that FF(9) by (simp_all split: if_splits)
        then show ?thesis using pid [of i] by blast
      next
        case False
        then have "k_tasks_by_pid K i = Some b"
          using that FF(9) by simp
        then show ?thesis using pid [of i] False by blast
      qed
      then show ?thesis using idx(4) [of i b] FF(1) by simp
    qed
  qed
  ultimately have "kernel_ok F ext" by (simp add: kernel_ok_def)
  with sh heldF show "kernel_ok (L\<lparr>k_tasks := (k_tasks L)(a := None)\<rparr>) ext"
    "shrinks K (L\<lparr>k_tasks := (k_tasks L)(a := None)\<rparr>)"
    "held (L\<lparr>k_tasks := (k_tasks L)(a := None)\<rparr>) = held K"
    by (simp_all add: F_def)
qed


section \<open>The handles of a task\<close>

definition handles_total :: "kstate \<Rightarrow> nat" where
  "handles_total K = (\<Sum>a\<in>dom (k_tasks K). length (t_handles (the (k_tasks K a))))"

lemma handles_total_shrinks:
  assumes "shrinks K K'" and "finite (dom (k_tasks K))"
  shows "handles_total K' \<le> handles_total K"
proof -
  have "handles_total K' = (\<Sum>a\<in>dom (k_tasks K'). length (t_handles (the (k_tasks K a))))"
    unfolding handles_total_def using shrinksD(1) [OF assms(1)] by (intro sum.cong) fastforce+
  also have "\<dots> \<le> handles_total K"
    unfolding handles_total_def by (rule sum_mono2 [OF assms(2) shrinks_dom(1) [OF assms(1)]]) simp
  finally show ?thesis .
qed

lemma handles_total_set_task:
  assumes "finite (dom (k_tasks K))" and "k_tasks K a = Some t"
  shows "handles_total (set_task a t' K) + length (t_handles t) =
    handles_total K + length (t_handles t')"
proof -
  let ?f = "\<lambda>m b. length (t_handles (the (m b)))"
  have "(\<Sum>b\<in>dom (k_tasks K) - {a}. ?f ((k_tasks K)(a \<mapsto> t')) b) = (\<Sum>b\<in>dom (k_tasks K) - {a}. ?f (k_tasks K) b)"
    by (rule sum.cong) auto
  moreover have "dom ((k_tasks K)(a \<mapsto> t')) = dom (k_tasks K)"
    using assms(2) by auto
  ultimately show ?thesis
    unfolding handles_total_def set_fields using assms
    by (simp add: sum.remove [of "dom (k_tasks K)" a] domI)
qed

text \<open>The release of a task does what it should when at most \<open>m\<close> handles exist.\<close>

definition releases_upto :: "nat \<Rightarrow> bool" where
  "releases_upto m \<longleftrightarrow> (\<forall>K ext a. handles_total K \<le> m \<longrightarrow> kernel_ok K (ext + {#KTask a#}) \<longrightarrow>
     (\<exists>K'. task_release (Some a) K = Some K' \<and> kernel_ok K' ext \<and>
        released K (ext + {#KTask a#}) K' ext))"

lemma task_release_null [simp]: "task_release None K = Some K"
  by (subst task_release.simps) simp

lemma handle_release_by_ok:
  assumes "releases_upto m" and "handles_total K \<le> m" and "kernel_ok K (ext + handle_obj ty object)"
  shows "\<exists>K'. handle_release_by task_release ty object K = Some K' \<and> kernel_ok K' ext \<and>
    released K (ext + handle_obj ty object) K' ext"
proof (cases object)
  case None
  then show ?thesis
    using assms(3) by (cases ty) (simp_all add: handle_release_by_def handle_obj_def released_refl
      ports.release_null buffers.release_null policies.release_null hardware.release_null)
next
  case (Some a)
  then show ?thesis
    using assms ports.release_ok [of K ext a] buffers.release_ok [of K ext a]
      policies.release_ok [of K ext a] hardware.release_ok [of K ext a]
    by (cases ty) (simp_all add: handle_release_by_def handle_obj_def released_refl releases_upto_def)
qed

lemma release_handles_ok:
  assumes "releases_upto m" and "handles_total K \<le> m" and "kernel_ok K (ext + handles_refs hs)"
  shows "\<exists>K'. release_handles task_release hs K = Some K' \<and> kernel_ok K' ext \<and>
    released K (ext + handles_refs hs) K' ext"
  using assms(2,3)
proof (induction hs arbitrary: K)
  case Nil
  then show ?case by (simp add: handles_refs_def released_refl)
next
  case (Cons h hs)
  have split: "ext + handles_refs (h # hs) = (ext + handles_refs hs) + handle_obj (h_type h) (h_object h)"
    by (simp add: handles_refs_def handle_refs_def)
  obtain K1 where K1: "handle_release_by task_release (h_type h) (h_object h) K = Some K1"
    "kernel_ok K1 (ext + handles_refs hs)"
    "released K (ext + handles_refs (h # hs)) K1 (ext + handles_refs hs)"
    using handle_release_by_ok [OF assms(1) Cons.prems(1), of "ext + handles_refs hs"] Cons.prems(2)
    unfolding split by blast
  have "shrinks K K1"
    using K1(3) by (simp add: released_def)
  from handles_total_shrinks [OF this kernel_okD(4) [OF Cons.prems(2)]]
  have "handles_total K1 \<le> m"
    using Cons.prems(1) by simp
  from Cons.IH [OF this K1(2)] K1(1) show ?case
    using released_trans [OF K1(3)] by auto
qed


section \<open>Teardown\<close>

lemma port_ref_release_ok:
  assumes "kernel_ok K (ext + port_ref port)"
  shows "\<exists>K'. ipc_port_release port K = Some K' \<and> kernel_ok K' ext \<and>
    released K (ext + port_ref port) K' ext"
  using assms ports.release_ok [of K ext] ports.release_null [of K]
  by (cases port) (auto simp: port_ref_def released_refl)

lemma teardown_vm_ok:
  assumes "task_ok t"
  shows "\<exists>unmapped vm. teardown_vm t = Some (unmapped, vm)"
  using assms teardown_ok [of "t_vm t" "[]"] by (auto simp: teardown_vm_def task_ok_def table_ok_def)

lemma teardown_detach_ok:
  assumes ok: "kernel_ok K ext" and t: "k_tasks K a = Some t"
  obtains K1 t1 d u where "teardown_detach a K = Some (t, K1)"
    and "K1 = set_task a t1 (K\<lparr>k_deaths := d, k_unmapped := u\<rparr>)"
    and "kernel_ok K1 (ext + task_refs t)" and "t_handles t1 = []" and "task_refs t1 = {#}"
    and "t_ref_count t1 = t_ref_count t" and "t_pid t1 = t_pid t"
proof -
  obtain unmapped vm where vm: "teardown_vm t = Some (unmapped, vm)"
    using teardown_vm_ok [OF kernel_okD(8) [OF ok t]] by blast
  define t1 where "t1 = t\<lparr>t_handles := [], t_reply_port := None, t_vm_space := None,
    t_owns_vm_space := False, t_vm := vm\<lparr>vm_regions := [], vm_region_capacity := 0\<rparr>\<rparr>"
  define d u where "d = k_deaths K @ [t_pid t]"
    and "u = k_unmapped K @ map (\<lambda>(base, len). (t_vm_space t, base, len)) unmapped"
  have t1: "t_handles t1 = []" "task_refs t1 = {#}" "t_ref_count t1 = t_ref_count t" "t_pid t1 = t_pid t"
    "task_ok t1"
    by (simp_all add: t1_def task_refs_def handles_refs_def port_ref_def task_ok_def table_ok_def
      regions_ok_def)
  have "kernel_ok (K\<lparr>k_deaths := d, k_unmapped := u\<rparr>) ext"
    using ok by simp
  then have "kernel_ok (set_task a t1 (K\<lparr>k_deaths := d, k_unmapped := u\<rparr>)) (ext + task_refs t)"
    using t t1 by (elim kernel_ok_set_task) (simp_all add: ac_simps)
  moreover have "teardown_detach a K = Some (t, set_task a t1 (K\<lparr>k_deaths := d, k_unmapped := u\<rparr>))"
    using t vm by (simp add: teardown_detach_def t1_def d_def u_def)
  ultimately show ?thesis
    using that t1(1-4) by blast
qed

text \<open>A change to a task that is gone in the end does not show.\<close>

lemma shrinks_through_task:
  assumes "shrinks (set_task a t1 (K\<lparr>k_deaths := d, k_unmapped := u\<rparr>)) F" and "k_tasks F a = None"
  shows "shrinks K F"
proof -
  have "sub_map (\<lambda>t t'. \<exists>n. t' = t\<lparr>t_ref_count := n\<rparr>) (k_tasks K) (k_tasks F)"
    unfolding sub_map_def
  proof (intro allI impI)
    fix b y
    assume b: "k_tasks F b = Some y"
    then have "b \<noteq> a" using assms(2) by auto
    with shrinksD(1) [OF assms(1) b] show "\<exists>x. k_tasks K b = Some x \<and> (\<exists>n. y = x\<lparr>t_ref_count := n\<rparr>)"
      by simp
  qed
  then show ?thesis
    using assms(1) by (simp add: shrinks_def)
qed

lemma shrinks_logs [simp]:
  "shrinks K (K'\<lparr>k_destroyed_spaces := s\<rparr>) = shrinks K K'"
  "shrinks (K\<lparr>k_destroyed_spaces := s\<rparr>) K' = shrinks K K'"
  by (simp_all add: shrinks_def)

lemma teardown_by_ok:
  assumes ok: "kernel_ok K ext" and t: "k_tasks K a = Some t" and zero: "t_ref_count t = 0"
    and a: "a \<noteq> k_kernel_task K" and IH: "\<And>m. m < handles_total K \<Longrightarrow> releases_upto m"
  shows "\<exists>L F. teardown_by task_release a K = Some L \<and> F = L\<lparr>k_tasks := (k_tasks L)(a := None)\<rparr> \<and>
    kernel_ok F ext \<and> shrinks K F \<and> set_mset (held F + ext) \<subseteq> set_mset (held K + ext) \<and>
    (\<forall>b. b \<noteq> a \<longrightarrow> KTask b \<notin># held K + ext \<longrightarrow> k_tasks F b = k_tasks K b)"
proof -
  obtain K1 t1 d u where d: "teardown_detach a K = Some (t, K1)"
    and K1: "K1 = set_task a t1 (K\<lparr>k_deaths := d, k_unmapped := u\<rparr>)"
    and ok1: "kernel_ok K1 (ext + task_refs t)" and t1: "t_handles t1 = []" "task_refs t1 = {#}"
      "t_ref_count t1 = t_ref_count t" "t_pid t1 = t_pid t"
    by (rule teardown_detach_ok [OF ok t])
  have "held K1 + task_refs t = held K"
    using held_set_task [OF _ t, of t1] kernel_okD(4) [OF ok] t1(2) K1
      held_set_task [of "K\<lparr>k_deaths := d, k_unmapped := u\<rparr>" a t t1] t by simp
  then have total: "held K1 + (ext + task_refs t) = held K + ext"
    by (metis add.assoc add.commute)
  have task_a: "KTask a \<notin># held K1 + (ext + task_refs t)"
    using refs_ok_count [OF kernel_okD(1) [OF ok1], of "KTask a" 0] K1 t1(3) zero a
    by (simp add: not_in_iff)
  have refs: "ext + task_refs t = (ext + port_ref (t_reply_port t)) + handles_refs (t_handles t)"
    by (simp add: task_refs_def ac_simps)
  have "\<exists>K2. release_handles task_release (t_handles t) K1 = Some K2 \<and>
      kernel_ok K2 (ext + port_ref (t_reply_port t)) \<and>
      released K1 (ext + task_refs t) K2 (ext + port_ref (t_reply_port t))"
  proof (cases "t_handles t = []")
    case True
    then show ?thesis
      using ok1 refs by (simp add: handles_refs_def released_refl)
  next
    case False
    have "handles_total K1 + length (t_handles t) = handles_total K"
      using handles_total_set_task [of "K\<lparr>k_deaths := d, k_unmapped := u\<rparr>" a t t1]
        kernel_okD(4) [OF ok] t t1(1) K1 by (simp add: handles_total_def)
    then have "handles_total K1 < handles_total K"
      using False by (cases "t_handles t") simp_all
    from release_handles_ok [OF IH [OF this] order_refl, of "ext + port_ref (t_reply_port t)" "t_handles t"]
    show ?thesis using ok1 unfolding refs .
  qed
  then obtain K2 where K2: "release_handles task_release (t_handles t) K1 = Some K2"
    "kernel_ok K2 (ext + port_ref (t_reply_port t))"
    "released K1 (ext + task_refs t) K2 (ext + port_ref (t_reply_port t))" by blast
  from port_ref_release_ok [OF K2(2)] obtain K3 where K3: "ipc_port_release (t_reply_port t) K2 = Some K3"
    "kernel_ok K3 ext" "released K2 (ext + port_ref (t_reply_port t)) K3 ext" by blast
  have rel: "released K1 (ext + task_refs t) K3 ext"
    by (rule released_trans [OF K2(3) K3(3)])
  have t3: "k_tasks K3 a = Some t1"
    using rel task_a K1 by (auto simp: released_def)
  define K4 where "K4 = (if t_owns_vm_space t
    then K3\<lparr>k_destroyed_spaces := k_destroyed_spaces K3 @ [t_vm_space t]\<rparr> else K3)"
  have K4: "kernel_ok K4 ext" "k_tasks K4 a = Some t1" "held K4 = held K3" "shrinks K1 K4"
    "k_tasks K4 = k_tasks K3" "k_kernel_task K4 = k_kernel_task K"
    using K3(2) t3 rel shrinksD(11) [of K1 K3] K1 by (auto simp: K4_def released_def)
  obtain L where L: "task_remove_from_list a K4 = Some L"
    using K4(2) by (simp add: task_remove_from_list_def)
  define F where "F = L\<lparr>k_tasks := (k_tasks L)(a := None)\<rparr>"
  note del = kernel_ok_del_task [OF K4(1,2) t1(2) _ _ L, folded F_def]
  have F: "kernel_ok F ext" "shrinks K4 F" "held F = held K3" "k_tasks F = (k_tasks K3)(a := None)"
    using del t1(3) zero a K4(3,5,6) by (simp_all add: F_def)
  have "shrinks K1 F"
    by (rule shrinks_trans [OF K4(4) F(2)])
  then have "shrinks K F"
    unfolding K1 by (rule shrinks_through_task) (simp add: F(4))
  moreover have "set_mset (held F + ext) \<subseteq> set_mset (held K + ext)"
    using rel F(3) unfolding released_def total by simp
  moreover have "k_tasks F b = k_tasks K b" if "b \<noteq> a" "KTask b \<notin># held K + ext" for b
    using rel that F(4) K1 unfolding released_def total by simp
  moreover have "teardown_by task_release a K = Some L"
    using d K2(1) K3(1) L by (simp add: teardown_by_def K4_def)
  ultimately show ?thesis
    using F(1) F_def by blast
qed

lemma releases: "releases_upto m"
proof (induction m rule: less_induct)
  case (less m)
  show ?case
    unfolding releases_upto_def
  proof (intro allI impI)
    fix K ext a
    assume m: "handles_total K \<le> m" and ok: "kernel_ok K (ext + {#KTask a#})"
    obtain t where t: "k_tasks K a = Some t" using ext_alive [OF ok] by auto
    show "\<exists>K'. task_release (Some a) K = Some K' \<and> kernel_ok K' ext \<and>
      released K (ext + {#KTask a#}) K' ext"
    proof (cases "a = k_kernel_task K")
      case True
      then have "kernel_ok K ext"
        using ok by (elim kernel_ok_dec) (simp_all add: fun_upd_idem)
      then show ?thesis
        using True released_simple [of K K ext "KTask a"] by (subst task_release.simps) simp
    next
      case False
      have pos: "t_ref_count t \<noteq> 0"
        using ext_count [OF ok, of "unat (t_ref_count t)"] t False by simp
      let ?t = "t\<lparr>t_ref_count := t_ref_count t - 1\<rparr>" and ?K = "set_task a (t\<lparr>t_ref_count := t_ref_count t - 1\<rparr>) K"
      have sh: "shrinks K ?K" and held: "held ?K = held K"
        by (rule shrinks_set(2) [OF t], rule held_ref_counts(2) [OF ok t])
      have dec: "kernel_ok ?K ext"
        using t pos False held by (intro kernel_ok_dec [OF ok sh])
          (simp_all add: refcount_set alive_set unat_dec_32)
      have run: "task_release (Some a) K = (if t_ref_count t - 1 = 0 \<and> t_dead t
          then do { K2 \<leftarrow> teardown_by task_release a ?K; Some (K2\<lparr>k_tasks := (k_tasks K2)(a := None)\<rparr>) }
          else Some ?K)"
        using t False pos by (subst task_release.simps) (simp add: word_gt_0 Let_def)
      have same: "KTask b \<notin># held K + (ext + {#KTask a#}) \<Longrightarrow> b \<noteq> a" for b by auto
      show ?thesis
      proof (cases "t_ref_count t - 1 = 0 \<and> t_dead t")
        case True
        have "handles_total ?K = handles_total K"
          using handles_total_set_task [OF kernel_okD(4) [OF ok] t, of ?t] by simp
        then have IH: "releases_upto m'" if "m' < handles_total ?K" for m'
          using less.IH that m by simp
        obtain L F where LF: "teardown_by task_release a ?K = Some L"
          "F = L\<lparr>k_tasks := (k_tasks L)(a := None)\<rparr>" "kernel_ok F ext" "shrinks ?K F"
          "set_mset (held F + ext) \<subseteq> set_mset (held ?K + ext)"
          "\<And>b. b \<noteq> a \<Longrightarrow> KTask b \<notin># held ?K + ext \<Longrightarrow> k_tasks F b = k_tasks ?K b"
          using teardown_by_ok [OF dec _ _ _ IH, of a ?t] True False by auto
        have "released K (ext + {#KTask a#}) F ext"
          unfolding released_def using shrinks_trans [OF sh LF(4)] LF(5,6) held by auto
        then show ?thesis
          using run True LF(1,2,3) by auto
      next
        case no: False
        have "released K (ext + {#KTask a#}) ?K ext"
          unfolding released_def using sh held by auto
        then show ?thesis
          using run no dec by auto
      qed
    qed
  qed
qed

lemma task_release_ok:
  assumes "kernel_ok K (ext + {#KTask a#})"
  shows "\<exists>K'. task_release (Some a) K = Some K' \<and> kernel_ok K' ext \<and>
    released K (ext + {#KTask a#}) K' ext"
  using releases [of "handles_total K"] assms by (simp add: releases_upto_def)

interpretation tasks: releasable KTask task_release
  by unfold_locales (rule task_release_ok | simp)+

lemma task_handle_release_ok:
  assumes "kernel_ok K (ext + handle_obj ty object)"
  shows "\<exists>K'. task_handle_release ty object K = Some K' \<and> kernel_ok K' ext \<and>
    released K (ext + handle_obj ty object) K' ext"
  using handle_release_by_ok [OF releases order_refl assms] by (simp add: task_handle_release_def)

end
