(* ===== verification/Handles_Proofs.thy ===== *)
theory Handles_Proofs
  imports Task_Release
begin

text \<open>
  The handle tables as maps from handle numbers to capabilities, and what each operation does
  to these maps and to the references.
\<close>

section \<open>Slots\<close>

lemma handles_refs_simps [simp]:
  "handles_refs [] = {#}" "handles_refs (h # hs) = handle_refs h + handles_refs hs"
  "handles_refs (hs @ hs') = handles_refs hs + handles_refs hs'"
  by (simp_all add: handles_refs_def)

lemma handle_refs_empty [simp]: "handle_refs empty_handle = {#}" "h_type empty_handle = TASK_HANDLE_EMPTY"
  by (simp_all add: handle_refs_def handle_obj_def empty_handle_def)

lemma handle_ok_simps [simp]: "handle_ok empty_handle" "handle_ok (fill_handle ty rights b h)"
  by (simp_all add: handle_ok_def fill_handle_def)

lemma handle_ok_update:
  "\<forall>h \<in> set hs. handle_ok h \<Longrightarrow> handle_ok x \<Longrightarrow> \<forall>h \<in> set (hs[i := x]). handle_ok h"
  using set_update_subset_insert [of hs i x] by blast

lemma handles_refs_replicate [simp]: "handles_refs (replicate n empty_handle) = {#}"
  by (induction n) simp_all

lemma handles_refs_update:
  "i < length hs \<Longrightarrow> handles_refs (hs[i := h]) + handle_refs (hs ! i) = handles_refs hs + handle_refs h"
  by (induction hs arbitrary: i) (auto split: nat.splits simp: ac_simps)

lemma handle_refs_type_empty: "h_type h = TASK_HANDLE_EMPTY \<Longrightarrow> handle_refs h = {#}"
  by (simp add: handle_refs_def handle_obj_def split: option.splits)

lemma handle_refs_fill [simp]: "handle_refs (fill_handle ty rights b h) = handle_obj ty (Some b)"
  by (simp add: handle_refs_def fill_handle_def)

lemma handle_scan_Some:
  "handle_scan P k hs = Some i \<Longrightarrow> k \<le> i \<and> i < k + length hs \<and> P (hs ! (i - k))"
proof (induction hs arbitrary: k)
  case (Cons h hs)
  show ?case
  proof (cases "P h")
    case False
    then have "handle_scan P (Suc k) hs = Some i" using Cons.prems by simp
    from Cons.IH [OF this] show ?thesis by (auto simp: nth_Cons' split: if_splits)
  qed (use Cons.prems in auto)
qed simp

lemma handle_scan_None: "handle_scan P k hs = None \<longleftrightarrow> (\<forall>h \<in> set hs. \<not> P h)"
  by (induction hs arbitrary: k) auto

lemma grow_capacity_total:
  assumes "0 < unat c" and "unat m \<le> 2 ^ 31"
  shows "\<exists>n. grow_capacity c m = Some n \<and> unat m \<le> unat n \<and> (n = c \<or> unat n < 2 * unat m)"
  using assms(1)
proof (induction "2 ^ 31 - unat c" arbitrary: c rule: less_induct)
  case less
  show ?case
  proof (cases "c < m")
    case False
    then show ?thesis
      by (subst grow_capacity.simps) (simp add: word_less_nat_alt)
  next
    case True
    then have lt: "unat c < unat m" by (simp add: word_less_nat_alt)
    then have two: "unat (c * 2) = unat c * 2"
      using assms(2) by (subst unat_mult_lem [THEN iffD1]) simp_all
    have "2 ^ 31 - unat (c * 2) < 2 ^ 31 - unat c"
      using lt two less.prems assms(2) by linarith
    from less.hyps [OF this] two less.prems
    obtain n where n: "grow_capacity (c * 2) m = Some n" "unat m \<le> unat n" "n = c * 2 \<or> unat n < 2 * unat m"
      by auto
    then show ?thesis
      using True lt two by (subst grow_capacity.simps) auto
  qed
qed


section \<open>Allocation\<close>

lemma below_2_31: "n < 2 ^ 30 \<Longrightarrow> n < (2 :: nat) ^ 31"
  by simp

lemma slab_answer_cases:
  obtains b r where "slab_answer K = (b, K\<lparr>k_allocs := r\<rparr>)" and "set r \<subseteq> set (k_allocs K)"
    and "b \<longleftrightarrow> (\<exists>r'. k_allocs K = True # r')"
proof
  show "slab_answer K = (k_allocs K \<noteq> [] \<and> hd (k_allocs K), K\<lparr>k_allocs := tl (k_allocs K)\<rparr>)"
    by (rule slab_answer_def)
  show "set (tl (k_allocs K)) \<subseteq> set (k_allocs K)"
    by (cases "k_allocs K") auto
  show "(k_allocs K \<noteq> [] \<and> hd (k_allocs K)) \<longleftrightarrow> (\<exists>r'. k_allocs K = True # r')"
    by (cases "k_allocs K") auto
qed

lemma kernel_ok_allocs [simp]: "kernel_ok (K\<lparr>k_allocs := r\<rparr>) ext = kernel_ok K ext"
proof -
  have "refcount (K\<lparr>k_allocs := r\<rparr>) = refcount K" "alive (K\<lparr>k_allocs := r\<rparr>) = alive K"
    by (rule ext, case_tac x; simp)+
  then show ?thesis
    by (simp add: kernel_ok_def refs_ok_def held_def stores_ok_def index_ok_def port_ok_def)
qed

text \<open>A table with more empty slots, and fewer answers of the allocator to come.\<close>

definition grown :: "nat \<Rightarrow> kstate \<Rightarrow> kstate \<Rightarrow> bool" where
  "grown a K K' \<longleftrightarrow> (\<exists>t k r. k_tasks K a = Some t \<and> length (t_handles t) + k < 2 ^ 31 \<and>
     K' = set_task a (t\<lparr>t_handles := t_handles t @ replicate k empty_handle\<rparr>) (K\<lparr>k_allocs := r\<rparr>))"

lemma set_task_same: "k_tasks K a = Some t \<Longrightarrow> set_task a t K = K"
  by (simp add: set_task_def fun_upd_idem)

lemma grown_allocs:
  "k_tasks K a = Some t \<Longrightarrow> length (t_handles t) < 2 ^ 31 \<Longrightarrow> grown a K (K\<lparr>k_allocs := r\<rparr>)"
  unfolding grown_def using set_task_same [of "K\<lparr>k_allocs := r\<rparr>" a t]
  by (intro exI [of _ t] exI [of _ 0] exI [of _ r]) simp

lemma grown_ok:
  assumes "grown a K K'" and "kernel_ok K ext"
  shows "kernel_ok K' ext"
proof -
  obtain t k r where g: "k_tasks K a = Some t" "length (t_handles t) + k < 2 ^ 31"
    "K' = set_task a (t\<lparr>t_handles := t_handles t @ replicate k empty_handle\<rparr>) (K\<lparr>k_allocs := r\<rparr>)"
    using assms(1) by (auto simp: grown_def)
  have "kernel_ok (K\<lparr>k_allocs := r\<rparr>) ext"
    using assms(2) by simp
  then show ?thesis
    unfolding g(3) using g(1,2) kernel_okD(8) [OF assms(2) g(1)]
    by (elim kernel_ok_set_task) (auto simp: task_ok_def task_refs_def)
qed

lemma task_grow_ok:
  assumes "k_tasks K a = Some t" and "length (t_handles t) < 2 ^ 30" and "unat m \<le> 2 ^ 30"
  shows "\<exists>s K'. task_grow_handles_locked a m K = Some (s, K') \<and> grown a K K' \<and>
    (s = OK \<longrightarrow> (\<exists>t'. k_tasks K' a = Some t' \<and> unat m \<le> length (t_handles t'))) \<and>
    (s \<noteq> OK \<longrightarrow> (\<nexists>r. k_allocs K = True # r))"
proof -
  have cap: "unat (handle_capacity t) = length (t_handles t)"
    using assms(2) by (simp add: handle_capacity_def unat_of_nat)
  have len31: "length (t_handles t) < 2 ^ 31"
    by (rule below_2_31 [OF assms(2)])
  show ?thesis
  proof (cases "handle_capacity t \<ge> m")
    case True
    moreover have "grown a K (K\<lparr>k_allocs := k_allocs K\<rparr>)"
      by (rule grown_allocs [OF assms(1) len31])
    ultimately show ?thesis
      using assms(1) cap by (auto simp: task_grow_handles_locked_def word_le_nat_alt)
  next
    case False
    let ?c = "if handle_capacity t = 0 then INITIAL_TASK_HANDLES else handle_capacity t"
    obtain n where n: "grow_capacity ?c m = Some n" "unat m \<le> unat n" "n = ?c \<or> unat n < 2 * unat m"
    proof -
      have "0 < unat ?c" and "unat m \<le> 2 ^ 31"
        using assms(3) by (simp_all add: unat_gt_0)
      from grow_capacity_total [OF this] show ?thesis using that by blast
    qed
    have n31: "unat n < 2 ^ 31"
      using n(3) assms(2,3) cap by (auto split: if_splits)
    have le: "length (t_handles t) \<le> unat n"
      using False n(2) cap by (simp add: word_le_nat_alt)
    obtain b r where b: "slab_answer K = (b, K\<lparr>k_allocs := r\<rparr>)" "b \<longleftrightarrow> (\<exists>r'. k_allocs K = True # r')"
      by (rule slab_answer_cases)
    show ?thesis
    proof (cases b)
      case True
      let ?t = "t\<lparr>t_handles := t_handles t @ replicate (unat n - length (t_handles t)) empty_handle\<rparr>"
      have "grown a K (set_task a ?t (K\<lparr>k_allocs := r\<rparr>))"
        unfolding grown_def using assms(1) n31 le
        by (intro exI [of _ t] exI [of _ "unat n - length (t_handles t)"] exI [of _ r]) simp
      then show ?thesis
        using False True b(1) n le assms(1) by (simp add: task_grow_handles_locked_def)
    next
      case no: False
      then show ?thesis
        using False b n(1) assms(1) grown_allocs [OF assms(1) len31, of r] by (simp add: task_grow_handles_locked_def)
    qed
  qed
qed


lemma grown_trans_task:
  assumes "grown a K K'" and "k_tasks K a = Some t"
  obtains k where "k_tasks K' a = Some (t\<lparr>t_handles := t_handles t @ replicate k empty_handle\<rparr>)"
    and "\<And>b. b \<noteq> a \<Longrightarrow> k_tasks K' b = k_tasks K b" and "length (t_handles t) + k < 2 ^ 31"
  using assms by (auto simp: grown_def)

text \<open>The search ends with an empty slot, or with the table as it was and no memory.\<close>

lemma free_slot_loop_ok:
  assumes t: "k_tasks K a = Some t" and len: "length (t_handles t) < 2 ^ 30"
  shows "\<exists>slot K'. free_slot_loop a K = Some (slot, K') \<and> grown a K K' \<and>
    (case slot of
       Some i \<Rightarrow> (\<exists>t'. k_tasks K' a = Some t' \<and> i < length (t_handles t') \<and>
                   h_type (t_handles t' ! i) = TASK_HANDLE_EMPTY)
     | None \<Rightarrow> (\<nexists>r. k_allocs K = True # r))"
proof (cases "handle_scan (\<lambda>h. h_type h = TASK_HANDLE_EMPTY) 0 (t_handles t)")
  case (Some i)
  have len31: "length (t_handles t) < 2 ^ 31"
    by (rule below_2_31 [OF len])
  have "grown a K (K\<lparr>k_allocs := k_allocs K\<rparr>)"
    by (rule grown_allocs [OF t len31])
  then show ?thesis
    using t Some handle_scan_Some [OF Some] by (subst free_slot_loop.simps) simp
next
  case None
  let ?m = "handle_capacity t + 1"
  have m: "unat ?m = Suc (length (t_handles t))"
    using len by (simp add: handle_capacity_def unat_plus_if' unat_of_nat)
  obtain s K1 where g: "task_grow_handles_locked a ?m K = Some (s, K1)" "grown a K K1"
    "s = OK \<longrightarrow> (\<exists>t'. k_tasks K1 a = Some t' \<and> unat ?m \<le> length (t_handles t'))"
    "s \<noteq> OK \<longrightarrow> (\<nexists>r. k_allocs K = True # r)"
    using task_grow_ok [OF t len, of ?m] m len by auto
  show ?thesis
  proof (cases "s = OK")
    case False
    then show ?thesis
      using t None g by (subst free_slot_loop.simps) simp
  next
    case True
    obtain k where k: "k_tasks K1 a = Some (t\<lparr>t_handles := t_handles t @ replicate k empty_handle\<rparr>)"
      by (rule grown_trans_task [OF g(2) t])
    then have "0 < k"
      using g(3) True m by auto
    then have "empty_handle \<in> set (t_handles t @ replicate k empty_handle)"
      by simp
    then have "handle_scan (\<lambda>h. h_type h = TASK_HANDLE_EMPTY) 0 (t_handles t @ replicate k empty_handle) \<noteq> None"
      unfolding handle_scan_None by (metis handle_refs_empty(2))
    then obtain i where i: "handle_scan (\<lambda>h. h_type h = TASK_HANDLE_EMPTY) 0
        (t_handles t @ replicate k empty_handle) = Some i" by auto
    have "free_slot_loop a K1 = Some (Some i, K1)"
      using k i by (subst free_slot_loop.simps) simp
    then have "free_slot_loop a K = Some (Some i, K1)"
      using t None g(1) True by (subst free_slot_loop.simps) simp
    then show ?thesis
      using g(2) k handle_scan_Some [OF i] by auto
  qed
qed


section \<open>Handle tables as maps\<close>

definition caps :: "kstate \<Rightarrow> nat \<Rightarrow> u64 \<Rightarrow> task_handle option" where
  "caps K a handle =
     (case k_tasks K a of
        None \<Rightarrow> None
      | Some t \<Rightarrow>
          if handle = 0 \<or> unat handle > length (t_handles t) then None
          else let h = t_handles t ! (unat handle - 1)
               in if h_type h = TASK_HANDLE_EMPTY then None else Some h)"

lemma handle_at_caps:
  assumes "k_tasks K a = Some t"
  shows "handle_at a handle K =
    Some (if handle = 0 \<or> unat handle > length (t_handles t) then None
          else Some (t_handles t ! (unat handle - 1)))"
  using assms by (simp add: handle_at_def)

lemma unat_handle_no: "i < 2 ^ 31 \<Longrightarrow> unat (handle_no i) = Suc i"
  unfolding handle_no_def unat_of_nat by simp

lemma handle_no_inj: "i < 2 ^ 31 \<Longrightarrow> unat h = Suc i \<Longrightarrow> h = handle_no i"
  by (metis unat_handle_no word_unat_eq_iff)

lemma caps_cong: "k_tasks K' a = k_tasks K a \<Longrightarrow> caps K' a = caps K a"
  by (simp add: caps_def fun_eq_iff)

lemma caps_handles:
  assumes "k_tasks K a = Some t" and "k_tasks K' a = Some t'" and "t_handles t' = t_handles t"
  shows "caps K' a = caps K a"
  using assms by (simp add: caps_def fun_eq_iff)

lemma caps_grown:
  assumes "grown a K K'"
  shows "caps K' = caps K"
proof (intro ext)
  fix b h
  obtain t where t: "k_tasks K a = Some t" using assms by (auto simp: grown_def)
  obtain k where k: "k_tasks K' a = Some (t\<lparr>t_handles := t_handles t @ replicate k empty_handle\<rparr>)"
    "\<And>b. b \<noteq> a \<Longrightarrow> k_tasks K' b = k_tasks K b"
    by (rule grown_trans_task [OF assms t]) blast
  show "caps K' b h = caps K b h"
  proof (cases "b = a")
    case False
    then show ?thesis using caps_cong [of K' b K] k(2) by simp
  next
    case True
    have "(t_handles t @ replicate k empty_handle) ! (unat h - 1) =
        (if unat h \<le> length (t_handles t) then t_handles t ! (unat h - 1) else empty_handle)"
      if "h \<noteq> 0" "unat h \<le> length (t_handles t) + k"
    proof -
      have "0 < unat h" using that(1) by (simp add: unat_gt_0)
      then show ?thesis using that(2) by (auto simp: nth_append)
    qed
    then show ?thesis
      using True t k(1) by (auto simp: caps_def Let_def)
  qed
qed

text \<open>Writing a slot.\<close>

lemma caps_write:
  assumes "k_tasks K a = Some t" and "i < length (t_handles t)" and "length (t_handles t) < 2 ^ 31"
    and "k_tasks K' a = Some t'" and "t_handles t' = (t_handles t)[i := x]"
    and "\<And>b. b \<noteq> a \<Longrightarrow> map_option t_handles (k_tasks K' b) = map_option t_handles (k_tasks K b)"
  shows "caps K' = (caps K)(a := (caps K a)(handle_no i :=
    if h_type x = TASK_HANDLE_EMPTY then None else Some x))"
proof (intro ext)
  fix b h
  show "caps K' b h = ((caps K)(a := (caps K a)(handle_no i :=
    if h_type x = TASK_HANDLE_EMPTY then None else Some x))) b h"
  proof (cases "b = a")
    case False
    then show ?thesis
      using assms(6) [OF False] by (cases "k_tasks K b"; cases "k_tasks K' b") (simp_all add: caps_def)
  next
    case True
    have i31: "i < 2 ^ 31" using assms(2,3) by linarith
    have eq: "unat h - 1 = i \<longleftrightarrow> h = handle_no i" if "h \<noteq> 0"
      using that unat_handle_no [OF i31] handle_no_inj [OF i31, of h] by (auto simp: unat_gt_0)
    show ?thesis
      using True assms(1,2,4,5) eq unat_handle_no [OF i31]
      by (cases "h = handle_no i") (auto simp: caps_def Let_def nth_list_update)
  qed
qed


section \<open>Granting\<close>

definition granted ::
  "task_handle_type \<Rightarrow> nat \<Rightarrow> nat \<Rightarrow> u32 \<Rightarrow> kstate \<Rightarrow> u64 \<Rightarrow> kstate \<Rightarrow> bool" where
  "granted ty a b rights K h K' \<longleftrightarrow> alive K' = alive K \<and>
     (if h = 0 then caps K' = caps K \<and> (\<nexists>r. k_allocs K = True # r)
      else \<exists>x. caps K' = (caps K)(a := (caps K a)(h \<mapsto> x)) \<and> h_type x = ty \<and> h_rights x = rights \<and>
        h_object x = Some b \<and> (caps K a h = None \<or> caps K a h = Some x))"

lemma grant_slot_ok:
  assumes t: "k_tasks K a = Some t" and len: "length (t_handles t) < 2 ^ 30"
  obtains (full) K1 where "grant_slot a ty b rights K = Some (None, K1)" and "grown a K K1"
      and "\<nexists>r. k_allocs K = True # r"
  | (existing) i where "grant_slot a ty b rights K = Some (Some (i, True), K)"
      and "i < length (t_handles t)" and "h_type (t_handles t ! i) = ty"
      and "h_object (t_handles t ! i) = Some b" and "h_rights (t_handles t ! i) = rights"
  | (fresh) i K1 t1 where "grant_slot a ty b rights K = Some (Some (i, False), K1)" and "grown a K K1"
      and "k_tasks K1 a = Some t1" and "i < length (t_handles t1)" and "length (t_handles t1) < 2 ^ 31"
      and "h_type (t_handles t1 ! i) = TASK_HANDLE_EMPTY"
proof (cases "handle_scan (\<lambda>h. h_type h = ty \<and> h_object h = Some b \<and> h_rights h = rights) 0 (t_handles t)")
  case (Some i)
  then show ?thesis
    using existing [of i] t handle_scan_Some [OF Some] by (simp add: grant_slot_def)
next
  case None
  obtain slot K1 where l: "free_slot_loop a K = Some (slot, K1)" "grown a K K1"
    "case slot of Some i \<Rightarrow> (\<exists>t'. k_tasks K1 a = Some t' \<and> i < length (t_handles t') \<and>
        h_type (t_handles t' ! i) = TASK_HANDLE_EMPTY) | None \<Rightarrow> (\<nexists>r. k_allocs K = True # r)"
    using free_slot_loop_ok [OF t len] by blast
  obtain k where k: "k_tasks K1 a = Some (t\<lparr>t_handles := t_handles t @ replicate k empty_handle\<rparr>)"
    "length (t_handles t) + k < 2 ^ 31"
    by (rule grown_trans_task [OF l(2) t]) blast
  show ?thesis
  proof (cases slot)
    case no: None
    then show ?thesis
      using full [of K1] t None l by (simp add: grant_slot_def)
  next
    case slot: (Some i)
    then show ?thesis
      using fresh [of i K1] t None l k by (auto simp: grant_slot_def)
  qed
qed

lemma alive_grown: "grown a K K' \<Longrightarrow> alive K' = alive K"
  by (rule ext, case_tac x) (auto simp: grown_def fun_upd_apply split: if_splits)

lemma refcount_grown: "grown a K K' \<Longrightarrow> refcount K' = refcount K"
  by (rule ext, case_tac x) (auto simp: grown_def)

lemma granted_full:
  assumes "grown a K K1" and "\<nexists>r. k_allocs K = True # r"
  shows "granted ty a b rights K 0 K1"
  using assms by (simp add: granted_def alive_grown caps_grown)

lemma granted_existing:
  assumes "k_tasks K a = Some t" and "length (t_handles t) < 2 ^ 30" and "ty \<noteq> TASK_HANDLE_EMPTY"
    and "i < length (t_handles t)" and "h_type (t_handles t ! i) = ty"
    and "h_object (t_handles t ! i) = Some b" and "h_rights (t_handles t ! i) = rights"
    and "caps K' = caps K" and "alive K' = alive K"
  shows "granted ty a b rights K (handle_no i) K'"
proof -
  have i31: "i < 2 ^ 31"
    using assms(2,4) by simp
  have no: "unat (handle_no i) = Suc i"
    by (rule unat_handle_no [OF i31])
  then have "handle_no i \<noteq> 0" by auto
  then have "caps K a (handle_no i) = Some (t_handles t ! i)"
    using assms no by (simp add: caps_def)
  then show ?thesis
    unfolding granted_def using assms no \<open>handle_no i \<noteq> 0\<close>
    by (auto intro!: exI [of _ "t_handles t ! i"] simp: fun_upd_idem)
qed

text \<open>The new handle takes over a reference from the caller.\<close>

lemma place_handle_ok:
  assumes ok: "kernel_ok Kr (ext + handle_obj ty (Some b))" and tr: "k_tasks Kr a = Some tr"
    and i: "i < length (t_handles tr)" and empty: "h_type (t_handles tr ! i) = TASK_HANDLE_EMPTY"
    and t': "t_handles t' = (t_handles tr)[i := fill_handle ty rights b (t_handles tr ! i)]"
      "t_pid t' = t_pid tr" "t_ref_count t' = t_ref_count tr" "t_reply_port t' = t_reply_port tr"
      "t_vm t' = t_vm tr"
  shows "kernel_ok (set_task a t' Kr) ext"
proof (rule kernel_ok_set_task [OF ok tr])
  show "task_ok t'"
  proof -
    have "\<forall>h \<in> set (t_handles t'). handle_ok h"
      unfolding t'(1) using kernel_okD(8) [OF ok tr]
      by (intro handle_ok_update) (simp_all add: task_ok_def)
    then show ?thesis
      using kernel_okD(8) [OF ok tr] t' by (simp add: task_ok_def)
  qed
  have "handles_refs (t_handles t') = handles_refs (t_handles tr) + handle_obj ty (Some b)"
    using handles_refs_update [OF i, of "fill_handle ty rights b (t_handles tr ! i)"]
      handle_refs_type_empty [OF empty] t'(1) by simp
  then show "task_refs t' + ext = task_refs tr + (ext + handle_obj ty (Some b))"
    by (simp add: task_refs_def t'(4) ac_simps)
qed (simp_all add: t')

lemma granted_fresh:
  assumes g: "grown a K K1" and t1: "k_tasks K1 a = Some t1" and i: "i < length (t_handles t1)"
    and len: "length (t_handles t1) < 2 ^ 31" and empty: "h_type (t_handles t1 ! i) = TASK_HANDLE_EMPTY"
    and ty: "ty \<noteq> TASK_HANDLE_EMPTY"
    and t': "k_tasks K' a = Some t'" "t_handles t' = (t_handles t1)[i := fill_handle ty rights b (t_handles t1 ! i)]"
    and others: "\<And>c. c \<noteq> a \<Longrightarrow> map_option t_handles (k_tasks K' c) = map_option t_handles (k_tasks K1 c)"
    and alive: "alive K' = alive K1"
  shows "granted ty a b rights K (handle_no i) K'"
proof -
  let ?x = "fill_handle ty rights b (t_handles t1 ! i)"
  have x: "h_type ?x = ty" "h_rights ?x = rights" "h_object ?x = Some b"
    by (simp_all add: fill_handle_def)
  have i31: "i < 2 ^ 31" using i len by simp
  have no: "unat (handle_no i) = Suc i" by (rule unat_handle_no [OF i31])
  then have nz: "handle_no i \<noteq> 0" by auto
  have "caps K1 a (handle_no i) = None"
    using t1 i empty no by (simp add: caps_def)
  moreover have "caps K' = (caps K1)(a := (caps K1 a)(handle_no i \<mapsto> ?x))"
    using caps_write [OF t1 i len t' others] ty x(1) by simp
  ultimately show ?thesis
    unfolding granted_def using nz x alive alive_grown [OF g] caps_grown [OF g] by auto
qed

lemma set_task_commute:
  "set_port p q (set_task a t K) = set_task a t (set_port p q K)"
  "set_buffer b c (set_task a t K) = set_task a t (set_buffer b c K)"
  by (simp_all add: set_task_def set_port_def set_buffer_def)

lemma room_grown: "grown a K K' \<Longrightarrow> room K' x = room K x"
  by (simp add: room_def refcount_grown)

end
