(* ===== verification/Handles_Ops.thy ===== *)
theory Handles_Ops
  imports Handles_Proofs
begin

text \<open>
  Each operation on handle tables keeps the invariant of the kernel objects and does to the
  tables, as maps, what it should.
\<close>

section \<open>Granting, kind by kind\<close>

lemma note_affinity_ok:
  assumes "k_tasks K a = Some t"
  obtains t' where "note_affinity a affinity K = Some (set_task a t' K)"
    and "t_handles t' = t_handles t" and "t_pid t' = t_pid t" and "t_ref_count t' = t_ref_count t"
    and "t_reply_port t' = t_reply_port t" and "t_vm t' = t_vm t"
proof (cases "affinity \<noteq> None \<and> t_thread_count t = 0")
  case True
  then show ?thesis
    using assms that [of "t\<lparr>t_ipc_affinity_cpu := the affinity, t_ipc_affinity_valid := True\<rparr>"]
    by (auto simp: note_affinity_def)
next
  case False
  then have "note_affinity a affinity K = Some (set_task a t K)"
    using assms set_task_same [OF assms] by (auto simp: note_affinity_def split: option.splits)
  then show ?thesis using that [of t] by simp
qed

lemma set_task_twice [simp]: "set_task a t (set_task a s K) = set_task a t K"
  by (simp add: set_task_def)

lemma caps_set_task_same:
  assumes "k_tasks K a = Some t" and "t_handles t' = t_handles t"
  shows "caps (set_task a t' K) = caps K"
  using assms by (auto simp: caps_def fun_eq_iff split: option.splits)

lemma task_grant_port_ok:
  assumes ok: "kernel_ok K ext" and t: "k_tasks K a = Some t" and len: "length (t_handles t) < 2 ^ 30"
    and obj: "alive K (KPort p)" "room K (KPort p)"
  shows "\<exists>h K'. task_grant_port (Some a) (Some p) rights K = Some (h, K') \<and> kernel_ok K' ext \<and>
    granted TASK_HANDLE_PORT a p rights K h K'"
proof -
  obtain q where q: "k_ports K p = Some q" using obj(1) by auto
  obtain af where af: "(if rights AND TASK_RIGHT_SEND \<noteq> 0 then ipc_port_affinity_cpu p K else Some None) = Some af"
    using q kernel_okD(7) [OF ok] that
    by (cases "rights AND TASK_RIGHT_SEND \<noteq> 0") (simp_all add: ipc_port_affinity_cpu_def)
  show ?thesis
  proof (cases rule: grant_slot_ok [OF t len, of TASK_HANDLE_PORT p rights, case_names full existing fresh])
    case (full K1)
    then show ?thesis
      using af granted_full [OF full(2,3)] grown_ok [OF full(2) ok]
      by (auto simp: task_grant_port_def simp del: if_split)
  next
    case (existing i)
    obtain t' where t': "note_affinity a af K = Some (set_task a t' K)" "t_handles t' = t_handles t"
      "t_pid t' = t_pid t" "t_ref_count t' = t_ref_count t" "t_reply_port t' = t_reply_port t" "t_vm t' = t_vm t"
      by (rule note_affinity_ok [OF t])
    have "kernel_ok (set_task a t' K) ext"
      using kernel_okD(8) [OF ok t] t' by (intro kernel_ok_set_task [OF ok t]) (simp_all add: task_ok_def task_refs_def)
    moreover have "granted TASK_HANDLE_PORT a p rights K (handle_no i) (set_task a t' K)"
      using t by (intro granted_existing [OF t len _ existing(2-5) caps_set_task_same [OF t t'(2)]])
        (simp_all add: alive_set)
    ultimately show ?thesis
      using af existing(1) t'(1) by (auto simp: task_grant_port_def simp del: if_split)
  next
    case (fresh i K1 t1)
    let ?x = "fill_handle TASK_HANDLE_PORT rights p (t_handles t1 ! i)"
    let ?w = "t1\<lparr>t_handles := (t_handles t1)[i := ?x]\<rparr>"
    have wr: "write_handle a i (fill_handle TASK_HANDLE_PORT rights p) K1 = Some (set_task a ?w K1)"
      using fresh(3,4) by (simp add: write_handle_def)
    have "k_tasks (set_task a ?w K1) a = Some ?w" by simp
    then obtain t' where t': "note_affinity a af (set_task a ?w K1) = Some (set_task a t' (set_task a ?w K1))"
      "t_handles t' = t_handles ?w" "t_pid t' = t_pid ?w" "t_ref_count t' = t_ref_count ?w"
      "t_reply_port t' = t_reply_port ?w" "t_vm t' = t_vm ?w"
      by (rule note_affinity_ok)
    have ok1: "kernel_ok K1 ext" by (rule grown_ok [OF fresh(2) ok])
    have q1: "alive K1 (KPort p)" "room K1 (KPort p)"
      using obj by (simp_all only: alive_grown [OF fresh(2)] room_grown [OF fresh(2)])
    obtain Kr where Kr: "ipc_port_retain (Some p) K1 = Some Kr" "kernel_ok Kr (ext + {#KPort p#})"
      "alive Kr = alive K1"
      using ports.retain_ok [OF ok1 q1] by blast
    then have KrE: "\<exists>q'. Kr = set_port p q' K1" "k_tasks Kr = k_tasks K1"
      using q1(1) kernel_okD(7) [OF ok1] by (auto simp: ipc_port_retain_def)
    have retain: "ipc_port_retain (Some p) (set_task a t' K1) = Some (set_task a t' Kr)"
      using Kr(1) kernel_okD(7) [OF ok1] q1(1)
      by (auto simp: ipc_port_retain_def ipc_lock_def set_task_commute)
    have "kernel_ok (set_task a t' Kr) ext"
    proof (rule place_handle_ok)
      show "kernel_ok Kr (ext + handle_obj TASK_HANDLE_PORT (Some p))"
        using Kr(2) by (simp add: handle_obj_def)
    qed (use KrE(2) fresh(3-6) t' in simp_all)
    moreover have "granted TASK_HANDLE_PORT a p rights K (handle_no i) (set_task a t' Kr)"
      using KrE(2) Kr(3) fresh(3) t'(2)
      by (intro granted_fresh [OF fresh(2-6)]) (simp_all add: alive_set)
    ultimately show ?thesis
      using af fresh(1) wr t'(1) retain by (auto simp: task_grant_port_def simp del: if_split)
  qed
qed

lemma task_grant_buffer_ok:
  assumes ok: "kernel_ok K ext" and t: "k_tasks K a = Some t" and len: "length (t_handles t) < 2 ^ 30"
    and obj: "alive K (KBuffer b)" "room K (KBuffer b)"
  shows "\<exists>h K'. task_grant_buffer (Some a) (Some b) rights K = Some (h, K') \<and> kernel_ok K' ext \<and>
    granted TASK_HANDLE_BUFFER a b rights K h K'"
proof (cases rule: grant_slot_ok [OF t len, of TASK_HANDLE_BUFFER b rights, case_names full existing fresh])
  case (full K1)
  then show ?thesis
    using granted_full [OF full(2,3)] grown_ok [OF full(2) ok] by (auto simp: task_grant_buffer_def)
next
  case (existing i)
  then show ?thesis
    using ok granted_existing [OF t len _ existing(2-5)] by (auto simp: task_grant_buffer_def)
next
  case (fresh i K1 t1)
  let ?w = "t1\<lparr>t_handles := (t_handles t1)[i := fill_handle TASK_HANDLE_BUFFER rights b (t_handles t1 ! i)]\<rparr>"
  have wr: "write_handle a i (fill_handle TASK_HANDLE_BUFFER rights b) K1 = Some (set_task a ?w K1)"
    using fresh(3,4) by (simp add: write_handle_def)
  have ok1: "kernel_ok K1 ext" by (rule grown_ok [OF fresh(2) ok])
  have q1: "alive K1 (KBuffer b)" "room K1 (KBuffer b)"
    using obj by (simp_all only: alive_grown [OF fresh(2)] room_grown [OF fresh(2)])
  obtain Kr where Kr: "buffer_retain (Some b) K1 = Some Kr" "kernel_ok Kr (ext + {#KBuffer b#})"
    "alive Kr = alive K1"
    using buffers.retain_ok [OF ok1 q1] by blast
  then have tasks: "k_tasks Kr = k_tasks K1"
    using q1(1) by (auto simp: buffer_retain_def)
  have retain: "buffer_retain (Some b) (set_task a ?w K1) = Some (set_task a ?w Kr)"
    using Kr(1) q1(1) by (auto simp: buffer_retain_def set_task_commute)
  have "kernel_ok (set_task a ?w Kr) ext"
  proof (rule place_handle_ok)
    show "kernel_ok Kr (ext + handle_obj TASK_HANDLE_BUFFER (Some b))"
      using Kr(2) by (simp add: handle_obj_def)
  qed (use tasks fresh(3-6) in simp_all)
  moreover have "granted TASK_HANDLE_BUFFER a b rights K (handle_no i) (set_task a ?w Kr)"
    using tasks Kr(3) fresh(3)
    by (intro granted_fresh [OF fresh(2-6), where t' = ?w]) (simp_all add: alive_set)
  ultimately show ?thesis
    using fresh(1) wr retain by (auto simp: task_grant_buffer_def)
qed


lemma task_update_commute:
  "t\<lparr>t_handles := hs, t_ref_count := n\<rparr> = t\<lparr>t_ref_count := n, t_handles := hs\<rparr>" for t :: task
  by (cases t) simp

lemma task_grant_task_ok:
  assumes ok: "kernel_ok K ext" and t: "k_tasks K a = Some t" and len: "length (t_handles t) < 2 ^ 30"
    and tb: "k_tasks K b = Some tb" and live: "\<not> t_dead tb" and room: "room K (KTask b)"
    and rights: "rights \<noteq> 0"
  shows "\<exists>h K'. task_grant_task (Some a) (Some b) rights K = Some (h, K') \<and> kernel_ok K' ext \<and>
    granted TASK_HANDLE_TASK a b rights K h K'"
proof (cases rule: grant_slot_ok [OF t len, of TASK_HANDLE_TASK b rights, case_names full existing fresh])
  case (full K1)
  then show ?thesis
    using granted_full [OF full(2,3)] grown_ok [OF full(2) ok] tb live rights
    by (auto simp: task_grant_task_def)
next
  case (existing i)
  then show ?thesis
    using ok granted_existing [OF t len _ existing(2-5)] tb live rights by (auto simp: task_grant_task_def)
next
  case (fresh i K1 t1)
  let ?hs = "(t_handles t1)[i := fill_handle TASK_HANDLE_TASK rights b (t_handles t1 ! i)]"
  have wr: "write_handle a i (fill_handle TASK_HANDLE_TASK rights b) K1 = Some (set_task a (t1\<lparr>t_handles := ?hs\<rparr>) K1)"
    using fresh(3,4) by (simp add: write_handle_def)
  have ok1: "kernel_ok K1 ext" by (rule grown_ok [OF fresh(2) ok])
  obtain sb where sb: "k_tasks K1 b = Some sb" "t_dead sb = t_dead tb" "t_ref_count sb = t_ref_count tb"
    using fresh(2) tb by (cases "b = a") (auto simp: grown_def)
  let ?Kr = "set_task b (sb\<lparr>t_ref_count := t_ref_count sb + 1\<rparr>) K1"
  have "room K1 (KTask b)"
    using room by (simp only: room_grown [OF fresh(2)])
  then have inc: "b \<noteq> k_kernel_task K1 \<Longrightarrow> unat (t_ref_count sb + 1) = Suc (unat (t_ref_count sb))"
    using sb(1) by (intro unat_inc_32) (simp add: room_def)
  have okr: "kernel_ok ?Kr (ext + {#KTask b#})"
    using sb(1) inc held_ref_counts(2) [OF ok1 sb(1)]
    by (intro kernel_ok_inc [OF ok1 shrinks_set(2) [OF sb(1)]]) (auto simp: refcount_set alive_set fun_upd_idem)
  obtain tr where tr: "k_tasks ?Kr a = Some tr" "t_handles tr = t_handles t1"
    using fresh(3) sb(1) by (cases "a = b") auto
  have final: "set_task b (s\<lparr>t_ref_count := t_ref_count s + 1\<rparr>) (set_task a (t1\<lparr>t_handles := ?hs\<rparr>) K1) =
      set_task a (tr\<lparr>t_handles := ?hs\<rparr>) ?Kr"
    if "k_tasks (set_task a (t1\<lparr>t_handles := ?hs\<rparr>) K1) b = Some s" for s
  proof (cases "a = b")
    case True
    then show ?thesis using that tr(1) fresh(3) sb(1) by (auto simp: task_update_commute)
  next
    case False
    then have "s = sb" "tr = t1"
      using that tr(1) fresh(3) sb(1) by auto
    then show ?thesis using False by (simp add: set_task_def fun_upd_twist)
  qed
  obtain s where s: "k_tasks (set_task a (t1\<lparr>t_handles := ?hs\<rparr>) K1) b = Some s" "t_dead s = t_dead tb"
    using sb fresh(3) by (cases "a = b") auto
  have "kernel_ok (set_task a (tr\<lparr>t_handles := ?hs\<rparr>) ?Kr) ext"
  proof (rule place_handle_ok [OF _ tr(1)])
    show "kernel_ok ?Kr (ext + handle_obj TASK_HANDLE_TASK (Some b))"
      using okr by (simp add: handle_obj_def)
  qed (use tr(2) fresh(4-6) in simp_all)
  moreover have "granted TASK_HANDLE_TASK a b rights K (handle_no i) (set_task a (tr\<lparr>t_handles := ?hs\<rparr>) ?Kr)"
    using tr fresh(3) sb(1)
    by (intro granted_fresh [OF fresh(2-6), where t' = "tr\<lparr>t_handles := ?hs\<rparr>"]) (auto simp: alive_set)
  ultimately show ?thesis
    using fresh(1) wr s live tb rights final [OF s(1)] by (auto simp: task_grant_task_def)
qed

lemma grant_retained_ok:
  assumes ok: "kernel_ok K ext" and t: "k_tasks K a = Some t" and len: "length (t_handles t) < 2 ^ 30"
    and rights: "rights \<noteq> 0" and ty: "ty \<noteq> TASK_HANDLE_EMPTY"
    and retain: "\<And>K1. kernel_ok K1 ext \<Longrightarrow> alive K1 = alive K \<Longrightarrow> refcount K1 = refcount K \<Longrightarrow>
      \<exists>Kr. task_handle_retain [a] ty (Some b) K1 = Some (OK, Kr) \<and>
        kernel_ok Kr (ext + handle_obj ty (Some b)) \<and> alive Kr = alive K1 \<and> k_tasks Kr = k_tasks K1"
  shows "\<exists>h K'. grant_retained ty (Some a) (Some b) rights K = Some (h, K') \<and> kernel_ok K' ext \<and>
    granted ty a b rights K h K'"
proof (cases rule: grant_slot_ok [OF t len, of ty b rights, case_names full existing fresh])
  case (full K1)
  then show ?thesis
    using granted_full [OF full(2,3)] grown_ok [OF full(2) ok] rights by (auto simp: grant_retained_def)
next
  case (existing i)
  then show ?thesis
    using ok granted_existing [OF t len ty existing(2-5)] rights by (auto simp: grant_retained_def)
next
  case (fresh i K1 t1)
  have ok1: "kernel_ok K1 ext" by (rule grown_ok [OF fresh(2) ok])
  obtain Kr where Kr: "task_handle_retain [a] ty (Some b) K1 = Some (OK, Kr)"
    "kernel_ok Kr (ext + handle_obj ty (Some b))" "alive Kr = alive K1" "k_tasks Kr = k_tasks K1"
    using retain [OF ok1 alive_grown [OF fresh(2)] refcount_grown [OF fresh(2)]] by blast
  let ?w = "t1\<lparr>t_handles := (t_handles t1)[i := fill_handle ty rights b (t_handles t1 ! i)]\<rparr>"
  have wr: "write_handle a i (fill_handle ty rights b) Kr = Some (set_task a ?w Kr)"
    using fresh(3,4) Kr(4) by (simp add: write_handle_def)
  have "kernel_ok (set_task a ?w Kr) ext"
    by (rule place_handle_ok [OF Kr(2)]) (use Kr(4) fresh(3-6) in simp_all)
  moreover have "granted ty a b rights K (handle_no i) (set_task a ?w Kr)"
    using Kr(3,4) fresh(3)
    by (intro granted_fresh [OF fresh(2-6) ty, where t' = ?w]) (simp_all add: alive_set)
  ultimately show ?thesis
    using fresh(1) wr Kr(1) rights by (auto simp: grant_retained_def)
qed

lemma task_grant_hw_resource_ok:
  assumes "kernel_ok K ext" and "k_tasks K a = Some t" and "length (t_handles t) < 2 ^ 30"
    and "rights \<noteq> 0" and obj: "alive K (KHw b)" "room K (KHw b)"
  shows "\<exists>h K'. task_grant_hw_resource (Some a) (Some b) rights K = Some (h, K') \<and> kernel_ok K' ext \<and>
    granted TASK_HANDLE_HW_RESOURCE a b rights K h K'"
  unfolding task_grant_hw_resource_def
proof (rule grant_retained_ok [OF assms(1-4)])
  fix K1
  assume "kernel_ok K1 ext" "alive K1 = alive K" "refcount K1 = refcount K"
  with hw_retain_ok [of K1 ext b] obj obtain Kr where
    "task_hw_resource_retain (Some b) K1 = Some (OK, Kr)" "kernel_ok Kr (ext + {#KHw b#})" "alive Kr = alive K1"
    by (auto simp: room_def)
  then show "\<exists>Kr. task_handle_retain [a] TASK_HANDLE_HW_RESOURCE (Some b) K1 = Some (OK, Kr) \<and>
    kernel_ok Kr (ext + handle_obj TASK_HANDLE_HW_RESOURCE (Some b)) \<and> alive Kr = alive K1 \<and>
    k_tasks Kr = k_tasks K1"
    by (auto simp: task_handle_retain_def handle_obj_def task_hw_resource_retain_def
      split: bind_splits if_splits)
qed simp

lemma task_grant_sched_policy_ok:
  assumes "kernel_ok K ext" and "k_tasks K a = Some t" and "length (t_handles t) < 2 ^ 30"
    and "rights \<noteq> 0" and obj: "alive K (KPolicy b)" "room K (KPolicy b)"
  shows "\<exists>h K'. task_grant_sched_policy (Some a) (Some b) rights K = Some (h, K') \<and> kernel_ok K' ext \<and>
    granted TASK_HANDLE_SCHED_POLICY a b rights K h K'"
  unfolding task_grant_sched_policy_def
proof (rule grant_retained_ok [OF assms(1-4)])
  fix K1
  assume "kernel_ok K1 ext" "alive K1 = alive K" "refcount K1 = refcount K"
  with policy_retain_ok [of K1 ext b] obj obtain Kr where
    "sched_policy_cap_retain (Some b) K1 = Some (OK, Kr)" "kernel_ok Kr (ext + {#KPolicy b#})" "alive Kr = alive K1"
    by (auto simp: room_def)
  then show "\<exists>Kr. task_handle_retain [a] TASK_HANDLE_SCHED_POLICY (Some b) K1 = Some (OK, Kr) \<and>
    kernel_ok Kr (ext + handle_obj TASK_HANDLE_SCHED_POLICY (Some b)) \<and> alive Kr = alive K1 \<and>
    k_tasks Kr = k_tasks K1"
    by (auto simp: task_handle_retain_def handle_obj_def sched_policy_cap_retain_def split: bind_splits)
qed simp


section \<open>References through handles\<close>

lemma map_sum_mem: "finite (dom m) \<Longrightarrow> m a = Some x \<Longrightarrow> f x \<subseteq># map_sum f m"
  using map_sum_delete [of m a x f] by (metis mset_subset_eq_add_right)

lemma task_refs_held:
  assumes "kernel_ok K ext" and "k_tasks K a = Some t"
  shows "task_refs t \<subseteq># held K"
  using map_sum_mem [where f = task_refs, OF kernel_okD(4) [OF assms(1)] assms(2)]
  by (simp add: held_def subset_mset.add_increasing2)

lemma handle_refs_mem: "h \<in> set hs \<Longrightarrow> handle_refs h \<subseteq># handles_refs hs"
  by (induction hs) (auto simp: subset_mset.add_increasing subset_mset.add_increasing2)

lemma capsD:
  assumes "caps K a handle = Some h"
  obtains t where "k_tasks K a = Some t" and "handle \<noteq> 0" and "unat handle \<le> length (t_handles t)"
    and "h = t_handles t ! (unat handle - 1)" and "h \<in> set (t_handles t)"
    and "h_type h \<noteq> TASK_HANDLE_EMPTY" and "unat handle - 1 < length (t_handles t)"
proof -
  obtain t where t: "k_tasks K a = Some t" "handle \<noteq> 0" "unat handle \<le> length (t_handles t)"
    "h = t_handles t ! (unat handle - 1)" "h_type h \<noteq> TASK_HANDLE_EMPTY"
    using assms by (auto simp: caps_def Let_def split: option.splits if_splits)
  have "0 < unat handle" using t(2) by (simp add: unat_gt_0)
  then have "unat handle - 1 < length (t_handles t)" using t(3) by linarith
  then show ?thesis using that t by auto
qed

lemma caps_object:
  assumes "kernel_ok K ext" and "caps K a handle = Some h"
  obtains b where "h_object h = Some b" and "\<And>x. x \<in># handle_refs h \<Longrightarrow> alive K x \<and> x \<in># held K"
proof -
  obtain t where t: "k_tasks K a = Some t" "h \<in> set (t_handles t)" "h_type h \<noteq> TASK_HANDLE_EMPTY"
    using assms(2) by (rule capsD)
  have "handle_refs h \<subseteq># held K"
    using task_refs_held [OF assms(1) t(1)] handle_refs_mem [OF t(2)]
    by (metis (no_types, lifting) mset_subset_eq_add_left subset_mset.order_trans task_refs_def)
  then have "x \<in># handle_refs h \<Longrightarrow> alive K x \<and> x \<in># held K" for x
    using refs_ok_alive [OF kernel_okD(1) [OF assms(1)], of x] by (auto dest: mset_subset_eqD)
  moreover have "handle_ok h"
    using kernel_okD(8) [OF assms(1) t(1)] t(2) by (simp add: task_ok_def)
  ultimately show ?thesis
    using that t(3) by (auto simp: handle_ok_def)
qed

definition target_dead :: "kstate \<Rightarrow> task_handle \<Rightarrow> bool" where
  "target_dead K h \<longleftrightarrow> h_type h = TASK_HANDLE_TASK \<and>
     (\<exists>b t. h_object h = Some b \<and> k_tasks K b = Some t \<and> t_dead t)"

definition handle_room :: "kstate \<Rightarrow> task_handle \<Rightarrow> bool" where
  "handle_room K h \<longleftrightarrow> (\<forall>x \<in># handle_refs h. room K x)"

lemma caps_shrinks_same:
  assumes "shrinks K K'" and "alive K' = alive K"
  shows "caps K' = caps K"
proof (intro ext)
  fix b h
  have "k_tasks K' b = None \<longleftrightarrow> k_tasks K b = None"
    using assms(2) by (metis alive.simps(3))
  then show "caps K' b h = caps K b h"
    using shrinksD(1) [OF assms(1), of b] by (cases "k_tasks K' b") (auto simp: caps_def)
qed

lemma task_inc_ok:
  assumes ok: "kernel_ok K ext" and t: "k_tasks K b = Some t" and room: "room K (KTask b)"
  shows "kernel_ok (set_task b (t\<lparr>t_ref_count := t_ref_count t + 1\<rparr>) K) (ext + {#KTask b#})"
proof -
  have inc: "b \<noteq> k_kernel_task K \<Longrightarrow> unat (t_ref_count t + 1) = Suc (unat (t_ref_count t))"
    using t room by (intro unat_inc_32) (simp add: room_def)
  show ?thesis
    using t inc held_ref_counts(2) [OF ok t]
    by (intro kernel_ok_inc [OF ok shrinks_set(2) [OF t]]) (auto simp: refcount_set alive_set fun_upd_idem)
qed

text \<open>Taking a reference to what a handle stands for, with the task of the handle locked.\<close>

lemma retain_from_handle_ok:
  assumes ok: "kernel_ok K ext" and h: "caps K a handle = Some h" and room: "handle_room K h"
  shows "\<exists>s K'. task_handle_retain_from_locked_task a (h_type h) (h_object h) K = Some (s, K') \<and>
    (if target_dead K h then s = ERR \<and> K' = K
     else s = OK \<and> kernel_ok K' (ext + handle_refs h) \<and> shrinks K K' \<and> alive K' = alive K \<and>
       held K' = held K)"
proof -
  obtain b where b: "h_object h = Some b" "\<And>x. x \<in># handle_refs h \<Longrightarrow> alive K x"
    using caps_object [OF ok h] by metis
  have r: "x \<in># handle_refs h \<Longrightarrow> room K x" for x
    using room by (simp add: handle_room_def)
  show ?thesis
  proof (cases "h_type h")
    case TASK_HANDLE_EMPTY
    then show ?thesis using h by (auto elim: capsD)
  next
    case TASK_HANDLE_PORT
    then show ?thesis
      using ports.retain_ok [OF ok, of b] b r
      by (auto simp: task_handle_retain_from_locked_task_def task_handle_retain_def target_dead_def
        handle_refs_def handle_obj_def)
  next
    case TASK_HANDLE_BUFFER
    then show ?thesis
      using buffers.retain_ok [OF ok, of b] b r
      by (auto simp: task_handle_retain_from_locked_task_def task_handle_retain_def target_dead_def
        handle_refs_def handle_obj_def)
  next
    case TASK_HANDLE_HW_RESOURCE
    then show ?thesis
      using hw_retain_ok [OF ok, of b] b r
      by (auto simp: task_handle_retain_from_locked_task_def task_handle_retain_def target_dead_def
        handle_refs_def handle_obj_def)
  next
    case TASK_HANDLE_SCHED_POLICY
    then show ?thesis
      using policy_retain_ok [OF ok, of b] b r
      by (auto simp: task_handle_retain_from_locked_task_def task_handle_retain_def target_dead_def
        handle_refs_def handle_obj_def)
  next
    case TASK_HANDLE_TASK
    then obtain t where t: "k_tasks K b = Some t"
      using b by (auto simp: handle_refs_def handle_obj_def)
    have "room K (KTask b)"
      using r TASK_HANDLE_TASK b(1) by (simp add: handle_refs_def handle_obj_def)
    from task_inc_ok [OF ok t this] show ?thesis
      using TASK_HANDLE_TASK b(1) t shrinks_set(2) [OF t] held_ref_counts(2) [OF ok t]
      by (auto simp: task_handle_retain_from_locked_task_def task_handle_retain_def target_dead_def
        handle_refs_def handle_obj_def alive_set)
  qed
qed

lemma handle_at_None:
  assumes "k_tasks K a = Some t" and "caps K a handle = None"
  shows "handle_at a handle K = Some None \<or>
    (\<exists>h. handle_at a handle K = Some (Some h) \<and> h_type h = TASK_HANDLE_EMPTY)"
  using assms by (auto simp: handle_at_def caps_def Let_def split: if_splits)

lemma handle_at_Some: "caps K a handle = Some h \<Longrightarrow> handle_at a handle K = Some (Some h)"
  by (auto elim!: capsD simp: handle_at_def)

text \<open>What a lookup of a handle is to answer.\<close>

definition looks_up :: "task_handle_type \<Rightarrow> nat \<Rightarrow> u64 \<Rightarrow> u32 \<Rightarrow> kstate \<Rightarrow> nat option" where
  "looks_up ty a handle rights K =
     (case caps K a handle of
        Some h \<Rightarrow> if h_type h = ty \<and> has_rights rights h \<and> \<not> target_dead K h then h_object h else None
      | None \<Rightarrow> None)"

lemma object_from_handle_ok:
  assumes ok: "kernel_ok K ext" and t: "k_tasks K a = Some t" and ty: "ty \<noteq> TASK_HANDLE_EMPTY"
    and room: "\<And>h. caps K a handle = Some h \<Longrightarrow> handle_room K h"
  shows "\<exists>K'. object_from_handle ty (Some a) handle rights K = Some (looks_up ty a handle rights K, K') \<and>
    kernel_ok K' (ext + handle_obj ty (looks_up ty a handle rights K)) \<and>
    caps K' = caps K \<and> alive K' = alive K"
proof (cases "caps K a handle")
  case None
  then show ?thesis
    using handle_at_None [OF t None] ok ty
    by (auto simp: object_from_handle_def looks_up_def handle_obj_def)
next
  case (Some h)
  show ?thesis
  proof (cases "h_type h = ty \<and> has_rights rights h")
    case False
    then show ?thesis
      using handle_at_Some [OF Some] Some ok by (auto simp: object_from_handle_def looks_up_def handle_obj_def)
  next
    case True
    obtain s K' where K': "task_handle_retain_from_locked_task a (h_type h) (h_object h) K = Some (s, K')"
      "if target_dead K h then s = ERR \<and> K' = K
       else s = OK \<and> kernel_ok K' (ext + handle_refs h) \<and> shrinks K K' \<and> alive K' = alive K \<and> held K' = held K"
      using retain_from_handle_ok [OF ok Some room [OF Some]] by blast
    show ?thesis
    proof (cases "target_dead K h")
      case dead: True
      then show ?thesis
        using handle_at_Some [OF Some] Some ok K' True
        by (auto simp: object_from_handle_def looks_up_def handle_obj_def)
    next
      case False
      then show ?thesis
        using handle_at_Some [OF Some] Some K' True caps_shrinks_same [of K K']
        by (auto simp: object_from_handle_def looks_up_def handle_refs_def)
    qed
  qed
qed

lemma task_from_handle_eq:
  assumes ok: "kernel_ok K ext" and t: "k_tasks K a = Some t"
    and room: "\<And>h. caps K a handle = Some h \<Longrightarrow> handle_room K h"
  shows "task_from_handle (Some a) handle rights K =
    object_from_handle TASK_HANDLE_TASK (Some a) handle rights K"
proof (cases "caps K a handle")
  case None
  then show ?thesis
    using handle_at_None [OF t None] by (auto simp: task_from_handle_def object_from_handle_def)
next
  case (Some h)
  obtain b where b: "h_object h = Some b" "\<And>x. x \<in># handle_refs h \<Longrightarrow> alive K x"
    using caps_object [OF ok Some] by metis
  obtain s K' where r: "task_handle_retain_from_locked_task a (h_type h) (h_object h) K = Some (s, K')"
    "target_dead K h \<Longrightarrow> s = ERR \<and> K' = K"
    using retain_from_handle_ok [OF ok Some room [OF Some]] by metis
  show ?thesis
  proof (cases "h_type h = TASK_HANDLE_TASK")
    case False
    then show ?thesis
      using handle_at_Some [OF Some] by (simp add: task_from_handle_def object_from_handle_def)
  next
    case True
    then obtain u where u: "k_tasks K b = Some u"
      using b by (auto simp: handle_refs_def handle_obj_def)
    then have "target_dead K h \<longleftrightarrow> t_dead u"
      using True b(1) by (simp add: target_dead_def)
    then show ?thesis
      using handle_at_Some [OF Some] True b(1) u r
      by (auto simp: task_from_handle_def object_from_handle_def)
  qed
qed

end
