(* ===== verification/Handles_Spec.thy ===== *)
theory Handles_Spec
  imports Handles_Ops
begin

text \<open>
  Exporting, closing, inheriting and cloning handles, and the properties of the handle tables:
  what is granted, what a lookup answers, that rights only shrink, and that no sequence of
  operations leaves a handle to a freed object.
\<close>

section \<open>Exporting and closing\<close>

lemma room_count:
  assumes "kernel_ok K ext" and "count (held K + ext) x < 2 ^ 32 - 1"
  shows "room K x"
  using refs_ok_count [OF kernel_okD(1) [OF assms(1)]] assms(2) unfolding room_def by metis

lemma caps_shrinks:
  assumes "shrinks K K'" and "k_tasks K' b \<noteq> None"
  shows "caps K' b = caps K b"
  using assms(2) shrinksD(1) [OF assms(1), of b] by (auto simp: caps_def fun_eq_iff)

lemma held_move:
  assumes "H' + R = H + R'" and "R' + E' = R + (E :: kobj multiset)"
  shows "H' + E' = H + E"
proof -
  have "(H' + R) + E' = H + (R' + E')"
    by (simp add: assms(1) add.assoc)
  then show ?thesis
    unfolding assms(2) by (simp add: ac_simps)
qed

lemma task_export_cap_ok:
  assumes ok: "kernel_ok K ext" and t: "k_tasks K a = Some t"
    and room: "\<And>h. caps K a handle = Some h \<Longrightarrow> handle_room K h"
  shows "\<exists>K'. task_export_cap (Some a) handle rights K =
      Some (case caps K a handle of
              Some h \<Rightarrow> if has_rights rights h \<and> \<not> target_dead K h
                        then Some (handle_cap_type (h_type h), h_object h) else None
            | None \<Rightarrow> None, K') \<and>
    kernel_ok K' (ext + (case caps K a handle of
              Some h \<Rightarrow> if has_rights rights h \<and> \<not> target_dead K h then handle_refs h else {#}
            | None \<Rightarrow> {#})) \<and> caps K' = caps K \<and> alive K' = alive K"
proof (cases "caps K a handle")
  case None
  then show ?thesis
    using handle_at_None [OF t None] ok by (auto simp: task_export_cap_def)
next
  case (Some h)
  have ty: "h_type h \<noteq> TASK_HANDLE_EMPTY" using Some by (rule capsD)
  obtain s K' where K': "task_handle_retain_from_locked_task a (h_type h) (h_object h) K = Some (s, K')"
    "if target_dead K h then s = ERR \<and> K' = K
     else s = OK \<and> kernel_ok K' (ext + handle_refs h) \<and> shrinks K K' \<and> alive K' = alive K \<and> held K' = held K"
    using retain_from_handle_ok [OF ok Some room [OF Some]] by blast
  show ?thesis
  proof (cases "has_rights rights h")
    case False
    then show ?thesis
      using handle_at_Some [OF Some] Some ok by (simp add: task_export_cap_def)
  next
    case True
    then show ?thesis
      using handle_at_Some [OF Some] Some ok K' ty caps_shrinks_same [of K K']
      by (cases "target_dead K h") (simp_all add: task_export_cap_def)
  qed
qed

lemma task_close_handle_ok:
  assumes ok: "kernel_ok K ext" and h: "caps K a handle = Some h"
  shows "\<exists>K'. task_close_handle (Some a) handle K = Some (OK, K') \<and> kernel_ok K' ext \<and>
    (\<forall>b. k_tasks K' b \<noteq> None \<longrightarrow>
       caps K' b = (if b = a then (caps K a)(handle := None) else caps K b)) \<and>
    (\<forall>b. KTask b \<notin># held K + ext \<longrightarrow> b \<noteq> a \<longrightarrow> k_tasks K' b = k_tasks K b)"
proof -
  obtain t where t: "k_tasks K a = Some t" "handle \<noteq> 0" "unat handle \<le> length (t_handles t)"
    "h = t_handles t ! (unat handle - 1)" "h_type h \<noteq> TASK_HANDLE_EMPTY"
    "unat handle - 1 < length (t_handles t)"
    using h by (rule capsD)
  let ?i = "unat handle - 1"
  let ?t = "t\<lparr>t_handles := (t_handles t)[?i := empty_handle]\<rparr>"
  note tok = kernel_okD(8) [OF ok t(1)]
  have len: "length (t_handles t) < 2 ^ 31" using tok by (simp add: task_ok_def)
  then have no: "handle = handle_no ?i"
    using t(2,6) by (intro handle_no_inj) (auto simp: unat_gt_0)
  have refs: "task_refs ?t + (ext + handle_refs h) = task_refs t + ext"
    using handles_refs_update [OF t(6), of empty_handle] t(4) by (simp add: task_refs_def ac_simps)
  have "\<forall>x \<in> set (t_handles ?t). handle_ok x"
    using tok handle_ok_update [of "t_handles t" empty_handle ?i] by (simp add: task_ok_def)
  then have "kernel_ok (set_task a ?t K) (ext + handle_refs h)"
    using tok refs by (intro kernel_ok_set_task [OF ok t(1)]) (simp_all add: task_ok_def)
  then obtain K' where K': "task_handle_release (h_type h) (h_object h) (set_task a ?t K) = Some K'"
    "kernel_ok K' ext" "released (set_task a ?t K) (ext + handle_refs h) K' ext"
    using task_handle_release_ok [of "set_task a ?t K" ext "h_type h" "h_object h"]
    by (auto simp: handle_refs_def)
  have caps1: "caps (set_task a ?t K) = (caps K)(a := (caps K a)(handle := None))"
    using caps_write [OF t(1,6) len, of "set_task a ?t K" ?t empty_handle] no by simp
  have "task_close_handle (Some a) handle K = Some (OK, K')"
    using handle_at_Some [OF h] t(5,1,6) K'(1) by (simp add: task_close_handle_def write_handle_def)
  moreover have "caps K' b = (if b = a then (caps K a)(handle := None) else caps K b)"
    if "k_tasks K' b \<noteq> None" for b
    using caps_shrinks [OF _ that, of "set_task a ?t K"] K'(3) caps1 by (auto simp: released_def)
  moreover have total: "held (set_task a ?t K) + (ext + handle_refs h) = held K + ext"
    by (rule held_move [OF held_set_task [OF kernel_okD(4) [OF ok] t(1)] refs])
  moreover have "k_tasks K' b = k_tasks K b" if "KTask b \<notin># held K + ext" "b \<noteq> a" for b
    using K'(3) that unfolding released_def total by simp
  ultimately show ?thesis using K'(2) by blast
qed

lemma task_close_handle_bad:
  assumes "k_tasks K a = Some t" and "caps K a handle = None"
  shows "task_close_handle (Some a) handle K = Some (ERR, K)"
  using handle_at_None [OF assms] by (auto simp: task_close_handle_def)


section \<open>Inheriting\<close>

definition grant_of_type ::
  "task_handle_type \<Rightarrow> nat option \<Rightarrow> nat option \<Rightarrow> u32 \<Rightarrow> kstate \<Rightarrow> (u64 \<times> kstate) option" where
  "grant_of_type ty task object rights K =
     (case ty of
        TASK_HANDLE_PORT \<Rightarrow> task_grant_port task object rights K
      | TASK_HANDLE_BUFFER \<Rightarrow> task_grant_buffer task object rights K
      | TASK_HANDLE_TASK \<Rightarrow> task_grant_task task object rights K
      | TASK_HANDLE_HW_RESOURCE \<Rightarrow> task_grant_hw_resource task object rights K
      | TASK_HANDLE_SCHED_POLICY \<Rightarrow> task_grant_sched_policy task object rights K
      | TASK_HANDLE_EMPTY \<Rightarrow> Some (0, K))"

lemma grant_of_type_ok:
  assumes "kernel_ok K ext" and "k_tasks K d = Some t" and "length (t_handles t) < 2 ^ 30"
    and "rights \<noteq> 0" and ty: "ty \<noteq> TASK_HANDLE_EMPTY"
    and obj: "\<And>x. x \<in># handle_obj ty (Some b) \<Longrightarrow> alive K x \<and> room K x"
    and live: "\<And>u. ty = TASK_HANDLE_TASK \<Longrightarrow> k_tasks K b = Some u \<Longrightarrow> \<not> t_dead u"
  shows "\<exists>g K'. grant_of_type ty (Some d) (Some b) rights K = Some (g, K') \<and> kernel_ok K' ext \<and>
    granted ty d b rights K g K'"
proof (cases ty)
  case TASK_HANDLE_TASK
  then have "alive K (KTask b)" "room K (KTask b)"
    using obj by (simp_all add: handle_obj_def)
  then show ?thesis
    using TASK_HANDLE_TASK live task_grant_task_ok [OF assms(1-3) _ _ _ assms(4), of b]
    by (auto simp: grant_of_type_def)
qed (use ty obj assms(1-4) in \<open>simp_all add: grant_of_type_def handle_obj_def task_grant_port_ok
  task_grant_buffer_ok task_grant_hw_resource_ok task_grant_sched_policy_ok\<close>)

lemma task_grant_inherited_eq:
  "task_grant_inherited_handle (Some d) (Some a) handle rights K =
     (if rights = 0 then Some (0, K)
      else do {
        found \<leftarrow> handle_at a handle K;
        (case found of
           None \<Rightarrow> Some (0, K)
         | Some h \<Rightarrow>
             if \<not> can_inherit rights h then Some (0, K)
             else do {
               (s, K1) \<leftarrow> task_handle_retain_from_locked_task a (h_type h) (h_object h) K;
               if s \<noteq> OK then Some (0, K1)
               else do {
                 (g, K2) \<leftarrow> grant_of_type (h_type h) (Some d) (h_object h) rights K1;
                 K3 \<leftarrow> task_handle_release (h_type h) (h_object h) K2;
                 Some (g, K3)
               }
             })
      })"
  unfolding task_grant_inherited_handle_def grant_of_type_def by simp

text \<open>
  Inheriting gives the destination at most one new capability: to the same object, with the
  rights asked for, which the source must have together with the right to duplicate.
\<close>

definition inherits ::
  "nat \<Rightarrow> nat \<Rightarrow> u64 \<Rightarrow> u32 \<Rightarrow> kstate \<Rightarrow> u64 \<Rightarrow> kstate \<Rightarrow> bool" where
  "inherits d a handle rights K g K' \<longleftrightarrow>
     (if g = 0 then \<forall>b. k_tasks K' b \<noteq> None \<longrightarrow> caps K' b = caps K b
      else \<exists>h x. caps K a handle = Some h \<and> can_inherit rights h \<and>
        h_type x = h_type h \<and> h_object x = h_object h \<and> h_rights x = rights \<and>
        (caps K d g = None \<or> caps K d g = Some x) \<and>
        (\<forall>b. k_tasks K' b \<noteq> None \<longrightarrow>
           caps K' b = (if b = d then (caps K d)(g \<mapsto> x) else caps K b)))"

lemma inherit_ok:
  assumes ok: "kernel_ok K ext" and a: "k_tasks K a = Some ta" and d: "k_tasks K d = Some td"
    and len: "length (t_handles td) < 2 ^ 30"
    and room: "\<And>h x. caps K a handle = Some h \<Longrightarrow> x \<in># handle_refs h \<Longrightarrow> count (held K + ext) x < 2 ^ 32 - 2"
  shows "\<exists>g K'. task_grant_inherited_handle (Some d) (Some a) handle rights K = Some (g, K') \<and>
    kernel_ok K' ext \<and> inherits d a handle rights K g K'"
proof (cases "caps K a handle")
  case None
  then show ?thesis
    using handle_at_None [OF a None] ok
    by (auto simp: task_grant_inherited_eq inherits_def can_inherit_def)
next
  case (Some h)
  note at = handle_at_Some [OF Some]
  show ?thesis
  proof (cases "rights \<noteq> 0 \<and> can_inherit rights h")
    case False
    then show ?thesis
      using at ok by (auto simp: task_grant_inherited_eq inherits_def)
  next
    case True
    have hroom: "handle_room K h"
      unfolding handle_room_def using room_count [OF ok] room [OF Some] by fastforce
    obtain b where b: "h_object h = Some b" "\<And>x. x \<in># handle_refs h \<Longrightarrow> alive K x"
      using caps_object [OF ok Some] by metis
    obtain s K1 where K1: "task_handle_retain_from_locked_task a (h_type h) (h_object h) K = Some (s, K1)"
      "if target_dead K h then s = ERR \<and> K1 = K
       else s = OK \<and> kernel_ok K1 (ext + handle_refs h) \<and> shrinks K K1 \<and> alive K1 = alive K \<and> held K1 = held K"
      using retain_from_handle_ok [OF ok Some hroom] by blast
    show ?thesis
    proof (cases "target_dead K h")
      case dead: True
      then show ?thesis
        using at True K1 ok by (auto simp: task_grant_inherited_eq inherits_def)
    next
      case False
      then have s: "s = OK" "kernel_ok K1 (ext + handle_refs h)" "shrinks K K1" "alive K1 = alive K" "held K1 = held K"
        using K1(2) by auto
      obtain td' where td': "k_tasks K1 d = Some td'" "t_handles td' = t_handles td"
        using d s(3,4) shrinksD(1) [OF s(3), of d] by (metis alive.simps(3) option.exhaust option.inject
          task.select_convs(13) task.surjective task.update_convs(3))
      have obj: "alive K1 x \<and> room K1 x" if x: "x \<in># handle_obj (h_type h) (Some b)" for x
      proof -
        have x': "x \<in># handle_refs h" using x b(1) by (simp add: handle_refs_def)
        have "count (handle_refs h) x \<le> 1"
          by (simp add: handle_refs_def handle_obj_def split: option.splits task_handle_type.splits)
        then have "count (held K1 + (ext + handle_refs h)) x < 2 ^ 32 - 1"
          using room [OF Some x'] s(5) by simp
        then show ?thesis
          using room_count [OF s(2)] b(2) [OF x'] s(4) by simp
      qed
      have live: "\<not> t_dead u" if "h_type h = TASK_HANDLE_TASK" "k_tasks K1 b = Some u" for u
        using that False b(1) shrinksD(1) [OF s(3) that(2)] by (auto simp: target_dead_def)
      have ty: "h_type h \<noteq> TASK_HANDLE_EMPTY" using True by (simp add: can_inherit_def)
      obtain g K2 where K2: "grant_of_type (h_type h) (Some d) (Some b) rights K1 = Some (g, K2)"
        "kernel_ok K2 (ext + handle_refs h)" "granted (h_type h) d b rights K1 g K2"
      proof -
        have "length (t_handles td') < 2 ^ 30" and "rights \<noteq> 0"
          using td'(2) len True by simp_all
        from grant_of_type_ok [OF s(2) td'(1) this ty obj live] show ?thesis
          using that by blast
      qed
      obtain K3 where K3: "task_handle_release (h_type h) (h_object h) K2 = Some K3" "kernel_ok K3 ext"
        "shrinks K2 K3"
        using task_handle_release_ok [of K2 ext "h_type h" "h_object h"] K2(2)
        by (auto simp: handle_refs_def released_def)
      have caps: "caps K1 = caps K" by (rule caps_shrinks_same [OF s(3,4)])
      have "inherits d a handle rights K g K3"
        using K2(3) caps caps_shrinks [OF K3(3)] Some True b(1)
        unfolding inherits_def granted_def by (auto split: if_splits)
      then show ?thesis
        using at True K1(1) s(1) K2(1) K3(1,2) b(1) by (auto simp: task_grant_inherited_eq)
    qed
  qed
qed

end
