(* ===== verification/Objects_Create.thy ===== *)
theory Objects_Create
  imports Handles_Ops
begin

text \<open>
  New objects: ports, buffers and tasks are created at an unused address, with the references
  their creator gets.
\<close>

section \<open>A new object\<close>

lemma refs_ok_new:
  assumes ok: "refs_ok K ext" and new: "\<not> alive K x"
    and "\<And>y. refcount K' y = (if y = x then Some n else refcount K y)"
    and "\<And>y. alive K' y \<longleftrightarrow> y = x \<or> alive K y" and "held K' = held K"
  shows "refs_ok K' (ext + replicate_mset n x)"
proof -
  have "count (held K + ext) x = 0"
    using ok new by (auto simp: refs_ok_def simp flip: not_in_iff)
  then show ?thesis
    using ok assms(3-5) by (auto simp: refs_ok_def split: if_splits)
qed

lemma kernel_ok_fresh:
  assumes "kernel_ok K ext" and "k_next_addr K \<le> a"
  shows "k_tasks K a = None" and "k_ports K a = None" and "k_buffers K a = None"
    and "k_hws K a = None" and "k_policies K a = None" and "a \<noteq> k_kernel_task K"
  using assms unfolding kernel_ok_def stores_ok_def by (blast, blast, blast, blast, blast, metis)

lemma slab_answer_ok:
  "slab_answer K = (ok, K1) \<Longrightarrow> kernel_ok K1 ext = kernel_ok K ext"
  "slab_answer K = (ok, K1) \<Longrightarrow> \<exists>r. K1 = K\<lparr>k_allocs := r\<rparr>"
proof -
  have "refcount (K\<lparr>k_allocs := r\<rparr>) = refcount K" "alive (K\<lparr>k_allocs := r\<rparr>) = alive K" for r
    by (rule ext, case_tac x; simp)+
  then have "kernel_ok (K\<lparr>k_allocs := r\<rparr>) ext = kernel_ok K ext" for r
    by (simp add: kernel_ok_def refs_ok_def held_def stores_ok_def index_ok_def port_ok_def)
  then show "slab_answer K = (ok, K1) \<Longrightarrow> kernel_ok K1 ext = kernel_ok K ext"
    by (auto simp: slab_answer_def)
  show "slab_answer K = (ok, K1) \<Longrightarrow> \<exists>r. K1 = K\<lparr>k_allocs := r\<rparr>"
    by (auto simp: slab_answer_def)
qed

lemma kernel_ok_counters [simp]:
  "kernel_ok (K\<lparr>k_next_port_id := i\<rparr>) ext = kernel_ok K ext"
  "kernel_ok (K\<lparr>k_next_pid := j\<rparr>) ext = kernel_ok K ext"
proof -
  have r: "refcount (K\<lparr>k_next_port_id := i\<rparr>) = refcount K" "refcount (K\<lparr>k_next_pid := j\<rparr>) = refcount K"
    by (rule ext, case_tac x; simp)+
  have a: "alive (K\<lparr>k_next_port_id := i\<rparr>) = alive K" "alive (K\<lparr>k_next_pid := j\<rparr>) = alive K"
    by (rule ext, case_tac x; simp)+
  show "kernel_ok (K\<lparr>k_next_port_id := i\<rparr>) ext = kernel_ok K ext"
    "kernel_ok (K\<lparr>k_next_pid := j\<rparr>) ext = kernel_ok K ext"
    by (simp_all add: kernel_ok_def refs_ok_def r a held_def stores_ok_def index_ok_def port_ok_def)
qed


section \<open>Buffers\<close>

lemma new_buffer_ok:
  assumes ok: "kernel_ok K ext" and a: "a = k_next_addr K"
    and b: "b_ref_count b = 1" "buffer_ok b"
  shows "kernel_ok (set_buffer a b (K\<lparr>k_next_addr := a + 1, k_next_buffer_id := i\<rparr>)) (ext + {#KBuffer a#})"
    (is "kernel_ok ?K _")
proof -
  note new = kernel_ok_fresh [OF ok, of a]
  have "refs_ok ?K (ext + replicate_mset 1 (KBuffer a))"
  proof (rule refs_ok_new [OF kernel_okD(1) [OF ok]])
    show "\<not> alive K (KBuffer a)" using new(3) a by simp
    show "refcount ?K y = (if y = KBuffer a then Some 1 else refcount K y)" for y
      using b(1) by (cases y) auto
    show "alive ?K y \<longleftrightarrow> y = KBuffer a \<or> alive K y" for y
      by (cases y) auto
    show "held ?K = held K" by (simp add: held_def)
  qed
  moreover have "stores_ok ?K"
    using kernel_okD(2) [OF ok] a b(2) by (auto simp: stores_ok_def port_ok_def)
  moreover have "index_ok ?K"
    using kernel_okD(3) [OF ok] by (simp add: index_ok_def)
  ultimately show ?thesis by (simp add: kernel_ok_def)
qed

lemma buffer_create_ok:
  assumes ok: "kernel_ok K ext" and c: "buffer_create n K = (r, K')"
  shows "kernel_ok K' (ext + (case r of Some a \<Rightarrow> {#KBuffer a#} | None \<Rightarrow> {#}))"
    and "r = Some a \<Longrightarrow> k_buffers K' a \<noteq> None \<and> k_buffers K a = None"
proof -
  obtain b1 K1 where s1: "slab_answer K = (b1, K1)" by fastforce
  obtain b2 K2 where s2: "slab_answer K1 = (b2, K2)" by fastforce
  have ok1: "kernel_ok K1 ext" and ok2: "kernel_ok K2 ext"
    using ok slab_answer_ok(1) [OF s1] slab_answer_ok(1) [OF s2] by simp_all
  have same: "k_buffers K2 = k_buffers K"
    using slab_answer_ok(2) [OF s1] slab_answer_ok(2) [OF s2] by auto
  let ?b = "\<lparr>b_id = k_next_buffer_id K2, b_size = n, b_ref_count = 1, b_data = replicate (unat n) 0\<rparr>"
  have new: "kernel_ok (set_buffer (k_next_addr K2) ?b (K2\<lparr>k_next_addr := k_next_addr K2 + 1,
      k_next_buffer_id := k_next_buffer_id K2 + 1\<rparr>)) (ext + {#KBuffer (k_next_addr K2)#})"
    by (rule new_buffer_ok [OF ok2]) (simp_all add: buffer_ok_def)
  have upd: "set_buffer a x K2\<lparr>k_next_addr := u, k_next_buffer_id := v\<rparr> =
      set_buffer a x (K2\<lparr>k_next_addr := u, k_next_buffer_id := v\<rparr>)" for a x u v
    by (simp add: set_buffer_def)
  show "kernel_ok K' (ext + (case r of Some a \<Rightarrow> {#KBuffer a#} | None \<Rightarrow> {#}))"
    using c s1 s2 ok ok1 ok2 new unfolding upd
    by (auto simp: buffer_create_def Let_def upd split: if_splits)
  show "r = Some a \<Longrightarrow> k_buffers K' a \<noteq> None \<and> k_buffers K a = None"
    using c s1 s2 kernel_ok_fresh(3) [OF ok2, of "k_next_addr K2"] same
    by (auto simp: buffer_create_def Let_def split: if_splits)
qed


section \<open>Ports\<close>

definition fresh_port :: "ipc_port \<Rightarrow> bool" where
  "fresh_port p \<longleftrightarrow> p_ref_count p = 0 \<and> p_queue p = [] \<and> p_queued p = 0 \<and> p_receiver p = None \<and>
     p_receiver_wait p = None"

lemma new_port_ok:
  assumes ok: "kernel_ok K ext" and a: "a = k_next_addr K" and p: "fresh_port p"
    and id: "k_ports_by_id K (p_id p) = None"
    and n: "names = k_ports_by_name K \<or>
      (p_immortal p \<and> k_ports_by_name K (p_name p) = None \<and> names = (k_ports_by_name K)(p_name p \<mapsto> a))"
  shows "kernel_ok (set_port a p (K\<lparr>k_next_addr := a + 1,
      k_ports_by_id := (k_ports_by_id K)(p_id p \<mapsto> a), k_ports_by_name := names\<rparr>)) ext"
    (is "kernel_ok ?K _")
proof -
  note new = kernel_ok_fresh [OF ok, of a]
  note idx = index_okD [OF kernel_okD(3) [OF ok]]
  have held: "held ?K = held K"
    using map_sum_insert [where f = queue_refs, OF kernel_okD(5) [OF ok] new(2)] a p
    by (simp add: held_def queue_refs_def fresh_port_def)
  have "refs_ok ?K (ext + replicate_mset 0 (KPort a))"
  proof (rule refs_ok_new [OF kernel_okD(1) [OF ok] _ _ _ held])
    show "\<not> alive K (KPort a)" using new(2) a by simp
    show "refcount ?K y = (if y = KPort a then Some 0 else refcount K y)" for y
      using p by (cases y) (auto simp: fresh_port_def)
    show "alive ?K y \<longleftrightarrow> y = KPort a \<or> alive K y" for y
      by (cases y) auto
  qed
  moreover have "stores_ok ?K"
    using kernel_okD(2) [OF ok] a p by (auto simp: stores_ok_def port_ok_def fresh_port_def)
  moreover have "index_ok ?K"
    unfolding index_ok_def
  proof (intro conjI allI impI)
    fix b q assume "k_ports ?K b = Some q"
    then show "k_ports_by_id ?K (p_id q) = Some b"
      using idx(1) [of b q] id by (auto split: if_splits)
  next
    fix i b assume i: "k_ports_by_id ?K i = Some b"
    show "\<exists>q. k_ports ?K b = Some q \<and> p_id q = i"
    proof (cases "i = p_id p")
      case False
      then have ib: "k_ports_by_id K i = Some b" using i by simp
      then have "b \<noteq> a" using idx(2) [OF ib] new(2) a by auto
      then show ?thesis using idx(2,6) [OF ib] by auto
    qed (use i in simp)
  next
    fix nm b assume nm: "k_ports_by_name ?K nm = Some b"
    show "\<exists>q. k_ports ?K b = Some q \<and> p_immortal q \<and> p_name q = nm"
    proof (cases "k_ports_by_name K nm = Some b")
      case True
      then have "b \<noteq> a" using idx(3) [OF True] new(2) a by auto
      then show ?thesis using idx(3,5,8) [OF True] by auto
    next
      case False
      then show ?thesis using nm n by (auto split: if_splits)
    qed
  next
    fix i b assume "k_tasks_by_pid ?K i = Some b"
    then show "\<exists>t. k_tasks ?K b = Some t \<and> t_pid t = i"
      using idx(4,7) [of i b] by auto
  qed
  ultimately show ?thesis by (simp add: kernel_ok_def)
qed

lemma ipc_port_alloc_ok:
  assumes ok: "kernel_ok K ext"
  shows "\<exists>r K'. ipc_port_alloc name reuse K = Some (r, K') \<and> kernel_ok K' ext \<and>
    k_tasks K' = k_tasks K \<and> (\<forall>x. alive K x \<longrightarrow> alive K' x) \<and> (\<forall>a. r = Some a \<longrightarrow> alive K' (KPort a))"
proof (cases "if reuse then k_ports_by_name K name else None")
  case (Some a)
  then show ?thesis
    using kernel_okD(7) [OF ok] ok index_okD(3) [OF kernel_okD(3) [OF ok], of name a]
    by (auto simp: ipc_port_alloc_def split: if_splits)
next
  case None
  obtain b K1 where s: "slab_answer K = (b, K1)" by fastforce
  obtain r where K1: "K1 = K\<lparr>k_allocs := r\<rparr>" using slab_answer_ok(2) [OF s] by blast
  define K2 where "K2 = K1\<lparr>k_next_port_id := k_next_port_id K1 + 1\<rparr>"
  have ok2: "kernel_ok K2 ext"
    using ok slab_answer_ok(1) [OF s] by (simp add: K2_def)
  have same: "k_tasks K2 = k_tasks K" "alive K2 = alive K"
    by (simp_all add: K2_def K1) (rule ext, case_tac x; simp)
  have same1: "k_tasks K1 = k_tasks K" "alive K1 = alive K"
    by (simp_all add: K1) (rule ext, case_tac x; simp)
  let ?p = "\<lparr>p_name = name, p_id = k_next_port_id K1, p_ref_count = 0, p_immortal = reuse,
    p_queue = [], p_receiver = None, p_receiver_wait = None, p_receiver_index = 0, p_affinity_cpu = 0,
    p_affinity_valid = False, p_queued = 0\<rparr>"
  let ?names = "if reuse then (k_ports_by_name K2)(name \<mapsto> k_next_addr K1) else k_ports_by_name K2"
  let ?K = "set_port (k_next_addr K1) ?p (K2\<lparr>k_next_addr := k_next_addr K1 + 1,
    k_ports_by_id := (k_ports_by_id K2)(k_next_port_id K1 \<mapsto> k_next_addr K1), k_ports_by_name := ?names\<rparr>)"
  have run: "ipc_port_alloc name reuse K = Some (if \<not> b then (None, K1)
      else if k_ports_by_id K2 (k_next_port_id K1) \<noteq> None then (None, K2) else (Some (k_next_addr K1), ?K))"
    using kernel_okD(7) [OF ok] None s
    by (simp add: ipc_port_alloc_def Let_def K2_def set_port_def)
  consider "\<not> b" | "b" "k_ports_by_id K2 (k_next_port_id K1) \<noteq> None" | "b" "k_ports_by_id K2 (k_next_port_id K1) = None"
    by blast
  then show ?thesis
  proof cases
    case 1
    then show ?thesis
      using run ok slab_answer_ok(1) [OF s] same1 by auto
  next
    case 2
    then show ?thesis using run ok2 same by auto
  next
    case 3
    have a: "k_next_addr K1 = k_next_addr K2" by (simp add: K2_def)
    have "kernel_ok ?K ext"
      using new_port_ok [OF ok2 a, of ?p ?names] 3 None
      by (simp add: K2_def K1 fresh_port_def split: if_splits)
    moreover have "alive ?K x" if "alive K x" for x
      using that same(2) by (cases x) (auto simp: K2_def K1)
    ultimately show ?thesis using run 3 same by auto
  qed
qed


section \<open>Tasks\<close>

lemma new_task_ok:
  assumes ok: "kernel_ok K ext" and a: "a = k_next_addr K" and pid: "k_tasks_by_pid K pid = None"
  shows "kernel_ok (set_task a (new_task pid name space owns) (K\<lparr>k_next_addr := a + 1,
      k_tasks_by_pid := (k_tasks_by_pid K)(pid \<mapsto> a)\<rparr>)) (ext + {#KTask a#})"
    (is "kernel_ok ?K _")
proof -
  note new = kernel_ok_fresh [OF ok, of a]
  note idx = index_okD [OF kernel_okD(3) [OF ok]]
  let ?t = "new_task pid name space owns"
  have held: "held ?K = held K"
    using map_sum_insert [where f = task_refs and y = ?t, OF kernel_okD(4) [OF ok] new(1)] a
    by (simp add: held_def task_refs_def new_task_def handles_refs_def port_ref_def)
  have "refs_ok ?K (ext + replicate_mset 1 (KTask a))"
  proof (rule refs_ok_new [OF kernel_okD(1) [OF ok] _ _ _ held])
    show "\<not> alive K (KTask a)" using new(1) a by simp
    show "refcount ?K y = (if y = KTask a then Some 1 else refcount K y)" for y
      using new(6) a by (cases y) (auto simp: new_task_def)
    show "alive ?K y \<longleftrightarrow> y = KTask a \<or> alive K y" for y
      by (cases y) auto
  qed
  moreover have "stores_ok ?K"
    using kernel_okD(2) [OF ok] a
    by (auto simp: stores_ok_def port_ok_def new_task_def task_ok_def table_ok_def)
  moreover have "index_ok ?K"
    unfolding index_ok_def
  proof (intro conjI allI impI)
    fix b q assume "k_ports ?K b = Some q"
    then show "k_ports_by_id ?K (p_id q) = Some b" using idx(1) [of b q] by simp
  next
    fix i b assume "k_ports_by_id ?K i = Some b"
    then show "\<exists>q. k_ports ?K b = Some q \<and> p_id q = i" using idx(2,6) [of i b] by auto
  next
    fix nm b assume "k_ports_by_name ?K nm = Some b"
    then show "\<exists>q. k_ports ?K b = Some q \<and> p_immortal q \<and> p_name q = nm"
      using idx(3,5,8) [of nm b] by auto
  next
    fix i b assume i: "k_tasks_by_pid ?K i = Some b"
    show "\<exists>t. k_tasks ?K b = Some t \<and> t_pid t = i"
    proof (cases "i = pid")
      case False
      then have ib: "k_tasks_by_pid K i = Some b" using i by simp
      then have "b \<noteq> a" using idx(4) [OF ib] new(1) a by auto
      then show ?thesis using idx(4,7) [OF ib] by auto
    qed (use i in \<open>simp add: new_task_def\<close>)
  qed
  ultimately show ?thesis by (simp add: kernel_ok_def)
qed

lemma task_create_ok:
  assumes ok: "kernel_ok K ext" and c: "task_create_with_vm_ownership name space owns K = (r, K')"
  shows "kernel_ok K' (ext + (case r of Some a \<Rightarrow> {#KTask a#} | None \<Rightarrow> {#}))"
proof -
  obtain o1 K1 where n: "task_name_copy name K = (o1, K1)" by fastforce
  obtain b2 K2 where s2: "slab_answer K1 = (b2, K2)" by fastforce
  have ok1: "kernel_ok K1 ext"
    using n ok slab_answer_ok(1) [of K] by (auto simp: task_name_copy_def split: if_splits prod.splits)
  then have ok2: "kernel_ok K2 ext"
    using slab_answer_ok(1) [OF s2] by simp
  define K3 where "K3 = K2\<lparr>k_next_pid := k_next_pid K2 + 1\<rparr>"
  have ok3: "kernel_ok K3 ext" using ok2 by (simp add: K3_def)
  have upd: "set_task a x L\<lparr>k_next_addr := u, k_tasks_by_pid := v\<rparr> =
      set_task a x (L\<lparr>k_next_addr := u, k_tasks_by_pid := v\<rparr>)" for a x L u v
    by (simp add: set_task_def)
  have K3: "k_next_addr K2 = k_next_addr K3" "k_tasks_by_pid K2 = k_tasks_by_pid K3" by (simp_all add: K3_def)
  show ?thesis
    using c n s2 ok ok1 ok2 ok3 new_task_ok [OF ok3 refl]
    unfolding task_create_with_vm_ownership_def K3_def [symmetric] upd
    by (auto simp: Let_def K3_def [symmetric] upd K3 split: option.splits if_splits)
qed

lemma task_retain_ok:
  assumes ok: "kernel_ok K ext" and t: "k_tasks K a = Some t" and "room K (KTask a)"
    and refuse: "refuse \<longleftrightarrow> t_dead t \<or> a = k_kernel_task K"
  shows "\<exists>K'. task_retain (Some a) K = Some (if refuse then ERR else OK, K') \<and>
    kernel_ok K' (ext + (if refuse then {#} else {#KTask a#})) \<and> alive K' = alive K \<and> held K' = held K"
proof (cases refuse)
  case False
  then show ?thesis
    using t refuse task_inc_ok [OF ok t assms(3)] held_ref_counts(2) [OF ok t]
    by (simp add: task_retain_def alive_set)
next
  case True
  then show ?thesis
    using ok t refuse by (auto simp: task_retain_def)
qed

lemma task_find_by_id_retain_ok:
  assumes ok: "kernel_ok K ext" and room: "\<And>a. k_tasks_by_pid K pid = Some a \<Longrightarrow> room K (KTask a)"
  shows "\<exists>r K'. task_find_by_id_retain pid K = Some (r, K') \<and>
    kernel_ok K' (ext + (case r of Some a \<Rightarrow> {#KTask a#} | None \<Rightarrow> {#})) \<and>
    (\<forall>a. r = Some a \<longleftrightarrow> (\<exists>t. k_tasks_by_pid K pid = Some a \<and> k_tasks K a = Some t \<and> t_pid t = pid \<and>
      \<not> t_dead t \<and> a \<noteq> k_kernel_task K))"
proof (cases "k_tasks_by_pid K pid")
  case None
  then show ?thesis using ok by (auto simp: task_find_by_id_retain_def)
next
  case (Some a)
  obtain t where t: "k_tasks K a = Some t" "t_pid t = pid"
    using index_okD(4,7) [OF kernel_okD(3) [OF ok] Some] by auto
  show ?thesis
    using Some t task_retain_ok [OF ok t(1) room [OF Some] refl]
    by (auto simp: task_find_by_id_retain_def split: if_splits)
qed

lemma task_marks [simp]:
  "task_refs (t\<lparr>t_thread_count := n\<rparr>) = task_refs t" "task_refs (t\<lparr>t_dead := d\<rparr>) = task_refs t"
  "task_refs (t\<lparr>t_killing := d\<rparr>) = task_refs t"
  "task_ok (t\<lparr>t_thread_count := n\<rparr>) = task_ok t" "task_ok (t\<lparr>t_dead := d\<rparr>) = task_ok t"
  "task_ok (t\<lparr>t_killing := d\<rparr>) = task_ok t"
  by (simp_all add: task_refs_def task_ok_def)

lemma le_1_32: "(x :: u32) \<le> 1 \<longleftrightarrow> x = 0 \<or> x = 1"
  by (simp add: word_le_nat_alt word_unat_eq_iff le_Suc_eq)

lemma task_thread_gone_ok:
  assumes ok: "kernel_ok K (ext + {#KTask a#})" and t: "k_tasks K a = Some t"
  shows "\<exists>K'. task_thread_gone a K = Some K' \<and>
    kernel_ok K' (if t_thread_count t \<le> 1 \<and> a \<noteq> k_kernel_task K then ext else ext + {#KTask a#})"
proof -
  define t1 where "t1 = t\<lparr>t_thread_count := (if t_thread_count t > 0 then t_thread_count t - 1
    else t_thread_count t)\<rparr>"
  have le1: "t_thread_count t1 = 0 \<longleftrightarrow> t_thread_count t \<le> 1"
    using le_1_32 [of "t_thread_count t"] by (auto simp: t1_def word_neq_0_conv)
  have ok1: "kernel_ok (set_task a t1 K) (ext + {#KTask a#})"
    using kernel_okD(8) [OF ok t] by (intro kernel_ok_set_task [OF ok t]) (simp_all add: t1_def)
  have ok2: "kernel_ok (set_task a (t1\<lparr>t_dead := True\<rparr>) K) (ext + {#KTask a#})"
    using kernel_okD(8) [OF ok t] by (intro kernel_ok_set_task [OF ok t]) (simp_all add: t1_def)
  have "task_thread_gone a K =
      (if t_thread_count t \<le> 1 \<and> a \<noteq> k_kernel_task K
       then task_release (Some a) (set_task a (t1\<lparr>t_dead := True\<rparr>) K) else Some (set_task a t1 K))"
    unfolding task_thread_gone_def t le1 [symmetric] unfolding t1_def Let_def by simp
  then show ?thesis
    using ok1 task_release_ok [OF ok2] by auto
qed

lemma task_discard_unstarted_ok:
  assumes ok: "kernel_ok K (ext + {#KTask a#})" and t: "k_tasks K a = Some t"
  shows "\<exists>s K'. task_discard_unstarted (Some a) K = Some (s, K') \<and>
    (if a = k_kernel_task K \<or> t_dead t \<or> t_thread_count t \<noteq> 0 then s = ERR \<and> K' = K
     else s = OK \<and> kernel_ok K' ext)"
proof -
  have "kernel_ok (set_task a (t\<lparr>t_killing := True, t_dead := True\<rparr>) K) (ext + {#KTask a#})"
    using kernel_okD(8) [OF ok t] by (intro kernel_ok_set_task [OF ok t]) simp_all
  from task_release_ok [OF this] show ?thesis
    using t by (auto simp: task_discard_unstarted_def)
qed

end
