(* ===== verification/Ipc_Proofs.thy ===== *)
theory Ipc_Proofs
  imports Ipc Handles_Spec Objects_Create
begin

text \<open>
  Messages move references: what a message in a queue refers to is counted, and sending and
  receiving keep the counts right.
\<close>

section \<open>Retaining and releasing a message\<close>

text \<open>
  Someone refers to the objects of the message and their counts have room; a task among them
  has not ended.
\<close>

definition message_live :: "kstate \<Rightarrow> kobj multiset \<Rightarrow> ipc_message \<Rightarrow> bool" where
  "message_live K ext m \<longleftrightarrow>
     (\<forall>x \<in># message_refs m. x \<in># held K + ext \<and> count (held K + ext) x < 2 ^ 32 - 3) \<and>
     (\<forall>b t. m_cap_type m = IPC_CAP_TASK \<longrightarrow> m_cap_object m = Some b \<longrightarrow> k_tasks K b = Some t \<longrightarrow>
        b \<noteq> k_kernel_task K \<longrightarrow> \<not> t_dead t)"

definition cap_retain :: "ipc_message \<Rightarrow> kstate \<Rightarrow> kstate option" where
  "cap_retain m K =
     (case m_cap_type m of
        IPC_CAP_PORT \<Rightarrow> ipc_port_retain (m_cap_object m) K
      | IPC_CAP_BUFFER \<Rightarrow> buffer_retain (m_cap_object m) K
      | IPC_CAP_TASK \<Rightarrow> map_option snd (task_retain (m_cap_object m) K)
      | IPC_CAP_HW_RESOURCE \<Rightarrow> map_option snd (task_hw_resource_retain (m_cap_object m) K)
      | IPC_CAP_SCHED_POLICY \<Rightarrow> map_option snd (sched_policy_cap_retain (m_cap_object m) K)
      | IPC_CAP_NONE \<Rightarrow> Some K)"

definition cap_release :: "ipc_message \<Rightarrow> kstate \<Rightarrow> kstate option" where
  "cap_release m K =
     (case m_cap_type m of
        IPC_CAP_PORT \<Rightarrow> ipc_port_release (m_cap_object m) K
      | IPC_CAP_BUFFER \<Rightarrow> buffer_release (m_cap_object m) K
      | IPC_CAP_TASK \<Rightarrow> task_release (m_cap_object m) K
      | IPC_CAP_HW_RESOURCE \<Rightarrow> task_hw_resource_release (m_cap_object m) K
      | IPC_CAP_SCHED_POLICY \<Rightarrow> sched_policy_cap_release (m_cap_object m) K
      | IPC_CAP_NONE \<Rightarrow> Some K)"

lemma ipc_message_retain_eq:
  "ipc_message_retain m K = Option.bind (ipc_port_retain (m_reply_port m) K) (cap_retain m)"
  unfolding ipc_message_retain_def cap_retain_def by simp

lemma ipc_message_release_eq:
  "ipc_message_release m K = Option.bind (cap_release m K)
     (\<lambda>K1. Option.bind (ipc_port_release (m_reply_port m) K1) (\<lambda>K2. Some (clear_message m, K2)))"
  unfolding ipc_message_release_def cap_release_def by simp

lemma shrinks_task_dead:
  assumes "shrinks K K'" and "k_tasks K' b = Some t'"
  shows "\<exists>t. k_tasks K b = Some t \<and> t_dead t' = t_dead t"
  using shrinksD(1) [OF assms] by auto

lemma kernel_ok_uncounted:
  assumes "kernel_ok K ext" and "k_tasks K b \<noteq> None" and "b = k_kernel_task K"
  shows "kernel_ok K (ext + {#KTask b#})"
  using assms by (auto simp: kernel_ok_def refs_ok_def)

lemma task_retain_shrinks:
  assumes ok: "kernel_ok K ext" and t: "k_tasks K b = Some t" and room: "room K (KTask b)"
    and live: "b \<noteq> k_kernel_task K \<Longrightarrow> \<not> t_dead t"
  shows "\<exists>K'. map_option snd (task_retain (Some b) K) = Some K' \<and> kernel_ok K' (ext + {#KTask b#}) \<and>
    shrinks K K' \<and> alive K' = alive K \<and> held K' = held K"
proof (cases "b = k_kernel_task K")
  case True
  then show ?thesis
    using kernel_ok_uncounted [OF ok _ True] t by (simp add: task_retain_def)
next
  case False
  then show ?thesis
    using t live task_inc_ok [OF ok t room] held_ref_counts(2) [OF ok t] shrinks_set(2) [OF t]
    by (simp add: task_retain_def alive_set)
qed

lemma cap_retain_ok:
  assumes ok: "kernel_ok K ext"
    and obj: "\<And>x. x \<in># cap_obj (m_cap_type m) (m_cap_object m) \<Longrightarrow> alive K x \<and> room K x"
    and live: "\<And>b t. m_cap_type m = IPC_CAP_TASK \<Longrightarrow> m_cap_object m = Some b \<Longrightarrow> k_tasks K b = Some t \<Longrightarrow>
      b \<noteq> k_kernel_task K \<Longrightarrow> \<not> t_dead t"
  shows "\<exists>K'. cap_retain m K = Some K' \<and> kernel_ok K' (ext + cap_obj (m_cap_type m) (m_cap_object m)) \<and>
    shrinks K K' \<and> alive K' = alive K \<and> held K' = held K"
proof (cases "m_cap_object m")
  case None
  then show ?thesis
    using ok by (simp add: cap_retain_def cap_obj_def ipc_port_retain_def buffer_retain_def task_retain_def
      task_hw_resource_retain_def sched_policy_cap_retain_def split: ipc_cap_type.splits)
next
  case (Some b)
  show ?thesis
  proof (cases "m_cap_type m")
    case IPC_CAP_TASK
    then obtain t where t: "k_tasks K b = Some t" "room K (KTask b)"
      using obj Some by (auto simp: cap_obj_def)
    show ?thesis
      using IPC_CAP_TASK Some task_retain_shrinks [OF ok t live [OF IPC_CAP_TASK Some t(1)]]
      by (simp add: cap_retain_def cap_obj_def)
  qed (use Some obj ok ports.retain_ok [OF ok, of b] buffers.retain_ok [OF ok, of b]
      hardware.retain_ok [OF ok, of b] policies.retain_ok [OF ok, of b]
    in \<open>simp_all add: cap_retain_def cap_obj_def\<close>)
qed

lemma cap_release_ok:
  assumes ok: "kernel_ok K (ext + cap_obj (m_cap_type m) (m_cap_object m))"
  shows "\<exists>K'. cap_release m K = Some K' \<and> kernel_ok K' ext \<and>
    released K (ext + cap_obj (m_cap_type m) (m_cap_object m)) K' ext"
proof (cases "m_cap_object m")
  case None
  then show ?thesis
    using ok by (simp add: cap_release_def cap_obj_def released_refl ports.release_null buffers.release_null
      hardware.release_null policies.release_null split: ipc_cap_type.splits)
next
  case (Some b)
  show ?thesis
    using ok Some ports.release_ok [of K ext b] buffers.release_ok [of K ext b] tasks.release_ok [of K ext b]
      hardware.release_ok [of K ext b] policies.release_ok [of K ext b]
    by (cases "m_cap_type m") (simp_all add: cap_release_def cap_obj_def released_refl)
qed

lemma port_ref_retain_ok:
  assumes "kernel_ok K ext" and "\<And>x. x \<in># port_ref port \<Longrightarrow> alive K x \<and> room K x"
  shows "\<exists>K'. ipc_port_retain port K = Some K' \<and> kernel_ok K' (ext + port_ref port) \<and>
    shrinks K K' \<and> alive K' = alive K \<and> held K' = held K"
  using assms ports.retain_ok [OF assms(1)] by (cases port) (auto simp: port_ref_def ports.retain_null)

lemma message_retain_ok:
  assumes ok: "kernel_ok K ext" and m: "message_live K ext m"
  shows "\<exists>K'. ipc_message_retain m K = Some K' \<and> kernel_ok K' (ext + message_refs m) \<and>
    shrinks K K' \<and> alive K' = alive K \<and> held K' = held K"
proof -
  have cnt: "alive K x \<and> count (held K + ext) x < 2 ^ 32 - 3" if "x \<in># message_refs m" for x
    using m that refs_ok_alive [OF kernel_okD(1) [OF ok]] by (auto simp: message_live_def)
  have "alive K x \<and> room K x" if "x \<in># port_ref (m_reply_port m)" for x
    using that cnt [of x] room_count [OF ok, of x] by (auto simp: message_refs_def)
  then obtain K1 where K1: "ipc_port_retain (m_reply_port m) K = Some K1"
    "kernel_ok K1 (ext + port_ref (m_reply_port m))" "shrinks K K1" "alive K1 = alive K" "held K1 = held K"
    using port_ref_retain_ok [OF ok, of "m_reply_port m"] by blast
  have one: "count (port_ref (m_reply_port m)) x \<le> 1" for x
    by (simp add: port_ref_def split: option.splits)
  have "alive K1 x \<and> room K1 x" if "x \<in># cap_obj (m_cap_type m) (m_cap_object m)" for x
    using that cnt [of x] one [of x] room_count [OF K1(2), of x] K1(4,5) by (auto simp: message_refs_def)
  moreover have "\<not> t_dead t" if "m_cap_type m = IPC_CAP_TASK" "m_cap_object m = Some b"
    "k_tasks K1 b = Some t" "b \<noteq> k_kernel_task K1" for b t
    using m that shrinks_task_dead [OF K1(3) that(3)] shrinksD(11) [OF K1(3)] by (auto simp: message_live_def)
  ultimately obtain K2 where "cap_retain m K1 = Some K2"
    "kernel_ok K2 (ext + port_ref (m_reply_port m) + cap_obj (m_cap_type m) (m_cap_object m))"
    "shrinks K1 K2" "alive K2 = alive K1" "held K2 = held K1"
    using cap_retain_ok [OF K1(2)] by blast
  then show ?thesis
    using K1 shrinks_trans [OF K1(3), of K2] by (auto simp: ipc_message_retain_eq message_refs_def ac_simps)
qed

lemma message_release_ok:
  assumes ok: "kernel_ok K (ext + message_refs m)"
  shows "\<exists>K'. ipc_message_release m K = Some (clear_message m, K') \<and> kernel_ok K' ext \<and>
    released K (ext + message_refs m) K' ext"
proof -
  have "kernel_ok K (ext + port_ref (m_reply_port m) + cap_obj (m_cap_type m) (m_cap_object m))"
    using ok by (simp add: message_refs_def ac_simps)
  from cap_release_ok [OF this] obtain K1 where K1: "cap_release m K = Some K1"
    "kernel_ok K1 (ext + port_ref (m_reply_port m))"
    "released K (ext + message_refs m) K1 (ext + port_ref (m_reply_port m))"
    by (auto simp: message_refs_def ac_simps)
  from port_ref_release_ok [OF K1(2)] obtain K2 where "ipc_port_release (m_reply_port m) K1 = Some K2"
    "kernel_ok K2 ext" "released K1 (ext + port_ref (m_reply_port m)) K2 ext"
    by blast
  then show ?thesis
    using K1 released_trans [OF K1(3)] by (auto simp: ipc_message_release_eq)
qed

lemma clear_message_refs [simp]: "message_refs (clear_message m) = {#}"
  by (simp add: message_refs_def clear_message_def cap_obj_def port_ref_def)

lemma message_free_cleared [simp]: "message_free (clear_message m) K = Some K"
  by (simp add: message_free_def ipc_message_release_def clear_message_def ipc_port_release_def)



section \<open>A release that is not the last\<close>

text \<open>Only the count of one object changes.\<close>

definition kept :: "kstate \<Rightarrow> kstate \<Rightarrow> bool" where
  "kept K K' \<longleftrightarrow> shrinks K K' \<and> alive K' = alive K \<and> held K' = held K"

lemma kept_refl [simp]: "kept K K"
  by (simp add: kept_def)

lemma kept_trans: "kept K K' \<Longrightarrow> kept K' K'' \<Longrightarrow> kept K K''"
  by (auto simp: kept_def intro: shrinks_trans)

lemma two_refs:
  assumes "kernel_ok K ext" and "2 \<le> count (held K + ext) x" and "refcount K x = Some (unat (n :: u32))"
  shows "n \<noteq> 0" and "n - 1 \<noteq> 0"
proof -
  have "2 \<le> unat n"
    using refs_ok_count [OF kernel_okD(1) [OF assms(1)] assms(3)] assms(2) by simp
  then show "n \<noteq> 0" and "n - 1 \<noteq> 0"
    by auto
qed

lemma port_release_kept:
  assumes ok: "kernel_ok K ext" and two: "2 \<le> count (held K + ext) (KPort a)" "k_ports K a = Some p"
  shows "\<exists>K'. ipc_port_release (Some a) K = Some K' \<and> kept K K'"
  using two_refs [OF ok two(1), of "p_ref_count p"] two(2) kernel_okD(7) [OF ok]
    shrinks_set(1) [OF two(2)] held_ref_counts(1) [OF ok two(2)]
  by (auto simp: ipc_port_release_def kept_def alive_set word_gt_0 Let_def)

lemma buffer_release_kept:
  assumes ok: "kernel_ok K ext" and two: "2 \<le> count (held K + ext) (KBuffer a)" "k_buffers K a = Some b"
  shows "\<exists>K'. buffer_release (Some a) K = Some K' \<and> kept K K'"
  using two_refs [OF ok two(1), of "b_ref_count b"] two(2) shrinks_set(3) [OF two(2)]
  by (auto simp: buffer_release_def kept_def alive_set word_gt_0 Let_def)

lemma task_release_kept:
  assumes ok: "kernel_ok K ext" and two: "2 \<le> count (held K + ext) (KTask a)" "k_tasks K a = Some t"
  shows "\<exists>K'. task_release (Some a) K = Some K' \<and> kept K K'"
proof (cases "a = k_kernel_task K")
  case True
  then show ?thesis by (subst task_release.simps) simp
next
  case False
  then show ?thesis
    using two_refs [OF ok two(1), of "t_ref_count t"] two(2) shrinks_set(2) [OF two(2)]
      held_ref_counts(2) [OF ok two(2)]
    by (subst task_release.simps) (auto simp: kept_def alive_set word_gt_0 Let_def)
qed

lemma hw_release_kept:
  assumes ok: "kernel_ok K ext" and two: "2 \<le> count (held K + ext) (KHw a)" "k_hws K a = Some h"
  shows "\<exists>K'. task_hw_resource_release (Some a) K = Some K' \<and> kept K K'"
proof (cases "hw_owned h")
  case True
  then show ?thesis
    using two_refs [OF ok two(1), of "hw_ref_count h"] two(2) shrinks_set(4) [OF two(2)]
    by (auto simp: task_hw_resource_release_def kept_def alive_set hw_owned_def Let_def)
qed (use two(2) in \<open>auto simp: task_hw_resource_release_def hw_owned_def\<close>)

lemma policy_release_kept:
  assumes ok: "kernel_ok K ext" and two: "2 \<le> count (held K + ext) (KPolicy a)" "k_policies K a = Some c"
  shows "\<exists>K'. sched_policy_cap_release (Some a) K = Some K' \<and> kept K K'"
  using two_refs [OF ok two(1), of "sp_ref_count c"] two(2) shrinks_set(5) [OF two(2)]
  by (auto simp: sched_policy_cap_release_def kept_def alive_set Let_def)

lemma cap_release_kept:
  assumes ok: "kernel_ok K ext"
    and two: "\<And>x. x \<in># cap_obj (m_cap_type m) (m_cap_object m) \<Longrightarrow> 2 \<le> count (held K + ext) x \<and> alive K x"
  shows "\<exists>K'. cap_release m K = Some K' \<and> kept K K'"
proof (cases "m_cap_object m")
  case None
  then show ?thesis
    by (simp add: cap_release_def ports.release_null buffers.release_null
      hardware.release_null policies.release_null split: ipc_cap_type.splits)
next
  case (Some b)
  then show ?thesis
    using two port_release_kept [OF ok] buffer_release_kept [OF ok] task_release_kept [OF ok]
      hw_release_kept [OF ok] policy_release_kept [OF ok]
    by (cases "m_cap_type m") (auto simp: cap_release_def cap_obj_def)
qed

text \<open>Objects of a message to which there are other references stay when it is released.\<close>

lemma message_release_kept:
  assumes ok: "kernel_ok K (ext + message_refs m)" and others: "\<And>x. x \<in># message_refs m \<Longrightarrow> x \<in># held K + ext"
  shows "\<exists>K'. ipc_message_release m K = Some (clear_message m, K') \<and> kernel_ok K' ext \<and> kept K K'"
proof -
  let ?c = "cap_obj (m_cap_type m) (m_cap_object m)" and ?r = "port_ref (m_reply_port m)"
  have pos: "0 < count (held K + ext) x" if "x \<in># message_refs m" for x
    using others [OF that] by (simp add: count_greater_zero_iff)
  have two: "2 \<le> count (held K + (ext + message_refs m)) x \<and> alive K x" if x: "x \<in># ?c" for x
  proof -
    have m: "x \<in># message_refs m" using x by (simp add: message_refs_def)
    then have "1 \<le> count (message_refs m) x" by (simp add: Suc_le_eq)
    then have "2 \<le> count (held K + ext) x + count (message_refs m) x"
      using pos [OF m] by linarith
    then show ?thesis
      using m refs_ok_alive [OF kernel_okD(1) [OF ok], of x] by simp
  qed
  from cap_release_kept [OF ok two] obtain K1 where K1: "cap_release m K = Some K1" "kept K K1"
    by blast
  have "kernel_ok K ((ext + ?r) + ?c)"
    using ok by (simp add: message_refs_def ac_simps)
  from cap_release_ok [OF this] have ok1: "kernel_ok K1 (ext + ?r)"
    using K1(1) by auto
  obtain K2 where K2: "ipc_port_release (m_reply_port m) K1 = Some K2" "kept K1 K2"
  proof (cases "m_reply_port m")
    case None
    then show ?thesis using that [of K1] by (simp add: ports.release_null)
  next
    case (Some q)
    have q: "KPort q \<in># message_refs m" using Some by (simp add: message_refs_def port_ref_def)
    have "held K1 = held K" using K1(2) by (simp add: kept_def)
    moreover have "1 \<le> count (held K + ext) (KPort q)" using pos [OF q] by linarith
    ultimately have "2 \<le> count (held K1 + (ext + ?r)) (KPort q)"
      using Some unfolding port_ref_def by simp
    moreover obtain p where "k_ports K1 q = Some p"
      using refs_ok_alive [OF kernel_okD(1) [OF ok1], of "KPort q"] Some by (auto simp: port_ref_def)
    ultimately show ?thesis
      using that Some port_release_kept [OF ok1] by metis
  qed
  from port_ref_release_ok [OF ok1] have "kernel_ok K2 ext"
    using K2(1) by auto
  then show ?thesis
    using K1 K2 kept_trans [OF K1(2) K2(2)] by (auto simp: ipc_message_release_eq)
qed

section \<open>Frames\<close>

text \<open>Everything but the ports, threads, wait records and counters is as before.\<close>

definition same_objects :: "kstate \<Rightarrow> kstate \<Rightarrow> bool" where
  "same_objects K K' \<longleftrightarrow> k_buffers K' = k_buffers K \<and> k_tasks K' = k_tasks K \<and> k_hws K' = k_hws K \<and>
     k_policies K' = k_policies K \<and> k_ports_by_name K' = k_ports_by_name K \<and>
     k_ports_by_id K' = k_ports_by_id K \<and> k_tasks_by_pid K' = k_tasks_by_pid K \<and>
     k_kernel_task K' = k_kernel_task K \<and> k_next_addr K' = k_next_addr K \<and>
     k_ipc_locked K' = k_ipc_locked K \<and> k_allocs K' = k_allocs K"

lemma same_objects_refl [simp]: "same_objects K K"
  by (simp add: same_objects_def)

lemma same_objects_trans: "same_objects K K' \<Longrightarrow> same_objects K' K'' \<Longrightarrow> same_objects K K''"
  by (simp add: same_objects_def)

lemma same_objects_steps [simp]:
  "same_objects K (set_port a p K)" "same_objects K (set_thread th t K)"
  "same_objects K (ipc_stats_inc cpu c K)" "same_objects K (K\<lparr>k_waits := w\<rparr>)"
  "same_objects K (open_wait th K)" "same_objects K (close_wait th K)"
  by (simp_all add: same_objects_def set_thread_def ipc_stats_inc_def open_wait_def close_wait_def)

lemma ipc_fields [simp]:
  "k_ports (ipc_stats_inc cpu c K) = k_ports K" "k_threads (ipc_stats_inc cpu c K) = k_threads K"
  "k_waits (ipc_stats_inc cpu c K) = k_waits K" "k_ipc_locked (ipc_stats_inc cpu c K) = k_ipc_locked K"
  "k_tasks (ipc_stats_inc cpu c K) = k_tasks K" "k_allocs (ipc_stats_inc cpu c K) = k_allocs K"
  "k_ports (set_thread th t K) = k_ports K" "k_threads (set_thread th t K) = (k_threads K)(th \<mapsto> t)"
  "k_waits (set_thread th t K) = k_waits K" "k_ipc_locked (set_thread th t K) = k_ipc_locked K"
  "k_tasks (set_thread th t K) = k_tasks K" "k_allocs (set_thread th t K) = k_allocs K"
  "k_ports (open_wait th K) = k_ports K" "k_threads (open_wait th K) = k_threads K"
  "k_tasks (open_wait th K) = k_tasks K" "k_ipc_locked (open_wait th K) = k_ipc_locked K"
  "k_waits (open_wait th K) = (k_waits K)(th \<mapsto>
     \<lparr>w_message = empty_message, w_index = 0, w_delivered = False\<rparr>)"
  "k_ports (close_wait th K) = k_ports K" "k_threads (close_wait th K) = k_threads K"
  "k_tasks (close_wait th K) = k_tasks K" "k_ipc_locked (close_wait th K) = k_ipc_locked K"
  "k_waits (close_wait th K) = (k_waits K)(th := None)"
  by (simp_all add: ipc_stats_inc_def set_thread_def open_wait_def close_wait_def)

lemma ipc_lock_cong: "k_ipc_locked K' = k_ipc_locked K \<Longrightarrow> ipc_lock K' = ipc_lock K"
  by (simp add: ipc_lock_def)

text \<open>
  Ports change without changing who they are; what the queues no longer hold, or hold in
  addition, is held by running code before, or after.
\<close>

lemma kernel_ok_ports:
  assumes ok: "kernel_ok K ext" and same: "same_objects K K'"
    and ports: "\<And>a. rel_option (\<lambda>p p'. p_id p' = p_id p \<and> p_name p' = p_name p \<and>
        p_immortal p' = p_immortal p \<and> p_ref_count p' = p_ref_count p \<and> port_ok K' p') (k_ports K a) (k_ports K' a)"
    and refs: "map_sum queue_refs (k_ports K') + ext' = map_sum queue_refs (k_ports K) + ext"
  shows "kernel_ok K' ext'"
proof -
  note S = same [unfolded same_objects_def]
  have P: "\<exists>p. k_ports K a = Some p \<and> p_id p' = p_id p \<and> p_name p' = p_name p \<and>
      p_immortal p' = p_immortal p \<and> p_ref_count p' = p_ref_count p \<and> port_ok K' p'"
    if "k_ports K' a = Some p'" for a p'
    using ports [of a] that by (cases "k_ports K a") auto
  have N: "k_ports K' a = None \<longleftrightarrow> k_ports K a = None" for a
    using ports [of a] by (cases "k_ports K a") (auto elim: option.rel_cases)
  have "refcount K' x = refcount K x" for x
  proof (cases x)
    case (KPort a)
    then show ?thesis using P [of a] N [of a] by (cases "k_ports K' a") auto
  qed (use S in simp_all)
  moreover have "alive K' x = alive K x" for x
    using S N by (cases x) simp_all
  moreover have "held K' + ext' = held K + ext"
    using refs S by (simp add: held_def add.assoc)
  ultimately have "refs_ok K' ext'"
    using refs_ok_move [OF kernel_okD(1) [OF ok], of K' ext'] by presburger
  moreover have "stores_ok K'"
  proof -
    have "dom (k_ports K') = dom (k_ports K)" using N by (auto simp: dom_def)
    moreover have "port_ok K' p'" if "k_ports K' a = Some p'" for a p'
      using P [OF that] by blast
    ultimately show ?thesis
      using kernel_okD(2) [OF ok] S N unfolding stores_ok_def by simp
  qed
  moreover have "index_ok K'"
    unfolding index_ok_def
  proof (intro conjI allI impI)
    note idx = index_okD [OF kernel_okD(3) [OF ok]]
    show "k_ports_by_id K' (p_id q) = Some b" if "k_ports K' b = Some q" for b q
      using P [OF that] idx(1) [of b] S by auto
    show "\<exists>q. k_ports K' b = Some q \<and> p_id q = i" if "k_ports_by_id K' i = Some b" for i b
      using that idx(2,6) [of i b] N [of b] P [of b] S by auto
    show "\<exists>q. k_ports K' b = Some q \<and> p_immortal q \<and> p_name q = n" if "k_ports_by_name K' n = Some b" for n b
      using that idx(3,5,8) [of n b] N [of b] P [of b] S by auto
    show "\<exists>t. k_tasks K' b = Some t \<and> t_pid t = i" if "k_tasks_by_pid K' i = Some b" for i b
      using that idx(4,7) [of i b] S by auto
  qed
  ultimately show ?thesis by (simp add: kernel_ok_def)
qed

lemma kernel_ok_set_port:
  assumes ok: "kernel_ok K ext" and p: "k_ports K a = Some p" and same: "same_objects K K'"
    and "k_ports K' = (k_ports K)(a \<mapsto> p')"
    and "p_id p' = p_id p" "p_name p' = p_name p" "p_immortal p' = p_immortal p" "p_ref_count p' = p_ref_count p"
    and "port_ok K' p'" and others: "\<And>b q. b \<noteq> a \<Longrightarrow> k_ports K b = Some q \<Longrightarrow> port_ok K' q"
    and refs: "queue_refs p' + ext' = queue_refs p + ext"
  shows "kernel_ok K' ext'"
proof (rule kernel_ok_ports [OF ok same])
  show "rel_option (\<lambda>p p'. p_id p' = p_id p \<and> p_name p' = p_name p \<and> p_immortal p' = p_immortal p \<and>
      p_ref_count p' = p_ref_count p \<and> port_ok K' p') (k_ports K b) (k_ports K' b)" for b
    using assms(4-9) p others by (cases "k_ports K b") (auto simp: rel_option_iff)
  have "map_sum queue_refs ((k_ports K)(a \<mapsto> p')) + queue_refs p = map_sum queue_refs (k_ports K) + queue_refs p'"
    by (rule map_sum_update [where f = queue_refs, OF kernel_okD(5) [OF ok] p])
  from held_move [OF this refs] show "map_sum queue_refs (k_ports K') + ext' = map_sum queue_refs (k_ports K) + ext"
    using assms(4) by simp
qed

lemma port_ok_weaken:
  assumes "port_ok K p" and "\<And>th. k_threads K th \<noteq> None \<Longrightarrow> k_threads K' th \<noteq> None"
    and "\<And>th. p_receiver p = Some th \<Longrightarrow> k_waits K th \<noteq> None \<Longrightarrow> k_waits K' th \<noteq> None"
  shows "port_ok K' p"
  using assms by (auto simp: port_ok_def)

lemma kernel_ok_same_ports:
  assumes ok: "kernel_ok K ext" and same: "same_objects K K'" and "k_ports K' = k_ports K"
    and "\<And>th. k_threads K th \<noteq> None \<Longrightarrow> k_threads K' th \<noteq> None"
    and "\<And>a p th. k_ports K a = Some p \<Longrightarrow> p_receiver p = Some th \<Longrightarrow> k_waits K th \<noteq> None \<Longrightarrow> k_waits K' th \<noteq> None"
  shows "kernel_ok K' ext"
proof (rule kernel_ok_ports [OF ok same])
  show "rel_option (\<lambda>p p'. p_id p' = p_id p \<and> p_name p' = p_name p \<and> p_immortal p' = p_immortal p \<and>
      p_ref_count p' = p_ref_count p \<and> port_ok K' p') (k_ports K b) (k_ports K' b)" for b
    using kernel_okD(9) [OF ok, of b] assms(3-5) port_ok_weaken [of K _ K']
    by (cases "k_ports K b") (auto simp: rel_option_iff)
qed (simp add: assms(3))

lemma kernel_ok_stats [simp]: "kernel_ok (ipc_stats_inc cpu c K) ext = kernel_ok K ext"
proof
  assume "kernel_ok K ext"
  then show "kernel_ok (ipc_stats_inc cpu c K) ext" by (rule kernel_ok_same_ports) simp_all
next
  assume "kernel_ok (ipc_stats_inc cpu c K) ext"
  then show "kernel_ok K ext"
    by (rule kernel_ok_same_ports) (simp_all add: same_objects_def ipc_stats_inc_def)
qed

lemma kernel_ok_set_thread: "kernel_ok K ext \<Longrightarrow> kernel_ok (set_thread th t K) ext"
  by (erule kernel_ok_same_ports) simp_all

lemma kernel_ok_open_wait: "kernel_ok K ext \<Longrightarrow> kernel_ok (open_wait th K) ext"
  by (erule kernel_ok_same_ports) simp_all

text \<open>A thread that no port has as its receiver may drop its wait record.\<close>

definition unregistered :: "nat \<Rightarrow> kstate \<Rightarrow> bool" where
  "unregistered th K \<longleftrightarrow> (\<forall>a p. k_ports K a = Some p \<longrightarrow> p_receiver p \<noteq> Some th)"

lemma kernel_ok_close_wait: "kernel_ok K ext \<Longrightarrow> unregistered th K \<Longrightarrow> kernel_ok (close_wait th K) ext"
  by (erule kernel_ok_same_ports) (auto simp: unregistered_def)

lemma thread_unblock_ok:
  assumes "kernel_ok K ext" and "\<And>th. thread = Some th \<Longrightarrow> k_threads K th \<noteq> None"
  shows "\<exists>K'. thread_unblock thread K = Some K' \<and> kernel_ok K' ext \<and> same_objects K K' \<and>
    k_ports K' = k_ports K \<and> k_waits K' = k_waits K \<and>
    (\<forall>th t. thread = Some th \<longrightarrow> k_threads K th = Some t \<longrightarrow> k_threads K' = (k_threads K)(th \<mapsto>
       t\<lparr>th_state := if th_state t = THREAD_BLOCKED then THREAD_READY else th_state t\<rparr>)) \<and>
    (thread = None \<longrightarrow> K' = K)"
  using assms kernel_ok_set_thread [OF assms(1)]
  by (cases thread) (auto simp: thread_unblock_def fun_upd_idem)

end
