(* ===== verification/Ipc_Ops.thy ===== *)
theory Ipc_Ops
  imports Ipc_Proofs
begin

text \<open>
  What sending and receiving do, over the abstract view of the ports: the messages pending at
  each port and the thread that waits for the next one.
\<close>

section \<open>Mailboxes\<close>

definition pending :: "kstate \<Rightarrow> nat \<Rightarrow> ipc_message list option" where
  "pending K a = map_option p_queue (k_ports K a)"

definition receiver_of :: "kstate \<Rightarrow> nat \<Rightarrow> nat option" where
  "receiver_of K a = Option.bind (k_ports K a) p_receiver"

text \<open>The thread a message to the port goes to without being queued.\<close>

definition direct_receiver :: "kstate \<Rightarrow> nat \<Rightarrow> nat option" where
  "direct_receiver K a =
     (case receiver_of K a of
        None \<Rightarrow> None
      | Some th \<Rightarrow> (case k_waits K th of
          Some w \<Rightarrow> if w_delivered w then None else Some th
        | None \<Rightarrow> None))"

lemma pending_fun: "pending K = map_option p_queue \<circ> k_ports K"
  by (simp add: pending_def fun_eq_iff)

lemma kept_ports:
  assumes "kept K K'"
  shows "\<exists>n. k_ports K' a = map_option (\<lambda>p. p\<lparr>p_ref_count := n\<rparr>) (k_ports K a)"
proof (cases "k_ports K' a")
  case None
  moreover have "alive K' (KPort a) = alive K (KPort a)"
    using assms by (simp add: kept_def)
  ultimately have "k_ports K a = None" by simp
  then show ?thesis using None by simp
next
  case (Some p')
  then show ?thesis
    using assms shrinksD(2) [of K K' a p'] by (auto simp: kept_def)
qed

lemma kept_mail:
  assumes "kept K K'"
  shows "pending K' = pending K" and "receiver_of K' = receiver_of K" and "k_waits K' = k_waits K"
    and "k_threads K' = k_threads K" and "direct_receiver K' = direct_receiver K"
    and "k_ipc_locked K' = k_ipc_locked K" and "k_allocs K' = k_allocs K"
proof -
  have p: "\<exists>n. k_ports K' a = map_option (\<lambda>p. p\<lparr>p_ref_count := n\<rparr>) (k_ports K a)" for a
    by (rule kept_ports [OF assms])
  show m: "pending K' = pending K"
  proof
    fix a
    show "pending K' a = pending K a"
      using p [of a] by (cases "k_ports K a") (auto simp: pending_def)
  qed
  show r: "receiver_of K' = receiver_of K"
  proof
    fix a
    show "receiver_of K' a = receiver_of K a"
      using p [of a] by (cases "k_ports K a") (auto simp: receiver_of_def)
  qed
  have sh: "shrinks K K'" using assms by (simp add: kept_def)
  show w: "k_waits K' = k_waits K" "k_threads K' = k_threads K" "k_ipc_locked K' = k_ipc_locked K"
    "k_allocs K' = k_allocs K"
    using shrinksD(9,10,13,14) [OF sh] by simp_all
  show "direct_receiver K' = direct_receiver K"
    by (rule ext) (simp only: direct_receiver_def r w)
qed

lemma mail_fields [simp]:
  "pending (set_port a p K) = (pending K)(a \<mapsto> p_queue p)" "pending (ipc_stats_inc cpu c K) = pending K"
  "pending (set_thread th t K) = pending K" "pending (K\<lparr>k_waits := w\<rparr>) = pending K"
  "pending (K\<lparr>k_allocs := l\<rparr>) = pending K" "pending (open_wait th K) = pending K"
  "pending (close_wait th K) = pending K"
  "receiver_of (set_port a p K) = (receiver_of K)(a := p_receiver p)"
  "receiver_of (ipc_stats_inc cpu c K) = receiver_of K" "receiver_of (set_thread th t K) = receiver_of K"
  "receiver_of (K\<lparr>k_waits := w\<rparr>) = receiver_of K" "receiver_of (K\<lparr>k_allocs := l\<rparr>) = receiver_of K"
  "receiver_of (open_wait th K) = receiver_of K" "receiver_of (close_wait th K) = receiver_of K"
  by (auto simp: pending_def receiver_of_def fun_eq_iff)


section \<open>Sending\<close>

lemma kept_stats [simp]: "kept K (ipc_stats_inc cpu c K)"
proof -
  have alive: "alive (ipc_stats_inc cpu c K) = alive K"
    by (rule ext, case_tac x; simp add: ipc_stats_inc_def)
  have "shrinks K (K\<lparr>k_stats := s, k_cpu_stats := u\<rparr>) = shrinks K K" for s u
    by (simp only: shrinks_def) simp
  then have "shrinks K (ipc_stats_inc cpu c K)"
    unfolding ipc_stats_inc_def by simp
  then show ?thesis
    using alive by (simp add: kept_def held_def)
qed

lemma deliver_direct_ok:
  assumes ok: "kernel_ok K ext" and p: "k_ports K a = Some p"
  shows "\<exists>K'. deliver_direct cpu a m K = Some (direct_receiver K a, K') \<and> kernel_ok K' ext \<and>
    same_objects K K' \<and> pending K' = pending K \<and> k_threads K' = k_threads K \<and>
    (case direct_receiver K a of
       Some th \<Rightarrow> k_waits K' = (k_waits K)(th \<mapsto>
           \<lparr>w_message = m, w_index = p_receiver_index p, w_delivered = True\<rparr>) \<and>
         receiver_of K' = (receiver_of K)(a := None)
     | None \<Rightarrow> kept K K' \<and> k_ports K' = k_ports K)"
proof -
  note pok = kernel_okD(9) [OF ok p]
  show ?thesis
  proof (cases "direct_receiver K a")
    case None
    have "deliver_direct cpu a m K = Some (None, ipc_stats_inc cpu SENDS K)"
    proof (cases "p_receiver p")
      case (Some th)
      moreover obtain w where "k_waits K th = Some w"
        using pok Some by (auto simp: port_ok_def)
      ultimately show ?thesis
        using None p pok kernel_okD(7) [OF ok]
        by (simp add: deliver_direct_def direct_receiver_def receiver_of_def port_ok_def split: if_splits)
    qed (use p kernel_okD(7) [OF ok] in \<open>simp add: deliver_direct_def\<close>)
    then show ?thesis using None ok by simp
  next
    case (Some th)
    then obtain w where w: "p_receiver p = Some th" "p_receiver_wait p = Some th" "k_waits K th = Some w"
      "\<not> w_delivered w" "p_queue p = []"
      using p pok by (auto simp: direct_receiver_def receiver_of_def port_ok_def split: option.splits if_splits)
    let ?p = "p\<lparr>p_receiver := None, p_receiver_wait := None\<rparr>"
    let ?w = "\<lparr>w_message = m, w_index = p_receiver_index p, w_delivered = True\<rparr>"
    let ?K1 = "set_port a ?p (ipc_stats_inc cpu SENDS K)\<lparr>k_waits := (k_waits K)(th \<mapsto> ?w)\<rparr>"
    have run: "deliver_direct cpu a m K = Some (Some th, ipc_stats_inc cpu DIRECT_DELIVERED ?K1)"
      using p w kernel_okD(7) [OF ok] by (simp add: deliver_direct_def)
    have "kernel_ok ?K1 ext"
    proof (rule kernel_ok_set_port [OF ok p, where p' = ?p])
      show "same_objects K ?K1" by (simp add: same_objects_def ipc_stats_inc_def)
      show "port_ok ?K1 q" if "b \<noteq> a" "k_ports K b = Some q" for b q
        using kernel_okD(9) [OF ok that(2)] by (rule port_ok_weaken) simp_all
    qed (use pok in \<open>simp_all add: port_ok_def queue_refs_def\<close>)
    moreover have "pending K a = Some []" using p w(5) by (simp add: pending_def)
    moreover have "same_objects K (ipc_stats_inc cpu DIRECT_DELIVERED ?K1)"
      by (simp add: same_objects_def ipc_stats_inc_def)
    ultimately show ?thesis
      using run Some w(5) by (simp add: fun_upd_idem)
  qed
qed

lemma enqueue_message_ok:
  assumes ok: "kernel_ok K (ext + message_refs m)" and p: "k_ports K a = Some p"
    and len: "length (p_queue p) < 2 ^ 32 - 1"
  shows "\<exists>K'. enqueue_message cpu a m K = Some K' \<and> kernel_ok K' ext \<and>
    pending K' = (pending K)(a \<mapsto> p_queue p @ [m]) \<and> receiver_of K' = (receiver_of K)(a := None) \<and>
    k_waits K' = k_waits K \<and>
    (\<forall>th t. p_receiver p = Some th \<longrightarrow> k_threads K th = Some t \<longrightarrow> k_threads K' = (k_threads K)(th \<mapsto>
       t\<lparr>th_state := if th_state t = THREAD_BLOCKED then THREAD_READY else th_state t\<rparr>)) \<and>
    (p_receiver p = None \<longrightarrow> k_threads K' = k_threads K)"
proof -
  note pok = kernel_okD(9) [OF ok p]
  let ?p = "p\<lparr>p_queue := p_queue p @ [m], p_queued := p_queued p + 1, p_receiver := None,
    p_receiver_wait := (if p_receiver p \<noteq> None then None else p_receiver_wait p)\<rparr>"
  let ?K1 = "ipc_stats_inc cpu QUEUED (set_port a ?p K)"
  have ok1: "kernel_ok ?K1 ext"
    unfolding kernel_ok_stats
  proof (rule kernel_ok_set_port [OF ok p, where p' = ?p])
    show "port_ok (set_port a ?p K) q" if "b \<noteq> a" "k_ports K b = Some q" for b q
      using kernel_okD(9) [OF ok that(2)] by (rule port_ok_weaken) simp_all
  qed (use pok len in \<open>auto simp: port_ok_def queue_refs_def ac_simps\<close>)
  have "k_threads ?K1 th \<noteq> None" if "p_receiver p = Some th" for th
    using pok that by (auto simp: port_ok_def)
  from thread_unblock_ok [OF ok1 this]
  obtain K' where K': "thread_unblock (p_receiver p) ?K1 = Some K'" "kernel_ok K' ext" "k_ports K' = k_ports ?K1"
    "k_waits K' = k_waits ?K1"
    "\<And>th t. p_receiver p = Some th \<Longrightarrow> k_threads ?K1 th = Some t \<Longrightarrow> k_threads K' = (k_threads ?K1)(th \<mapsto>
       t\<lparr>th_state := if th_state t = THREAD_BLOCKED then THREAD_READY else th_state t\<rparr>)"
    "p_receiver p = None \<Longrightarrow> K' = ?K1"
    by blast
  have "pending K' = pending ?K1" "receiver_of K' = receiver_of ?K1"
    by (simp_all add: pending_def receiver_of_def fun_eq_iff K'(3))
  then show ?thesis
    using K' p kernel_okD(7) [OF ok] by (simp add: enqueue_message_def)
qed

lemma thread_task_is_killing_total:
  "(\<And>c. current = Some c \<Longrightarrow> k_tasks K c \<noteq> None) \<Longrightarrow> \<exists>b. thread_task_is_killing current K = Some b"
  by (cases current) (auto simp: thread_task_is_killing_def)

lemma thread_handoff_ok:
  assumes ok: "kernel_ok K ext" and t: "k_threads K th = Some t"
    and cur: "\<And>c. current = Some c \<Longrightarrow> k_tasks K c \<noteq> None"
  shows "\<exists>h K' s. thread_handoff env current (Some th) K = Some (h, K') \<and> kernel_ok K' ext \<and>
    same_objects K K' \<and> k_ports K' = k_ports K \<and> k_waits K' = k_waits K \<and>
    k_threads K' = (k_threads K)(th \<mapsto> t\<lparr>th_state := s\<rparr>) \<and> s \<noteq> THREAD_BLOCKED \<and>
    (h = THREAD_HANDOFF_INVALID \<longleftrightarrow> th_state t \<noteq> THREAD_BLOCKED)"
proof (cases "th_state t = THREAD_BLOCKED")
  case False
  then show ?thesis
    using t ok by (intro exI [of _ THREAD_HANDOFF_INVALID] exI [of _ K] exI [of _ "th_state t"])
      (auto simp: thread_handoff_def)
next
  case True
  obtain killing where k: "thread_task_is_killing current K = Some killing"
    using thread_task_is_killing_total [OF cur] by blast
  define h where "h = (if ce_scheduler env then THREAD_HANDOFF_SCHEDULER
    else if th_cpu t \<noteq> ce_id env then THREAD_HANDOFF_CROSS_CPU
    else if ce_handoff_depth env \<noteq> 0 then THREAD_HANDOFF_NESTED
    else if killing then Handoff_Exit else THREAD_HANDOFF_DIRECT)"
  define s where "s = (if h = THREAD_HANDOFF_DIRECT then THREAD_RUNNING else THREAD_READY)"
  have "thread_handoff env current (Some th) K = Some (h, set_thread th (t\<lparr>th_state := s\<rparr>) K)"
    using t True k by (simp add: thread_handoff_def thread_unblock_def h_def s_def)
  moreover have "s \<noteq> THREAD_BLOCKED" "h \<noteq> THREAD_HANDOFF_INVALID"
    by (simp_all add: s_def h_def)
  ultimately show ?thesis
    using True kernel_ok_set_thread [OF ok] by auto
qed

text \<open>What a send is to do: hand the message over, or put it at the end of the queue.\<close>

definition sends :: "nat \<Rightarrow> ipc_message \<Rightarrow> kstate \<Rightarrow> send_outcome \<Rightarrow> kstate \<Rightarrow> bool" where
  "sends a m K r K' \<longleftrightarrow>
     (case direct_receiver K a of
        Some th \<Rightarrow> pending K' = pending K \<and> receiver_of K' = (receiver_of K)(a := None) \<and>
          k_waits K' = (k_waits K)(th \<mapsto> \<lparr>w_message = m,
            w_index = (case k_ports K a of Some p \<Rightarrow> p_receiver_index p | None \<Rightarrow> 0), w_delivered = True\<rparr>) \<and>
          (\<exists>t. k_threads K' th = Some t \<and> th_state t \<noteq> THREAD_BLOCKED)
      | None \<Rightarrow> k_waits K' = k_waits K \<and>
          (if r = Sent
           then pending K' = (pending K)(a := map_option (\<lambda>q. q @ [m]) (pending K a)) \<and>
             receiver_of K' = (receiver_of K)(a := None) \<and>
             (\<forall>th t. receiver_of K a = Some th \<longrightarrow> k_threads K' th = Some t \<longrightarrow> th_state t \<noteq> THREAD_BLOCKED)
           else r = Send_Failed \<and> pending K' = pending K \<and> receiver_of K' = receiver_of K \<and>
             k_threads K' = k_threads K \<and> (\<nexists>l. k_allocs K = True # l)))"

lemma message_sender [simp]: "message_refs (m\<lparr>m_sender := s\<rparr>) = message_refs m"
  by (simp add: message_refs_def)

lemma message_live_sender [simp]: "message_live K ext (m\<lparr>m_sender := s\<rparr>) = message_live K ext m"
  by (simp add: message_live_def)

lemma message_live_kept:
  assumes "message_live K ext m" and "kept K K'"
  shows "message_live K' ext m"
proof -
  have "held K' = held K" "k_kernel_task K' = k_kernel_task K" and sh: "shrinks K K'"
    using assms(2) shrinksD(11) [of K K'] by (auto simp: kept_def)
  then show ?thesis
    using assms(1) shrinks_task_dead [OF sh] unfolding message_live_def by fastforce
qed

lemma kept_alloc_answer:
  assumes "slab_answer K = (b, K')"
  shows "pending K' = pending K" "receiver_of K' = receiver_of K" "k_waits K' = k_waits K"
    "k_threads K' = k_threads K" "held K' = held K" "alive K' = alive K" "k_tasks K' = k_tasks K"
    "k_kernel_task K' = k_kernel_task K" "b \<longleftrightarrow> (\<exists>l. k_allocs K = True # l)"
proof -
  have K': "K' = K\<lparr>k_allocs := tl (k_allocs K)\<rparr>" and b: "b \<longleftrightarrow> k_allocs K \<noteq> [] \<and> hd (k_allocs K)"
    using assms by (auto simp: slab_answer_def)
  show "b \<longleftrightarrow> (\<exists>l. k_allocs K = True # l)"
    unfolding b by (cases "k_allocs K") auto
  show "pending K' = pending K" "receiver_of K' = receiver_of K" "k_waits K' = k_waits K"
    "k_threads K' = k_threads K" "held K' = held K" "k_tasks K' = k_tasks K" "k_kernel_task K' = k_kernel_task K"
    by (simp_all add: K' held_def)
  show "alive K' = alive K"
    unfolding K' by (rule ext, case_tac x; simp)
qed

lemma kept_port:
  assumes "kept K K'" and "k_ports K a = Some p"
  shows "\<exists>n. k_ports K' a = Some (p\<lparr>p_ref_count := n\<rparr>)"
  using kept_ports [OF assms(1), of a] assms(2) by auto

lemma kept_task: "kept K K' \<Longrightarrow> k_tasks K' c = None \<longleftrightarrow> k_tasks K c = None"
  by (metis alive.simps(3) kept_def)

lemma send_direct_ok:
  assumes ok: "kernel_ok K ext" and p: "k_ports K a = Some p" and live: "message_live K ext message"
    and cur: "task_id current K = Some sender" and th: "direct_receiver K a = Some th"
  shows "\<exists>r K'. ipc_send env current (Some a) message K = Some (r, K') \<and>
    kernel_ok K' (ext + message_refs message) \<and> sends a (message\<lparr>m_sender := sender\<rparr>) K r K'"
proof -
  let ?m = "message\<lparr>m_sender := sender\<rparr>"
  obtain K1 where K1: "ipc_message_retain ?m K = Some K1" "kernel_ok K1 (ext + message_refs message)" "kept K K1"
    using message_retain_ok [OF ok, of ?m] live by (auto simp: kept_def)
  note M1 = kept_mail [OF K1(3)]
  obtain n where p1: "k_ports K1 a = Some (p\<lparr>p_ref_count := n\<rparr>)" using kept_port [OF K1(3) p] by blast
  obtain K2 where K2: "deliver_direct (ce_id env) a ?m K1 = Some (Some th, K2)"
    "kernel_ok K2 (ext + message_refs message)" "same_objects K1 K2" "pending K2 = pending K1"
    "k_threads K2 = k_threads K1" "receiver_of K2 = (receiver_of K1)(a := None)"
    "k_waits K2 = (k_waits K1)(th \<mapsto> \<lparr>w_message = ?m, w_index = p_receiver_index p, w_delivered = True\<rparr>)"
    using deliver_direct_ok [OF K1(2) p1, of "ce_id env" ?m] th M1(5) by auto
  have "p_receiver p = Some th"
    using th p by (auto simp: direct_receiver_def receiver_of_def split: option.splits if_splits)
  then obtain t where t: "k_threads K2 th = Some t"
    using kernel_okD(9) [OF ok p] K2(5) M1(4) by (auto simp: port_ok_def)
  have cur2: "k_tasks K2 c \<noteq> None" if "current = Some c" for c
    using cur that K2(3) kept_task [OF K1(3)] by (auto simp: task_id_def same_objects_def)
  have sent: "sends a ?m K r K'"
    if "pending K' = pending K2" "receiver_of K' = receiver_of K2" "k_waits K' = k_waits K2"
      "k_threads K' th = Some t'" "th_state t' \<noteq> THREAD_BLOCKED" for r K' t'
    using that K2(4,6,7) M1 th p unfolding sends_def by simp
  show ?thesis
  proof (cases "m_reply_port message = None")
    case False
    obtain K3 where K3: "thread_unblock (Some th) K2 = Some K3" "kernel_ok K3 (ext + message_refs message)"
      "k_ports K3 = k_ports K2" "k_waits K3 = k_waits K2"
      "k_threads K3 = (k_threads K2)(th \<mapsto>
         t\<lparr>th_state := if th_state t = THREAD_BLOCKED then THREAD_READY else th_state t\<rparr>)"
      using thread_unblock_ok [OF K2(2), of "Some th"] t by auto
    have "sends a ?m K Sent K3"
      by (rule sent [where t' = "t\<lparr>th_state := if th_state t = THREAD_BLOCKED then THREAD_READY else th_state t\<rparr>"])
        (simp_all add: pending_def receiver_of_def fun_eq_iff K3)
    then show ?thesis
      using cur K1(1) K2(1) K3(1,2) False by (auto simp: ipc_send_def)
  next
    case True
    obtain h K3 s where K3: "thread_handoff env current (Some th) K2 = Some (h, K3)"
      "kernel_ok K3 (ext + message_refs message)" "k_ports K3 = k_ports K2" "k_waits K3 = k_waits K2"
      "k_threads K3 = (k_threads K2)(th \<mapsto> t\<lparr>th_state := s\<rparr>)" "s \<noteq> THREAD_BLOCKED"
      using thread_handoff_ok [OF K2(2) t cur2] by blast
    have same: "pending K3 = pending K2" "receiver_of K3 = receiver_of K2"
      by (simp_all add: pending_def receiver_of_def fun_eq_iff K3(3))
    have "sends a ?m K r K3" "sends a ?m K r (ipc_stats_inc (ce_id env) c K3)" for r c
      using same K3(4-6) by (auto intro!: sent)
    then show ?thesis
      using cur K1(1) K2(1) K3(1,2) True kernel_okD(7) [OF K3(2)] by (auto simp: ipc_send_def)
  qed
qed

lemma send_queued_ok:
  assumes ok: "kernel_ok K ext" and p: "k_ports K a = Some p" and live: "message_live K ext message"
    and cur: "task_id current K = Some sender" and th: "direct_receiver K a = None"
    and len: "length (p_queue p) < 2 ^ 32 - 1"
  shows "\<exists>r K'. ipc_send env current (Some a) message K = Some (r, K') \<and>
    kernel_ok K' ext \<and> sends a (message\<lparr>m_sender := sender\<rparr>) K r K'"
proof -
  let ?m = "message\<lparr>m_sender := sender\<rparr>"
  obtain K1 where K1: "ipc_message_retain ?m K = Some K1" "kernel_ok K1 (ext + message_refs ?m)" "kept K K1"
    using message_retain_ok [OF ok, of ?m] live by (auto simp: kept_def)
  obtain n1 where p1: "k_ports K1 a = Some (p\<lparr>p_ref_count := n1\<rparr>)" using kept_port [OF K1(3) p] by blast
  obtain K2 where K2: "deliver_direct (ce_id env) a ?m K1 = Some (None, K2)"
    "kernel_ok K2 (ext + message_refs ?m)" "kept K1 K2"
    using deliver_direct_ok [OF K1(2) p1, of "ce_id env" ?m] th kept_mail(5) [OF K1(3)] by auto
  have k2: "kept K K2" by (rule kept_trans [OF K1(3) K2(3)])
  have "x \<in># held K2 + ext" if "x \<in># message_refs ?m" for x
    using live that k2 by (auto simp: message_live_def kept_def)
  then obtain K3 where K3: "ipc_message_release ?m K2 = Some (clear_message ?m, K3)" "kernel_ok K3 ext" "kept K2 K3"
    using message_release_kept [OF K2(2)] by blast
  have k3: "kept K K3" by (rule kept_trans [OF k2 K3(3)])
  obtain b K4 where K4: "slab_answer K3 = (b, K4)" by fastforce
  note M3 = kept_mail [OF k3] and M4 = kept_alloc_answer [OF K4]
  have ok4: "kernel_ok K4 ext" using K3(2) slab_answer_ok(1) [OF K4] by simp
  show ?thesis
  proof (cases b)
    case False
    have "sends a ?m K Send_Failed K4"
      using False M3 M4 th by (simp add: sends_def)
    then show ?thesis
      using cur K1(1) K2(1) K3(1) K4 False ok4 by (auto simp: ipc_send_def)
  next
    case True
    have "message_live K4 ext ?m"
      using message_live_kept [OF live k3] M4(5,7,8) by (simp add: message_live_def)
    then obtain K5 where K5: "ipc_message_retain ?m K4 = Some K5" "kernel_ok K5 (ext + message_refs ?m)" "kept K4 K5"
      using message_retain_ok [OF ok4, of ?m] by (auto simp: kept_def)
    note M5 = kept_mail [OF K5(3)]
    have pend: "pending K5 a = Some (p_queue p)" "receiver_of K5 a = p_receiver p"
      unfolding M5 M4 M3 using p by (simp_all add: pending_def receiver_of_def)
    then obtain p5 where p5: "k_ports K5 a = Some p5" "p_queue p5 = p_queue p" "p_receiver p5 = p_receiver p"
      by (auto simp: pending_def receiver_of_def)
    obtain K6 where K6: "enqueue_message (ce_id env) a ?m K5 = Some K6" "kernel_ok K6 ext"
      "pending K6 = (pending K5)(a \<mapsto> p_queue p @ [?m])" "receiver_of K6 = (receiver_of K5)(a := None)"
      "k_waits K6 = k_waits K5"
      "\<And>th t. p_receiver p = Some th \<Longrightarrow> k_threads K5 th = Some t \<Longrightarrow> k_threads K6 = (k_threads K5)(th \<mapsto>
         t\<lparr>th_state := if th_state t = THREAD_BLOCKED then THREAD_READY else th_state t\<rparr>)"
      using enqueue_message_ok [OF K5(2) p5(1), of "ce_id env"] len p5 by auto
    have woken: "th_state t \<noteq> THREAD_BLOCKED" if "receiver_of K a = Some th" "k_threads K6 th = Some t" for th t
    proof -
      have r: "p_receiver p = Some th" using that(1) p by (simp add: receiver_of_def)
      then obtain t0 where "k_threads K5 th = Some t0"
        unfolding M5 M4 M3 using kernel_okD(9) [OF ok p] by (auto simp: port_ok_def)
      then show ?thesis using K6(6) [OF r] that(2) by (auto split: if_splits)
    qed
    have "sends a ?m K Sent K6"
      using th K6(3-5) M5 M4 M3 woken p by (auto simp: sends_def pending_def)
    then show ?thesis
      using cur K1(1) K2(1) K3(1) K4 True K5(1) K6(1,2) by (auto simp: ipc_send_def)
  qed
qed


section \<open>Receiving\<close>

lemma note_receiver_cpu_ok:
  assumes ok: "kernel_ok K ext" and p: "k_ports K a = Some p"
  shows "\<exists>K'. note_receiver_cpu cpu a K = Some K' \<and> kernel_ok K' ext \<and> same_objects K K' \<and>
    pending K' = pending K \<and> receiver_of K' = receiver_of K \<and> k_waits K' = k_waits K \<and>
    k_threads K' = k_threads K"
proof -
  let ?p = "p\<lparr>p_affinity_cpu := cpu, p_affinity_valid := True\<rparr>"
  have "kernel_ok (set_port a ?p K) ext"
  proof (rule kernel_ok_set_port [OF ok p, where p' = ?p])
    show "port_ok (set_port a ?p K) q" if "b \<noteq> a" "k_ports K b = Some q" for b q
      using kernel_okD(9) [OF ok that(2)] by (rule port_ok_weaken) simp_all
  qed (use kernel_okD(9) [OF ok p] in \<open>simp_all add: port_ok_def queue_refs_def\<close>)
  moreover have "pending K a = Some (p_queue p)" "receiver_of K a = p_receiver p"
    using p by (simp_all add: pending_def receiver_of_def)
  ultimately show ?thesis
    using p by (simp add: note_receiver_cpu_def fun_upd_idem)
qed

lemma of_nat_dec: "of_nat (Suc n) - 1 = (of_nat n :: u32)"
  by simp

lemma take_message_ok:
  assumes ok: "kernel_ok K ext" and p: "k_ports K a = Some p"
  shows "\<exists>K'. take_message a K = Some (case p_queue p of [] \<Rightarrow> None | m # _ \<Rightarrow> Some m, K') \<and>
    kernel_ok K' (ext + (case p_queue p of [] \<Rightarrow> {#} | m # _ \<Rightarrow> message_refs m)) \<and> same_objects K K' \<and>
    pending K' = (pending K)(a \<mapsto> tl (p_queue p)) \<and> receiver_of K' = receiver_of K \<and>
    k_waits K' = k_waits K \<and> k_threads K' = k_threads K"
proof (cases "p_queue p")
  case Nil
  moreover have "pending K a = Some []" using p Nil by (simp add: pending_def)
  ultimately show ?thesis
    using p ok by (simp add: take_message_def fun_upd_idem)
next
  case (Cons m rest)
  let ?p = "p\<lparr>p_queue := rest, p_queued := p_queued p - 1\<rparr>"
  note pok = kernel_okD(9) [OF ok p]
  have "kernel_ok (set_port a ?p K) (ext + message_refs m)"
  proof (rule kernel_ok_set_port [OF ok p, where p' = ?p])
    show "port_ok (set_port a ?p K) q" if "b \<noteq> a" "k_ports K b = Some q" for b q
      using kernel_okD(9) [OF ok that(2)] by (rule port_ok_weaken) simp_all
    show "port_ok (set_port a ?p K) ?p"
      using pok Cons of_nat_dec [of "length rest"] by (auto simp: port_ok_def)
    show "queue_refs ?p + (ext + message_refs m) = queue_refs p + ext"
      using Cons by (simp add: queue_refs_def ac_simps)
  qed simp_all
  moreover have "receiver_of K a = p_receiver p" using p by (simp add: receiver_of_def)
  ultimately show ?thesis
    using p Cons by (simp add: take_message_def fun_upd_idem)
qed

lemma thread_prepare_block_ok:
  assumes ok: "kernel_ok K ext" and t: "k_threads K th = Some t" and tk: "k_tasks K (th_task t) = Some tk"
  shows "thread_prepare_block th K =
      Some (t_killing tk, set_thread th (t\<lparr>th_state := if t_killing tk then THREAD_DEAD else THREAD_BLOCKED\<rparr>) K)"
    and "kernel_ok (set_thread th (t\<lparr>th_state := s\<rparr>) K) ext"
  using t tk kernel_ok_set_thread [OF ok] by (auto simp: thread_prepare_block_def)

lemma register_receiver_ok:
  assumes "kernel_ok K ext" and "k_threads K th \<noteq> None" and "k_waits K th \<noteq> None"
    and "\<And>a. a \<in> set ports \<Longrightarrow> pending K a = Some []"
  shows "\<exists>K'. register_receiver th i ports K = Some K' \<and> kernel_ok K' ext \<and> same_objects K K' \<and>
    pending K' = pending K \<and> receiver_of K' = (\<lambda>a. if a \<in> set ports then Some th else receiver_of K a) \<and>
    k_waits K' = k_waits K \<and> k_threads K' = k_threads K"
  using assms
proof (induction ports arbitrary: i K)
  case (Cons a ports)
  obtain p where p: "k_ports K a = Some p" "p_queue p = []"
    using Cons.prems(4) [of a] by (auto simp: pending_def)
  let ?p = "p\<lparr>p_receiver := Some th, p_receiver_wait := Some th, p_receiver_index := i\<rparr>"
  let ?K = "set_port a ?p K"
  have ok: "kernel_ok ?K ext"
  proof (rule kernel_ok_set_port [OF Cons.prems(1) p(1), where p' = ?p])
    show "port_ok ?K q" if "b \<noteq> a" "k_ports K b = Some q" for b q
      using kernel_okD(9) [OF Cons.prems(1) that(2)] by (rule port_ok_weaken) simp_all
    show "port_ok ?K ?p"
      using kernel_okD(9) [OF Cons.prems(1) p(1)] p(2) Cons.prems(2,3) by (auto simp: port_ok_def)
  qed (simp_all add: queue_refs_def)
  have pend: "pending ?K = pending K"
    using p by (simp add: fun_upd_idem pending_def)
  obtain K' where "register_receiver th (i + 1) ports ?K = Some K'" "kernel_ok K' ext" "same_objects ?K K'"
    "pending K' = pending ?K" "receiver_of K' = (\<lambda>b. if b \<in> set ports then Some th else receiver_of ?K b)"
    "k_waits K' = k_waits ?K" "k_threads K' = k_threads ?K"
    using Cons.IH [OF ok, of "i + 1"] Cons.prems(2-4) unfolding pend by auto
  then show ?case
    using p(1) pend same_objects_trans [of K ?K K'] by (auto simp: fun_eq_iff)
qed (auto simp: fun_eq_iff)


text \<open>What one receive from a list of ports gives: the head of the first queue that has one.\<close>

fun first_pending :: "kstate \<Rightarrow> u64 \<Rightarrow> nat list \<Rightarrow> (nat \<times> u64 \<times> ipc_message) option" where
  "first_pending K i [] = None"
| "first_pending K i (a # ports) =
     (case pending K a of Some (m # _) \<Rightarrow> Some (a, i, m) | _ \<Rightarrow> first_pending K (i + 1) ports)"

definition dequeued :: "(nat \<times> u64 \<times> ipc_message) option \<Rightarrow> kstate \<Rightarrow> nat \<Rightarrow> ipc_message list option" where
  "dequeued r K = (case r of None \<Rightarrow> pending K
     | Some (a, _, _) \<Rightarrow> (pending K)(a := map_option tl (pending K a)))"

definition taken_refs :: "(nat \<times> u64 \<times> ipc_message) option \<Rightarrow> kobj multiset" where
  "taken_refs r = (case r of None \<Rightarrow> {#} | Some (_, _, m) \<Rightarrow> message_refs m)"

lemma first_pending_cong: "pending K' = pending K \<Longrightarrow> first_pending K' i ports = first_pending K i ports"
  by (induction ports arbitrary: i) (auto split: option.splits list.splits)

lemma first_pending_None: "first_pending K i ports = None \<Longrightarrow> a \<in> set ports \<Longrightarrow> k_ports K a \<noteq> None \<Longrightarrow>
    pending K a = Some []"
  by (induction ports arbitrary: i) (auto simp: pending_def split: option.splits list.splits)

lemma take_first_ok:
  assumes "kernel_ok K ext" and "\<And>a. a \<in> set ports \<Longrightarrow> k_ports K a \<noteq> None"
  shows "\<exists>K'. take_first i ports K = Some (map_option (\<lambda>(_, j, m). (m, j)) (first_pending K i ports), K') \<and>
    kernel_ok K' (ext + taken_refs (first_pending K i ports)) \<and> same_objects K K' \<and>
    pending K' = dequeued (first_pending K i ports) K \<and> receiver_of K' = receiver_of K \<and>
    k_waits K' = k_waits K \<and> k_threads K' = k_threads K"
  using assms
proof (induction ports arbitrary: i K)
  case (Cons a ports)
  obtain p where p: "k_ports K a = Some p" using Cons.prems(2) [of a] by auto
  obtain K1 where K1: "take_message a K = Some (case p_queue p of [] \<Rightarrow> None | m # _ \<Rightarrow> Some m, K1)"
    "kernel_ok K1 (ext + (case p_queue p of [] \<Rightarrow> {#} | m # _ \<Rightarrow> message_refs m))" "same_objects K K1"
    "pending K1 = (pending K)(a \<mapsto> tl (p_queue p))" "receiver_of K1 = receiver_of K"
    "k_waits K1 = k_waits K" "k_threads K1 = k_threads K"
    using take_message_ok [OF Cons.prems(1) p] by blast
  show ?case
  proof (cases "p_queue p")
    case Nil
    then have pend: "pending K1 = pending K" and ok1: "kernel_ok K1 ext" and none: "pending K a = Some []"
      using K1(2,4) p by (simp_all add: pending_def fun_upd_idem)
    have "k_ports K1 b \<noteq> None" if "b \<in> set ports" for b
      using Cons.prems(2) [of b] that fun_cong [OF pend, of b] by (auto simp: pending_def)
    then obtain K2 where
      "take_first (i + 1) ports K1 = Some (map_option (\<lambda>(_, j, m). (m, j)) (first_pending K (i + 1) ports), K2)"
      "kernel_ok K2 (ext + taken_refs (first_pending K (i + 1) ports))" "same_objects K1 K2"
      "pending K2 = dequeued (first_pending K (i + 1) ports) K" "receiver_of K2 = receiver_of K1"
      "k_waits K2 = k_waits K1" "k_threads K2 = k_threads K1"
      using Cons.IH [OF ok1, of "i + 1"] unfolding dequeued_def pend first_pending_cong [OF pend] by blast
    then show ?thesis
      using K1 Nil none same_objects_trans [OF K1(3)] by auto
  next
    case (Cons m rest)
    then show ?thesis
      using K1 p by (auto simp: pending_def taken_refs_def dequeued_def fun_eq_iff)
  qed
qed (simp add: taken_refs_def dequeued_def)

lemma note_receiver_cpus_ok:
  assumes "kernel_ok K ext" and "\<And>a. a \<in> set ports \<Longrightarrow> k_ports K a \<noteq> None"
  shows "\<exists>K'. note_receiver_cpus cpu ports K = Some K' \<and> kernel_ok K' ext \<and> same_objects K K' \<and>
    pending K' = pending K \<and> receiver_of K' = receiver_of K \<and> k_waits K' = k_waits K \<and>
    k_threads K' = k_threads K"
  using assms
proof (induction ports arbitrary: K)
  case (Cons a ports)
  obtain p where p: "k_ports K a = Some p" using Cons.prems(2) [of a] by auto
  obtain K1 where K1: "note_receiver_cpu cpu a K = Some K1" "kernel_ok K1 ext" "same_objects K K1"
    "pending K1 = pending K" "receiver_of K1 = receiver_of K" "k_waits K1 = k_waits K" "k_threads K1 = k_threads K"
    using note_receiver_cpu_ok [OF Cons.prems(1) p] by blast
  have "k_ports K1 b \<noteq> None" if "b \<in> set ports" for b
    using Cons.prems(2) [of b] that fun_cong [OF K1(4), of b] by (auto simp: pending_def)
  then show ?case
    using Cons.IH [OF K1(2)] K1 same_objects_trans [OF K1(3)] by fastforce
qed auto


text \<open>One round of a receive, for one port or for several.\<close>

definition receive_round :: "nat \<Rightarrow> nat list \<Rightarrow> kstate \<Rightarrow> (recv_outcome \<times> kstate) option" where
  "receive_round th ports K = do {
     (taken, K1) \<leftarrow> take_first 0 ports K;
     (case taken of
        Some (m, i) \<Rightarrow> Some (Received m i, close_wait th K1)
      | None \<Rightarrow> do {
          (exits, K2) \<leftarrow> thread_prepare_block th K1;
          if exits then Some (Exited, K2\<lparr>k_ipc_locked := True\<rparr>)
          else do { K3 \<leftarrow> register_receiver th 0 ports K2; Some (Waiting, K3) }
        })
   }"

lemma any_round_eq: "any_round cpu th ports K = Option.bind (note_receiver_cpus cpu ports K) (receive_round th ports)"
  unfolding any_round_def receive_round_def by simp

lemma recv_round_eq:
  assumes ok: "kernel_ok K ext" and p: "k_ports K a = Some p"
    and w: "k_waits K th = Some w" "\<not> w_delivered w"
  shows "recv_round th a K = receive_round th [a] K"
proof -
  obtain K1 where K1: "take_message a K = Some (case p_queue p of [] \<Rightarrow> None | m # _ \<Rightarrow> Some m, K1)" "k_waits K1 = k_waits K"
    using take_message_ok [OF ok p] by blast
  have "K1\<lparr>k_waits := (k_waits K1)(th \<mapsto> w\<lparr>w_delivered := False\<rparr>)\<rparr> = K1"
    using w K1(2) by (cases w) (simp add: fun_upd_idem)
  then show ?thesis
    using K1 w by (cases "p_queue p") (simp_all add: recv_round_def receive_round_def)
qed

text \<open>What a receive is to do: take the first pending message, or wait for one.\<close>

definition receives :: "nat \<Rightarrow> nat list \<Rightarrow> kstate \<Rightarrow> recv_outcome \<Rightarrow> kstate \<Rightarrow> bool" where
  "receives th ports K r K' \<longleftrightarrow> same_objects K K' \<and> k_threads K' = (k_threads K)(th := k_threads K' th) \<and>
     k_waits K' = (k_waits K)(th := k_waits K' th) \<and>
     (case first_pending K 0 ports of
        Some (a, i, m) \<Rightarrow> r = Received m i \<and> pending K' = dequeued (Some (a, i, m)) K \<and>
          receiver_of K' = receiver_of K \<and> k_waits K' th = None
      | None \<Rightarrow> r = Waiting \<and> pending K' = pending K \<and>
          receiver_of K' = (\<lambda>a. if a \<in> set ports then Some th else receiver_of K a) \<and>
          (\<exists>w. k_waits K' th = Some w \<and> \<not> w_delivered w) \<and>
          (\<exists>t. k_threads K' th = Some t \<and> th_state t = THREAD_BLOCKED))"

lemma unregistered_eq: "unregistered th K \<longleftrightarrow> (\<forall>a. receiver_of K a \<noteq> Some th)"
  by (auto simp: unregistered_def receiver_of_def split: bind_splits)

lemma receive_round_ok:
  assumes ok: "kernel_ok K ext" and ports: "\<And>a. a \<in> set ports \<Longrightarrow> k_ports K a \<noteq> None"
    and w: "k_waits K th = Some w" "\<not> w_delivered w" and un: "unregistered th K"
    and t: "k_threads K th = Some t" and tk: "k_tasks K (th_task t) = Some tk" "\<not> t_killing tk"
  shows "\<exists>r K'. receive_round th ports K = Some (r, K') \<and>
    kernel_ok K' (ext + taken_refs (first_pending K 0 ports)) \<and> receives th ports K r K'"
proof -
  let ?f = "first_pending K 0 ports"
  obtain K1 where K1: "take_first 0 ports K = Some (map_option (\<lambda>(_, j, m). (m, j)) ?f, K1)"
    "kernel_ok K1 (ext + taken_refs ?f)" "same_objects K K1"
    "pending K1 = dequeued ?f K" "receiver_of K1 = receiver_of K" "k_waits K1 = k_waits K" "k_threads K1 = k_threads K"
    using take_first_ok [OF ok ports] by blast
  show ?thesis
  proof (cases ?f)
    case (Some x)
    then obtain a i m where x: "?f = Some (a, i, m)" by (cases x) auto
    have "unregistered th K1"
      using un K1(5) by (simp add: unregistered_eq)
    then have "kernel_ok (close_wait th K1) (ext + taken_refs ?f)"
      using K1(2) kernel_ok_close_wait by blast
    moreover have "same_objects K (close_wait th K1)"
      using K1(3) by (rule same_objects_trans) simp
    ultimately show ?thesis
      using K1 x by (simp add: receive_round_def receives_def)
  next
    case None
    have ok1: "kernel_ok K1 ext" using K1(2) None by (simp add: taken_refs_def)
    let ?K2 = "set_thread th (t\<lparr>th_state := THREAD_BLOCKED\<rparr>) K1"
    have blk: "thread_prepare_block th K1 = Some (False, ?K2)" "kernel_ok ?K2 ext"
      using thread_prepare_block_ok [OF ok1, of th t tk] t tk K1(3,7) by (auto simp: same_objects_def)
    have pend: "pending K1 = pending K" using K1(4) None by (simp add: dequeued_def)
    have "pending ?K2 a = Some []" if "a \<in> set ports" for a
      using first_pending_None [OF None that ports [OF that]] pend by simp
    then obtain K3 where K3: "register_receiver th 0 ports ?K2 = Some K3" "kernel_ok K3 ext" "pending K3 = pending ?K2"
      "same_objects ?K2 K3"
      "receiver_of K3 = (\<lambda>a. if a \<in> set ports then Some th else receiver_of ?K2 a)"
      "k_waits K3 = k_waits ?K2" "k_threads K3 = k_threads ?K2"
      using register_receiver_ok [OF blk(2), of th ports 0] w(1) K1(6) by auto
    moreover have "same_objects K K3"
      using K1(3) same_objects_trans [OF _ K3(4)] same_objects_trans [of K K1 ?K2] by simp
    ultimately show ?thesis
      using K1 None blk pend w by (simp add: receive_round_def receives_def taken_refs_def fun_upd_idem cong: if_cong)
  qed
qed

lemma receives_cong:
  assumes "receives th ports K1 r K'" and "pending K1 = pending K" and "receiver_of K1 = receiver_of K"
    and "same_objects K K1" and "k_threads K1 = k_threads K" and "k_waits K1 = (k_waits K)(th := k_waits K1 th)"
  shows "receives th ports K r K'"
proof -
  have "same_objects K K'"
    using assms(1,4) same_objects_trans by (auto simp: receives_def)
  moreover have "k_waits K' = (k_waits K)(th := k_waits K' th)"
    using assms(1,6) unfolding receives_def by (metis fun_upd_upd)
  ultimately show ?thesis
    using assms first_pending_cong [OF assms(2), of 0 ports]
    by (cases "first_pending K 0 ports") (auto simp: receives_def dequeued_def)
qed

lemma ipc_recv_any_ok:
  assumes ok: "kernel_ok K ext" and ports: "\<And>a. a \<in> set ports \<Longrightarrow> k_ports K a \<noteq> None"
    and n: "ports \<noteq> []" "length ports \<le> 4" "distinct ports" and un: "unregistered th K"
    and t: "k_threads K th = Some t" and tk: "k_tasks K (th_task t) = Some tk" "\<not> t_killing tk"
  shows "\<exists>r K'. ipc_recv_any cpu th (map Some ports) K = Some (r, K') \<and>
    kernel_ok K' (ext + taken_refs (first_pending K 0 ports)) \<and> receives th ports K r K'"
proof -
  let ?K0 = "open_wait th K"
  have ok0: "kernel_ok ?K0 ext" by (rule kernel_ok_open_wait [OF ok])
  obtain K1 where K1: "note_receiver_cpus cpu ports ?K0 = Some K1" "kernel_ok K1 ext" "same_objects ?K0 K1"
    "pending K1 = pending K" "receiver_of K1 = receiver_of K" "k_waits K1 = k_waits ?K0" "k_threads K1 = k_threads K"
    using note_receiver_cpus_ok [OF ok0, of ports cpu] ports by auto
  have "k_ports K1 a \<noteq> None" if "a \<in> set ports" for a
    using ports [OF that] fun_cong [OF K1(4), of a] by (auto simp: pending_def)
  moreover have "unregistered th K1" using un K1(5) by (simp add: unregistered_eq)
  moreover have "k_tasks K1 (th_task t) = Some tk" using K1(3) tk by (simp add: same_objects_def)
  ultimately obtain r K' where K': "receive_round th ports K1 = Some (r, K')"
    "kernel_ok K' (ext + taken_refs (first_pending K1 0 ports))" "receives th ports K1 r K'"
    using receive_round_ok [OF K1(2), of ports th _ t tk] K1(6,7) t tk(2) by auto
  have same: "same_objects K K1" using K1(3) same_objects_trans [of K ?K0 K1] by simp
  have rec: "receives th ports K r K'"
    by (rule receives_cong [OF K'(3) K1(4,5) same K1(7)]) (simp add: K1(6))
  have "map the (map Some ports) = ports" by (induction ports) auto
  then show ?thesis
    using n K1(1) K' kernel_okD(7) [OF ok] rec first_pending_cong [OF K1(4), of 0 ports]
    by (auto simp: ipc_recv_any_def any_round_eq distinct_map)
qed

lemma ipc_recv_ok:
  assumes ok: "kernel_ok K ext" and p: "k_ports K a = Some p" and un: "unregistered th K"
    and t: "k_threads K th = Some t" and tk: "k_tasks K (th_task t) = Some tk" "\<not> t_killing tk"
  shows "\<exists>r K'. ipc_recv cpu th (Some a) K = Some (r, K') \<and>
    kernel_ok K' (ext + taken_refs (first_pending K 0 [a])) \<and> receives th [a] K r K'"
proof -
  let ?K0 = "open_wait th K"
  have ok0: "kernel_ok ?K0 ext" by (rule kernel_ok_open_wait [OF ok])
  obtain K1 where K1: "note_receiver_cpu cpu a ?K0 = Some K1" "kernel_ok K1 ext" "same_objects ?K0 K1"
    "pending K1 = pending K" "receiver_of K1 = receiver_of K" "k_waits K1 = k_waits ?K0" "k_threads K1 = k_threads K"
    using note_receiver_cpu_ok [OF ok0, of a p cpu] p by auto
  obtain p1 where p1: "k_ports K1 a = Some p1"
    using p fun_cong [OF K1(4), of a] by (auto simp: pending_def)
  have "unregistered th K1" using un K1(5) by (simp add: unregistered_eq)
  moreover have "k_tasks K1 (th_task t) = Some tk" using K1(3) tk by (simp add: same_objects_def)
  ultimately obtain r K' where K': "receive_round th [a] K1 = Some (r, K')"
    "kernel_ok K' (ext + taken_refs (first_pending K1 0 [a]))" "receives th [a] K1 r K'"
    using receive_round_ok [OF K1(2), of "[a]" th _ t tk] K1(6,7) t tk(2) p1 by auto
  have same: "same_objects K K1" using K1(3) same_objects_trans [of K ?K0 K1] by simp
  have rec: "receives th [a] K r K'"
    by (rule receives_cong [OF K'(3) K1(4,5) same K1(7)]) (simp add: K1(6))
  have "recv_round th a K1 = receive_round th [a] K1"
    using recv_round_eq [OF K1(2) p1] K1(6) by simp
  then show ?thesis
    using K1(1) K' kernel_okD(7) [OF ok] rec first_pending_cong [OF K1(4), of 0 "[a]"]
    by (auto simp: ipc_recv_def)
qed


text \<open>A woken receiver takes the message that was delivered to it.\<close>

lemma resume_delivered:
  assumes ok: "kernel_ok K ext" and w: "k_waits K th = Some w" "w_delivered w" and un: "unregistered th K"
  shows "ipc_recv_resume th a K = Some (Received (w_message w) 0, close_wait th K)"
    and "kernel_ok (close_wait th K) ext"
  using w kernel_okD(7) [OF ok] kernel_ok_close_wait [OF ok un] by (simp_all add: ipc_recv_resume_def)

lemma map_sum_map: "map_sum f (\<lambda>a. map_option g (m a)) = map_sum (\<lambda>x. f (g x)) m"
  by (simp add: map_sum_def dom_def) (rule sum.cong; auto)

lemma held_pending:
  assumes "k_tasks K' = k_tasks K" and "pending K' = pending K"
  shows "held K' = held K"
proof -
  have "queue_refs = (\<lambda>p. sum_list (map message_refs (p_queue p)))"
    by (simp add: queue_refs_def fun_eq_iff)
  then have "map_sum queue_refs (k_ports L) = map_sum (\<lambda>q. sum_list (map message_refs q)) (pending L)" for L
    using map_sum_map [of "\<lambda>q. sum_list (map message_refs q)" p_queue "k_ports L"]
    by (simp add: pending_fun comp_def)
  then show ?thesis
    using assms by (simp add: held_def)
qed

lemma message_live_same:
  assumes "message_live K ext m" and "same_objects K K'" and "pending K' = pending K"
  shows "message_live K' ext m"
  using assms held_pending [of K' K] by (simp add: message_live_def same_objects_def)

end
