(* ===== verification/Kernel_Calls.thy ===== *)
theory Kernel_Calls
  imports Ipc_Ops
begin

text \<open>
  The operations on kernel objects as the calls of one transition system. A state is the kernel
  with the multiset of references that running code holds: what a creation, a lookup or a
  receive has returned and what has not yet been released or handed on.
\<close>

section \<open>The kernel at start\<close>

text \<open>
  \<^verbatim>\<open>sched_init\<close> and the initial values of the counters: the kernel's own task, at
  address 0, and nothing else.
\<close>

definition kernel_task :: task where
  "kernel_task = \<lparr>t_pid = 0, t_name = ''kernel'', t_ref_count = 1, t_dead = False, t_killing = False,
     t_thread_count = 1, t_vm_space = Some 0, t_owns_vm_space = False, t_ipc_affinity_cpu = 0,
     t_ipc_affinity_valid = False, t_vm = \<lparr>vm_regions = [], vm_region_capacity = 0, vm_allocs = []\<rparr>,
     t_reply_port = None, t_handles = []\<rparr>"

definition initial_kernel :: "bool list \<Rightarrow> kstate" where
  "initial_kernel allocs = \<lparr>k_ports = \<lambda>_. None, k_buffers = \<lambda>_. None, k_tasks = [0 \<mapsto> kernel_task],
     k_hws = \<lambda>_. None, k_policies = \<lambda>_. None, k_threads = \<lambda>_. None, k_waits = \<lambda>_. None,
     k_ports_by_name = \<lambda>_. None, k_ports_by_id = \<lambda>_. None, k_tasks_by_pid = \<lambda>_. None,
     k_kernel_task = 0, k_next_port_id = 1, k_next_buffer_id = 1, k_next_pid = 1, k_next_addr = 1,
     k_ipc_locked = False, k_stats = \<lambda>_. 0, k_cpu_stats = \<lambda>_ _. 0, k_allocs = allocs,
     k_deaths = [], k_unmapped = [], k_destroyed_spaces = []\<rparr>"

lemma initial_kernel_ok: "kernel_ok (initial_kernel allocs) {#}"
proof -
  let ?K = "initial_kernel allocs"
  have "held ?K = {#}"
    using map_sum_insert [where f = task_refs and m = "\<lambda>_. None" and a = 0 and y = kernel_task]
    by (simp add: held_def initial_kernel_def map_sum_def kernel_task_def task_refs_def handles_refs_def port_ref_def)
  moreover have "refcount ?K x = None" for x
    by (cases x) (simp_all add: initial_kernel_def)
  ultimately have "refs_ok ?K {#}" by (simp add: refs_ok_def)
  moreover have "stores_ok ?K" "index_ok ?K"
    by (auto simp: stores_ok_def index_ok_def initial_kernel_def task_ok_def kernel_task_def table_ok_def)
  ultimately show ?thesis by (simp add: kernel_ok_def)
qed


section \<open>Calls\<close>

datatype kcall =
    Create_Task string "nat option" bool
  | Create_Port string bool
  | Create_Buffer u64
  | Find_Task u32
  | Grant task_handle_type nat nat u32
  | Lookup task_handle_type nat u64 u32
  | Export nat u64 u32
  | Inherit nat nat u64 u32
  | Close nat u64
  | Release kobj
  | Discard nat
  | Thread_Gone nat
  | Send cpu_env "nat option" nat ipc_message
  | Receive u32 nat nat
  | Receive_Any u32 nat "nat list"
  | Try_Receive u32 nat

definition object_ref :: "(nat \<Rightarrow> kobj) \<Rightarrow> nat option \<Rightarrow> kobj multiset" where
  "object_ref f r = (case r of None \<Rightarrow> {#} | Some a \<Rightarrow> {#f a#})"

definition release_object :: "kobj \<Rightarrow> kstate \<Rightarrow> kstate option" where
  "release_object x =
     (case x of
        KPort a \<Rightarrow> ipc_port_release (Some a)
      | KBuffer a \<Rightarrow> buffer_release (Some a)
      | KTask a \<Rightarrow> task_release (Some a)
      | KHw a \<Rightarrow> task_hw_resource_release (Some a)
      | KPolicy a \<Rightarrow> sched_policy_cap_release (Some a))"

definition look_up ::
  "task_handle_type \<Rightarrow> nat \<Rightarrow> u64 \<Rightarrow> u32 \<Rightarrow> kstate \<Rightarrow> (nat option \<times> kstate) option" where
  "look_up ty a handle rights =
     (case ty of
        TASK_HANDLE_PORT \<Rightarrow> task_port_from_handle (Some a) handle rights
      | TASK_HANDLE_BUFFER \<Rightarrow> task_buffer_from_handle (Some a) handle rights
      | TASK_HANDLE_TASK \<Rightarrow> task_from_handle (Some a) handle rights
      | TASK_HANDLE_HW_RESOURCE \<Rightarrow> task_hw_resource_from_handle (Some a) handle rights
      | TASK_HANDLE_SCHED_POLICY \<Rightarrow> task_sched_policy_from_handle (Some a) handle rights
      | TASK_HANDLE_EMPTY \<Rightarrow> (\<lambda>K. Some (None, K)))"

definition received_refs :: "recv_outcome \<Rightarrow> kobj multiset" where
  "received_refs r = (case r of Received m _ \<Rightarrow> message_refs m | _ \<Rightarrow> {#})"

definition delivered_refs :: "kstate \<Rightarrow> nat \<Rightarrow> ipc_message \<Rightarrow> kobj multiset" where
  "delivered_refs K a m = (if direct_receiver K a \<noteq> None then message_refs m else {#})"

fun run_call :: "kcall \<Rightarrow> kstate \<times> kobj multiset \<Rightarrow> (kstate \<times> kobj multiset) option" where
  "run_call (Create_Task name space owns) (K, ext) =
     (case task_create_with_vm_ownership name space owns K of (r, K') \<Rightarrow> Some (K', ext + object_ref KTask r))"
| "run_call (Create_Port name reuse) (K, ext) =
     map_option (\<lambda>(_, K'). (K', ext)) (ipc_port_alloc name reuse K)"
| "run_call (Create_Buffer n) (K, ext) =
     (case buffer_create n K of (r, K') \<Rightarrow> Some (K', ext + object_ref KBuffer r))"
| "run_call (Find_Task pid) (K, ext) =
     map_option (\<lambda>(r, K'). (K', ext + object_ref KTask r)) (task_find_by_id_retain pid K)"
| "run_call (Grant ty a b rights) (K, ext) =
     map_option (\<lambda>(_, K'). (K', ext)) (grant_of_type ty (Some a) (Some b) rights K)"
| "run_call (Lookup ty a handle rights) (K, ext) =
     map_option (\<lambda>(r, K'). (K', ext + handle_obj ty r)) (look_up ty a handle rights K)"
| "run_call (Export a handle rights) (K, ext) =
     map_option (\<lambda>(r, K'). (K', ext + (case r of Some (ty, object) \<Rightarrow> cap_obj ty object | None \<Rightarrow> {#})))
       (task_export_cap (Some a) handle rights K)"
| "run_call (Inherit d a handle rights) (K, ext) =
     map_option (\<lambda>(_, K'). (K', ext)) (task_grant_inherited_handle (Some d) (Some a) handle rights K)"
| "run_call (Close a handle) (K, ext) =
     map_option (\<lambda>(_, K'). (K', ext)) (task_close_handle (Some a) handle K)"
| "run_call (Release x) (K, ext) = map_option (\<lambda>K'. (K', ext - {#x#})) (release_object x K)"
| "run_call (Discard a) (K, ext) =
     map_option (\<lambda>(s, K'). (K', if s = OK then ext - {#KTask a#} else ext)) (task_discard_unstarted (Some a) K)"
| "run_call (Thread_Gone a) (K, ext) =
     map_option (\<lambda>K'. (K', if (\<exists>t. k_tasks K a = Some t \<and> t_thread_count t \<le> 1) \<and> a \<noteq> k_kernel_task K
       then ext - {#KTask a#} else ext)) (task_thread_gone a K)"
| "run_call (Send env current a m) (K, ext) =
     map_option (\<lambda>(_, K'). (K', ext + delivered_refs K a m)) (ipc_send env current (Some a) m K)"
| "run_call (Receive cpu th a) (K, ext) =
     map_option (\<lambda>(r, K'). (K', ext + received_refs r)) (ipc_recv cpu th (Some a) K)"
| "run_call (Receive_Any cpu th ports) (K, ext) =
     map_option (\<lambda>(r, K'). (K', ext + received_refs r)) (ipc_recv_any cpu th (map Some ports) K)"
| "run_call (Try_Receive cpu a) (K, ext) =
     map_option (\<lambda>(r, K'). (K', ext + received_refs r)) (ipc_try_recv cpu (Some a) K)"

text \<open>
  What the callers see to: they name objects they know to exist, release what they hold, do not
  send a task that has ended, and receive in a thread that does not already wait and whose task
  is not being killed. Counts and tables are within the memory of the machine.
\<close>

definition within_memory :: "kstate \<Rightarrow> kobj multiset \<Rightarrow> bool" where
  "within_memory K ext \<longleftrightarrow> (\<forall>x. count (held K + ext) x < 2 ^ 32 - 3) \<and>
     (\<forall>a t. k_tasks K a = Some t \<longrightarrow> length (t_handles t) < 2 ^ 30) \<and>
     (\<forall>a p. k_ports K a = Some p \<longrightarrow> length (p_queue p) < 2 ^ 32 - 1)"

definition can_receive :: "nat \<Rightarrow> kstate \<Rightarrow> bool" where
  "can_receive th K \<longleftrightarrow> unregistered th K \<and>
     (\<exists>t tk. k_threads K th = Some t \<and> k_tasks K (th_task t) = Some tk \<and> \<not> t_killing tk)"

fun call_ok :: "kcall \<Rightarrow> kstate \<times> kobj multiset \<Rightarrow> bool" where
  "call_ok (Grant ty a b rights) (K, ext) \<longleftrightarrow> ty \<noteq> TASK_HANDLE_EMPTY \<and> rights \<noteq> 0 \<and> k_tasks K a \<noteq> None \<and>
     (\<forall>x \<in># handle_obj ty (Some b). alive K x) \<and>
     (ty = TASK_HANDLE_TASK \<longrightarrow> (\<forall>t. k_tasks K b = Some t \<longrightarrow> \<not> t_dead t))"
| "call_ok (Lookup ty a handle rights) (K, ext) \<longleftrightarrow> ty \<noteq> TASK_HANDLE_EMPTY \<and> k_tasks K a \<noteq> None"
| "call_ok (Export a handle rights) (K, ext) \<longleftrightarrow> k_tasks K a \<noteq> None"
| "call_ok (Inherit d a handle rights) (K, ext) \<longleftrightarrow> k_tasks K a \<noteq> None \<and> k_tasks K d \<noteq> None"
| "call_ok (Close a handle) (K, ext) \<longleftrightarrow> k_tasks K a \<noteq> None"
| "call_ok (Release x) (K, ext) \<longleftrightarrow> x \<in># ext"
| "call_ok (Discard a) (K, ext) \<longleftrightarrow> KTask a \<in># ext"
| "call_ok (Thread_Gone a) (K, ext) \<longleftrightarrow> KTask a \<in># ext"
| "call_ok (Send env current a m) (K, ext) \<longleftrightarrow> k_ports K a \<noteq> None \<and> message_live K ext m \<and>
     (\<forall>c. current = Some c \<longrightarrow> k_tasks K c \<noteq> None)"
| "call_ok (Receive cpu th a) (K, ext) \<longleftrightarrow> k_ports K a \<noteq> None \<and> can_receive th K"
| "call_ok (Receive_Any cpu th ports) (K, ext) \<longleftrightarrow> ports \<noteq> [] \<and> length ports \<le> 4 \<and> distinct ports \<and>
     (\<forall>a \<in> set ports. k_ports K a \<noteq> None) \<and> can_receive th K"
| "call_ok (Try_Receive cpu a) (K, ext) \<longleftrightarrow> k_ports K a \<noteq> None"
| "call_ok _ _ \<longleftrightarrow> True"

inductive kernel_step :: "kstate \<times> kobj multiset \<Rightarrow> kstate \<times> kobj multiset \<Rightarrow> bool" where
  "within_memory K ext \<Longrightarrow> call_ok c (K, ext) \<Longrightarrow> run_call c (K, ext) = Some S \<Longrightarrow> kernel_step (K, ext) S"

inductive_cases kernel_stepE: "kernel_step (K, ext) S"

inductive kernel_reachable :: "kstate \<times> kobj multiset \<Rightarrow> bool" where
  start: "kernel_reachable (initial_kernel allocs, {#})"
| step: "kernel_reachable S \<Longrightarrow> kernel_step S S' \<Longrightarrow> kernel_reachable S'"



section \<open>Every call returns and keeps the invariant\<close>

definition call_works :: "kcall \<Rightarrow> kstate \<Rightarrow> kobj multiset \<Rightarrow> bool" where
  "call_works c K ext \<longleftrightarrow> (\<exists>K' ext'. run_call c (K, ext) = Some (K', ext') \<and> kernel_ok K' ext')"

lemma within_room:
  assumes "kernel_ok K ext" and "within_memory K ext"
  shows "room K x"
proof (rule room_count [OF assms(1)])
  have "count (held K + ext) x < 2 ^ 32 - 3" using assms(2) by (simp add: within_memory_def)
  then show "count (held K + ext) x < 2 ^ 32 - 1" by simp
qed

lemma ext_split: "x \<in># ext \<Longrightarrow> ext = (ext - {#x#}) + {#x#}" for ext :: "kobj multiset"
  by simp

lemma create_calls_work:
  assumes ok: "kernel_ok K ext" and mem: "within_memory K ext"
  shows "call_works (Create_Task name space owns) K ext" and "call_works (Create_Port name reuse) K ext"
    and "call_works (Create_Buffer n) K ext" and "call_works (Find_Task pid) K ext"
proof -
  obtain r K' where "task_create_with_vm_ownership name space owns K = (r, K')" by fastforce
  with task_create_ok [OF ok this] show "call_works (Create_Task name space owns) K ext"
    by (simp add: call_works_def object_ref_def)
  show "call_works (Create_Port name reuse) K ext"
    using ipc_port_alloc_ok [OF ok, of name reuse] by (auto simp: call_works_def)
  obtain r K' where "buffer_create n K = (r, K')" by fastforce
  with buffer_create_ok(1) [OF ok this] show "call_works (Create_Buffer n) K ext"
    by (simp add: call_works_def object_ref_def)
  show "call_works (Find_Task pid) K ext"
    using task_find_by_id_retain_ok [OF ok within_room [OF ok mem], of pid]
    by (auto simp: call_works_def object_ref_def)
qed

lemma look_up_ok:
  assumes ok: "kernel_ok K ext" and t: "k_tasks K a = Some t" and ty: "ty \<noteq> TASK_HANDLE_EMPTY"
    and room: "\<And>h. caps K a handle = Some h \<Longrightarrow> handle_room K h"
  shows "\<exists>K'. look_up ty a handle rights K = Some (looks_up ty a handle rights K, K') \<and>
    kernel_ok K' (ext + handle_obj ty (looks_up ty a handle rights K)) \<and>
    caps K' = caps K \<and> alive K' = alive K"
  using object_from_handle_ok [OF ok t ty room, of handle rights] task_from_handle_eq [OF ok t room, of handle rights] ty
  by (cases ty) (simp_all add: look_up_def task_port_from_handle_def task_buffer_from_handle_def
    task_hw_resource_from_handle_def task_sched_policy_from_handle_def)

lemma handle_cap_obj: "cap_obj (handle_cap_type ty) object = handle_obj ty object"
  by (cases ty) (simp_all add: cap_obj_def handle_obj_def handle_cap_type_def split: option.splits)

lemma handle_calls_work:
  assumes ok: "kernel_ok K ext" and mem: "within_memory K ext"
  shows "call_ok (Grant ty a b rights) (K, ext) \<Longrightarrow> call_works (Grant ty a b rights) K ext"
    and "call_ok (Lookup ty a handle rights) (K, ext) \<Longrightarrow> call_works (Lookup ty a handle rights) K ext"
    and "call_ok (Export a handle rights) (K, ext) \<Longrightarrow> call_works (Export a handle rights) K ext"
    and "call_ok (Inherit d a handle rights) (K, ext) \<Longrightarrow> call_works (Inherit d a handle rights) K ext"
    and "call_ok (Close a handle) (K, ext) \<Longrightarrow> call_works (Close a handle) K ext"
proof -
  note room = within_room [OF ok mem]
  have len: "length (t_handles t) < 2 ^ 30" if "k_tasks K x = Some t" for x t
    using mem that by (simp add: within_memory_def)
  have hroom: "handle_room K h" for h
    using room by (simp add: handle_room_def)
  have cnt: "count (held K + ext) x < 2 ^ 32 - 2" for x
    using mem less_trans [of "count (held K + ext) x" "2 ^ 32 - 3" "2 ^ 32 - 2"] unfolding within_memory_def by simp
  show "call_works (Grant ty a b rights) K ext" if c: "call_ok (Grant ty a b rights) (K, ext)"
  proof -
    obtain t where t: "k_tasks K a = Some t" using c by auto
    have "\<exists>g K'. grant_of_type ty (Some a) (Some b) rights K = Some (g, K') \<and> kernel_ok K' ext \<and>
        granted ty a b rights K g K'"
      by (rule grant_of_type_ok [OF ok t len [OF t]]) (use c room in auto)
    then show ?thesis by (auto simp: call_works_def)
  qed
  show "call_works (Lookup ty a handle rights) K ext" if "call_ok (Lookup ty a handle rights) (K, ext)"
    using look_up_ok [OF ok _ _ hroom, of a _ ty handle rights] that by (auto simp: call_works_def)
  show "call_works (Export a handle rights) K ext" if c: "call_ok (Export a handle rights) (K, ext)"
  proof -
    obtain t where "k_tasks K a = Some t" using c by auto
    from task_export_cap_ok [OF ok this hroom, of handle rights] show ?thesis
      by (cases "\<exists>h. caps K a handle = Some h \<and> has_rights rights h \<and> \<not> target_dead K h";
        cases "caps K a handle") (auto simp: call_works_def handle_cap_obj handle_refs_def)
  qed
  show "call_works (Inherit d a handle rights) K ext" if c: "call_ok (Inherit d a handle rights) (K, ext)"
  proof -
    obtain t u where "k_tasks K a = Some t" "k_tasks K d = Some u" using c by auto
    from inherit_ok [OF ok this len [OF this(2)] cnt, of handle rights] show ?thesis
      by (auto simp: call_works_def)
  qed
  show "call_works (Close a handle) K ext" if "call_ok (Close a handle) (K, ext)"
    using task_close_handle_ok [OF ok, of a handle] task_close_handle_bad [of K a _ handle] ok that
    by (cases "caps K a handle") (auto simp: call_works_def)
qed

lemma release_calls_work:
  assumes ok: "kernel_ok K ext"
  shows "call_ok (Release x) (K, ext) \<Longrightarrow> call_works (Release x) K ext"
    and "call_ok (Discard a) (K, ext) \<Longrightarrow> call_works (Discard a) K ext"
    and "call_ok (Thread_Gone a) (K, ext) \<Longrightarrow> call_works (Thread_Gone a) K ext"
proof -
  show "call_works (Release x) K ext" if c: "call_ok (Release x) (K, ext)"
  proof -
    have "kernel_ok K ((ext - {#x#}) + {#x#})" using ok c by simp
    then have "\<exists>K'. release_object x K = Some K' \<and> kernel_ok K' (ext - {#x#})"
      using ports.release_ok [of K "ext - {#x#}"] buffers.release_ok [of K "ext - {#x#}"]
        tasks.release_ok [of K "ext - {#x#}"] hardware.release_ok [of K "ext - {#x#}"]
        policies.release_ok [of K "ext - {#x#}"]
      unfolding release_object_def by (cases x) (simp_all, blast+)
    then show ?thesis by (auto simp: call_works_def)
  qed
  have task: "\<exists>t. k_tasks K a = Some t" "kernel_ok K ((ext - {#KTask a#}) + {#KTask a#})"
    if "KTask a \<in># ext"
    using ok that ext_alive [of K "ext - {#KTask a#}" "KTask a"] by auto
  show "call_works (Discard a) K ext" if "call_ok (Discard a) (K, ext)"
    using task task_discard_unstarted_ok [OF task(2)] that ok
    by (fastforce simp: call_works_def split: if_splits)
  show "call_works (Thread_Gone a) K ext" if "call_ok (Thread_Gone a) (K, ext)"
    using task task_thread_gone_ok [OF task(2)] that ok
    by (fastforce simp: call_works_def split: if_splits)
qed

lemma task_id_total: "(\<And>c. current = Some c \<Longrightarrow> k_tasks K c \<noteq> None) \<Longrightarrow> \<exists>i. task_id current K = Some i"
  by (cases current) (auto simp: task_id_def)

lemma receives_refs: "receives th ports K r K' \<Longrightarrow> received_refs r = taken_refs (first_pending K 0 ports)"
  by (auto simp: receives_def received_refs_def taken_refs_def split: option.splits)

lemma ipc_try_recv_ok:
  assumes ok: "kernel_ok K ext" and p: "k_ports K a = Some p"
  shows "\<exists>r K'. ipc_try_recv cpu (Some a) K = Some (r, K') \<and>
    r = (case p_queue p of [] \<Rightarrow> Nothing | m # _ \<Rightarrow> Received m 0) \<and>
    kernel_ok K' (ext + received_refs r) \<and> pending K' = (pending K)(a \<mapsto> tl (p_queue p)) \<and>
    receiver_of K' = receiver_of K \<and> k_waits K' = k_waits K \<and> k_threads K' = k_threads K"
proof -
  obtain K1 where K1: "note_receiver_cpu cpu a K = Some K1" "kernel_ok K1 ext" "pending K1 = pending K"
    "receiver_of K1 = receiver_of K" "k_waits K1 = k_waits K" "k_threads K1 = k_threads K"
    using note_receiver_cpu_ok [OF ok p] by blast
  obtain p1 where p1: "k_ports K1 a = Some p1" "p_queue p1 = p_queue p"
    using p fun_cong [OF K1(3), of a] by (auto simp: pending_def)
  from take_message_ok [OF K1(2) p1(1)] show ?thesis
    using K1 p1(2) kernel_okD(7) [OF ok]
    by (cases "p_queue p") (auto simp: ipc_try_recv_def received_refs_def)
qed

lemma message_calls_work:
  assumes ok: "kernel_ok K ext" and mem: "within_memory K ext"
  shows "call_ok (Send env current a m) (K, ext) \<Longrightarrow> call_works (Send env current a m) K ext"
    and "call_ok (Receive cpu th a) (K, ext) \<Longrightarrow> call_works (Receive cpu th a) K ext"
    and "call_ok (Receive_Any cpu th ports) (K, ext) \<Longrightarrow> call_works (Receive_Any cpu th ports) K ext"
    and "call_ok (Try_Receive cpu a) (K, ext) \<Longrightarrow> call_works (Try_Receive cpu a) K ext"
proof -
  show "call_works (Send env current a m) K ext" if c: "call_ok (Send env current a m) (K, ext)"
  proof -
    obtain p sender where p: "k_ports K a = Some p" "task_id current K = Some sender" "message_live K ext m"
      using c task_id_total [of current K] by auto
    have "length (p_queue p) < 2 ^ 32 - 1" using mem p(1) by (simp add: within_memory_def)
    then show ?thesis
      using send_direct_ok [OF ok p(1,3,2)] send_queued_ok [OF ok p(1,3,2)]
      by (cases "direct_receiver K a") (fastforce simp: call_works_def delivered_refs_def)+
  qed
  show "call_works (Receive cpu th a) K ext" if "call_ok (Receive cpu th a) (K, ext)"
    using ipc_recv_ok [OF ok, of a _ th _ _ cpu] that receives_refs
    by (fastforce simp: call_works_def can_receive_def)
  show "call_works (Receive_Any cpu th ports) K ext" if "call_ok (Receive_Any cpu th ports) (K, ext)"
    using ipc_recv_any_ok [OF ok, of ports th _ _ cpu] that receives_refs
    by (fastforce simp: call_works_def can_receive_def)
  show "call_works (Try_Receive cpu a) K ext" if "call_ok (Try_Receive cpu a) (K, ext)"
    using ipc_try_recv_ok [OF ok, of a _ cpu] that by (fastforce simp: call_works_def)
qed

lemma calls_work:
  assumes "kernel_ok K ext" and "within_memory K ext" and "call_ok c (K, ext)"
  shows "call_works c K ext"
  using assms by (cases c) (simp_all only: create_calls_work handle_calls_work release_calls_work message_calls_work)

lemma kernel_step_ok: "kernel_step (K, ext) (K', ext') \<Longrightarrow> kernel_ok K ext \<Longrightarrow> kernel_ok K' ext'"
  by (elim kernel_stepE) (auto dest: calls_work simp: call_works_def)

lemma kernel_reachable_ok: "kernel_reachable S \<Longrightarrow> kernel_ok (fst S) (snd S)"
  by (induction rule: kernel_reachable.induct) (auto simp: initial_kernel_ok intro: kernel_step_ok)

end
