(* ===== verification/Kernel_Spec.thy ===== *)
theory Kernel_Spec
  imports Kernel_Calls
begin

text \<open>
  The properties of kernel objects, handles and messages, with a small kernel state on which
  they are instantiated.
\<close>

section \<open>A small kernel\<close>

text \<open>
  Besides the kernel's task there are \<^verbatim>\<open>init\<close> (1), whose first two handles are the
  port \<^verbatim>\<open>vfs\<close> (3) and the task \<^verbatim>\<open>shell\<close> (2), a second port (5), a buffer (4) and a
  thread of each task. Running code holds both tasks, the ports and the buffer.
\<close>

definition plain_task :: "u32 \<Rightarrow> string \<Rightarrow> u32 \<Rightarrow> task_handle list \<Rightarrow> task" where
  "plain_task pid name refs handles =
     (new_task pid name 7 True)\<lparr>t_ref_count := refs, t_thread_count := 1, t_handles := handles\<rparr>"

definition plain_port :: "string \<Rightarrow> u64 \<Rightarrow> u32 \<Rightarrow> ipc_port" where
  "plain_port name i refs = \<lparr>p_name = name, p_id = i, p_ref_count = refs, p_immortal = False, p_queue = [],
     p_receiver = None, p_receiver_wait = None, p_receiver_index = 0, p_affinity_cpu = 0,
     p_affinity_valid = False, p_queued = 0\<rparr>"

definition init_handles :: "task_handle list" where
  "init_handles =
     [\<lparr>h_type = TASK_HANDLE_PORT, h_rights = 7, h_tag = 0, h_object = Some 3\<rparr>,
      \<lparr>h_type = TASK_HANDLE_TASK, h_rights = 5, h_tag = 0, h_object = Some 2\<rparr>, empty_handle, empty_handle]"

definition sample_kernel :: kstate where
  "sample_kernel = (initial_kernel [True, True, True, True])\<lparr>
     k_tasks := [0 \<mapsto> kernel_task, 1 \<mapsto> plain_task 1 ''init'' 1 init_handles, 2 \<mapsto> plain_task 2 ''shell'' 2 []],
     k_tasks_by_pid := [1 \<mapsto> 1, 2 \<mapsto> 2],
     k_ports := [3 \<mapsto> plain_port ''vfs'' 1 2, 5 \<mapsto> plain_port ''reply'' 2 1],
     k_ports_by_id := [1 \<mapsto> 3, 2 \<mapsto> 5],
     k_buffers := [4 \<mapsto> \<lparr>b_id = 1, b_size = 8, b_ref_count = 1, b_data = replicate 8 0\<rparr>],
     k_threads := [10 \<mapsto> \<lparr>th_state = THREAD_RUNNING, th_task = 1, th_cpu = 0\<rparr>,
       11 \<mapsto> \<lparr>th_state = THREAD_RUNNING, th_task = 2, th_cpu = 0\<rparr>],
     k_next_port_id := 3, k_next_buffer_id := 2, k_next_pid := 3, k_next_addr := 12\<rparr>"

definition sample_refs :: "kobj multiset" where
  "sample_refs = {#KTask 1, KTask 2, KPort 3, KPort 5, KBuffer 4#}"

lemma sample_fields:
  "k_tasks sample_kernel = [0 \<mapsto> kernel_task, 1 \<mapsto> plain_task 1 ''init'' 1 init_handles,
     2 \<mapsto> plain_task 2 ''shell'' 2 []]"
  "k_ports sample_kernel = [3 \<mapsto> plain_port ''vfs'' 1 2, 5 \<mapsto> plain_port ''reply'' 2 1]"
  "k_buffers sample_kernel = [4 \<mapsto> \<lparr>b_id = 1, b_size = 8, b_ref_count = 1, b_data = replicate 8 0\<rparr>]"
  "k_hws sample_kernel = (\<lambda>_. None)" "k_policies sample_kernel = (\<lambda>_. None)"
  "k_threads sample_kernel = [10 \<mapsto> \<lparr>th_state = THREAD_RUNNING, th_task = 1, th_cpu = 0\<rparr>,
     11 \<mapsto> \<lparr>th_state = THREAD_RUNNING, th_task = 2, th_cpu = 0\<rparr>]"
  "k_waits sample_kernel = (\<lambda>_. None)" "k_ports_by_name sample_kernel = (\<lambda>_. None)"
  "k_tasks_by_pid sample_kernel = [1 \<mapsto> 1, 2 \<mapsto> 2]" "k_ports_by_id sample_kernel = [1 \<mapsto> 3, 2 \<mapsto> 5]"
  "k_kernel_task sample_kernel = 0" "k_next_addr sample_kernel = 12" "\<not> k_ipc_locked sample_kernel"
  "k_allocs sample_kernel = [True, True, True, True]"
  by (simp_all add: sample_kernel_def initial_kernel_def)

lemma sample_parts:
  "t_handles kernel_task = []" "t_reply_port kernel_task = None" "t_vm kernel_task = t_vm (new_task 0 [] 0 False)"
  "t_handles (plain_task pid name refs hs) = hs" "t_reply_port (plain_task pid name refs hs) = None"
  "t_vm (plain_task pid name refs hs) = t_vm (new_task 0 [] 0 False)" "t_pid (plain_task pid name refs hs) = pid"
  "t_ref_count (plain_task pid name refs hs) = refs" "\<not> t_dead (plain_task pid name refs hs)"
  "\<not> t_killing (plain_task pid name refs hs)"
  "p_queue (plain_port name i refs) = []" "p_receiver (plain_port name i refs) = None"
  "p_receiver_wait (plain_port name i refs) = None" "p_queued (plain_port name i refs) = 0"
  "p_ref_count (plain_port name i refs) = refs" "p_id (plain_port name i refs) = i"
  by (simp_all add: kernel_task_def plain_task_def new_task_def plain_port_def)

lemmas sample_simps = sample_fields sample_parts

lemma map_sum_empty: "map_sum f (\<lambda>_. None) = {#}"
  by (simp add: map_sum_def)

lemma sample_held: "held sample_kernel = {#KPort 3, KTask 2#}"
proof -
  have "map_sum task_refs (k_tasks sample_kernel) = {#KPort 3, KTask 2#}"
    by (simp add: sample_simps map_sum_insert map_sum_empty task_refs_def handles_refs_def handle_refs_def
        handle_obj_def port_ref_def init_handles_def empty_handle_def)
  moreover have "map_sum queue_refs (k_ports sample_kernel) = {#}"
    by (simp add: sample_simps map_sum_insert map_sum_empty queue_refs_def)
  ultimately show ?thesis by (simp add: held_def)
qed

lemma sample_ok: "kernel_ok sample_kernel sample_refs"
proof -
  have alive: "alive sample_kernel x \<longleftrightarrow> x = KTask 0 \<or> x \<in># sample_refs" for x
    by (cases x) (auto simp: sample_simps sample_refs_def)
  have "refcount sample_kernel x = (if x \<in># sample_refs then Some (count (held sample_kernel + sample_refs) x) else None)" for x
    unfolding sample_held by (cases x) (auto simp: sample_simps sample_refs_def)
  then have "refs_ok sample_kernel sample_refs"
    using alive by (auto simp: refs_ok_def sample_held sample_refs_def split: if_splits)
  moreover have "task_ok (plain_task pid name refs [])" "task_ok (plain_task pid name refs init_handles)"
    "task_ok kernel_task" for pid name refs
    by (auto simp: task_ok_def sample_parts new_task_def table_ok_def init_handles_def empty_handle_def handle_ok_def)
  then have "stores_ok sample_kernel"
    by (auto simp: stores_ok_def sample_simps port_ok_def buffer_ok_def)
  moreover have "index_ok sample_kernel"
    by (auto simp: index_ok_def sample_simps split: if_splits)
  ultimately show ?thesis by (simp add: kernel_ok_def)
qed

lemma sample_within: "within_memory sample_kernel sample_refs"
  by (auto simp: within_memory_def sample_held sample_refs_def sample_simps init_handles_def split: if_splits)









section \<open>Sequences of calls\<close>









section \<open>Handles\<close>

text \<open>
  C13. A lookup answers exactly what the table says. It gives the object when the task's handle
  is in use, of the kind asked for, with all the rights asked for, and does not stand for a
  task that has ended; in every other case it gives nothing. The caller gets one reference,
  and no table changes.
\<close>

theorem lookup_exact:
  assumes "kernel_ok K ext" and "within_memory K ext" and "k_tasks K a = Some t" and "ty \<noteq> TASK_HANDLE_EMPTY"
  shows "\<exists>K'. look_up ty a handle rights K = Some (looks_up ty a handle rights K, K') \<and>
    kernel_ok K' (ext + handle_obj ty (looks_up ty a handle rights K)) \<and> caps K' = caps K \<and> alive K' = alive K"
  using look_up_ok [OF assms(1,3,4)] within_room [OF assms(1,2)] by (simp add: handle_room_def)

theorem lookup_exact_witness:
  "\<exists>K'. look_up TASK_HANDLE_PORT 1 1 3 sample_kernel = Some (Some 3, K') \<and>
     kernel_ok K' (sample_refs + {#KPort 3#}) \<and> caps K' = caps sample_kernel"
proof -
  have "looks_up TASK_HANDLE_PORT 1 1 3 sample_kernel = Some 3"
    by (simp add: looks_up_def caps_def sample_simps init_handles_def target_dead_def has_rights_def)
  moreover have "\<exists>t. k_tasks sample_kernel 1 = Some t" by (simp add: sample_simps)
  ultimately show ?thesis
    using lookup_exact [OF sample_ok sample_within, of 1 _ TASK_HANDLE_PORT 1 3] by (auto simp: handle_obj_def)
qed

text \<open>
  C4. Passing a handle on creates no authority. Every capability in a table afterwards was there
  before, except perhaps one of the destination: it names the object of the source's handle,
  with the rights asked for, and the source's handle has all of these and the right to
  duplicate.
\<close>

theorem inherit_attenuates:
  assumes "kernel_ok K ext" and "within_memory K ext" and "k_tasks K a \<noteq> None" and "k_tasks K d \<noteq> None"
  shows "\<exists>g K'. task_grant_inherited_handle (Some d) (Some a) handle rights K = Some (g, K') \<and> kernel_ok K' ext \<and>
    (\<forall>b i x. caps K' b i = Some x \<longrightarrow> caps K b i = Some x \<or>
       (b = d \<and> i = g \<and> (\<exists>h. caps K a handle = Some h \<and> h_type x = h_type h \<and> h_object x = h_object h \<and>
          h_rights x = rights \<and> rights AND NOT (h_rights h) = 0 \<and> h_rights h AND TASK_RIGHT_DUP \<noteq> 0)))"
proof -
  obtain ta td where t: "k_tasks K a = Some ta" "k_tasks K d = Some td" using assms(3,4) by auto
  have "count (held K + ext) x < 2 ^ 32 - 2" for x
    using assms(2) less_trans [of "count (held K + ext) x" "2 ^ 32 - 3" "2 ^ 32 - 2"]
    unfolding within_memory_def by simp
  then obtain g K' where gK: "task_grant_inherited_handle (Some d) (Some a) handle rights K = Some (g, K')"
    "kernel_ok K' ext" "inherits d a handle rights K g K'"
    using inherit_ok [OF assms(1) t, of handle rights] assms(2) t(2) unfolding within_memory_def by blast
  have "caps K b i = Some x \<or>
       (b = d \<and> i = g \<and> (\<exists>h. caps K a handle = Some h \<and> h_type x = h_type h \<and> h_object x = h_object h \<and>
          h_rights x = rights \<and> rights AND NOT (h_rights h) = 0 \<and> h_rights h AND TASK_RIGHT_DUP \<noteq> 0))"
    if x: "caps K' b i = Some x" for b i x
  proof -
    have b: "k_tasks K' b \<noteq> None" using x by (auto elim: capsD)
    show ?thesis
    proof (cases "g = 0")
      case True
      then show ?thesis using gK(3) x b unfolding inherits_def by simp
    next
      case False
      then obtain h y where "caps K a handle = Some h" "can_inherit rights h" "h_type y = h_type h"
        "h_object y = h_object h" "h_rights y = rights"
        "caps K' b = (if b = d then (caps K d)(g \<mapsto> y) else caps K b)"
        using gK(3) b unfolding inherits_def by auto
      then show ?thesis using x by (auto simp: can_inherit_def split: if_splits)
    qed
  qed
  then show ?thesis using gK by blast
qed

theorem inherit_attenuates_witness:
  "\<exists>g K' x. task_grant_inherited_handle (Some 2) (Some 1) 1 3 sample_kernel = Some (g, K') \<and>
     kernel_ok K' sample_refs \<and> caps K' 2 1 = Some x \<and> h_rights x = 3"
proof -
  obtain g K' where gK: "task_grant_inherited_handle (Some 2) (Some 1) 1 3 sample_kernel = Some (g, K')"
    "kernel_ok K' sample_refs"
    using inherit_attenuates [OF sample_ok sample_within, of 1 2 1 3] by (auto simp: sample_simps)
  have "Option.bind (task_grant_inherited_handle (Some 2) (Some 1) 1 3 sample_kernel)
      (\<lambda>(_, K'). map_option h_rights (caps K' 2 1)) = Some 3"
    by code_simp
  then show ?thesis using gK by auto
qed





section \<open>Releasing tasks\<close>

lemma bind_cleared:
  "Option.bind x (\<lambda>K2. Some (K2\<lparr>k_tasks := (k_tasks K2)(a := None)\<rparr>)) = Some K' \<Longrightarrow> k_tasks K' a = None"
  by (cases x) auto

text \<open>
  C11. Releasing a task always returns, although tearing a task down releases its handles and
  these may be the last references to further dead tasks, and so on. Every reference the torn
  down tasks held is given back, and the task itself goes away exactly when it has ended and
  nothing else refers to it.
\<close>

theorem task_release_returns:
  assumes ok: "kernel_ok K (ext + {#KTask a#})" and t: "k_tasks K a = Some t" and a: "a \<noteq> k_kernel_task K"
  shows "\<exists>K'. task_release (Some a) K = Some K' \<and> kernel_ok K' ext \<and>
    (k_tasks K' a = None \<longleftrightarrow> t_dead t \<and> KTask a \<notin># held K + ext)"
proof -
  obtain K' where K': "task_release (Some a) K = Some K'" "kernel_ok K' ext"
    using task_release_ok [OF ok] by blast
  have n: "unat (t_ref_count t) = Suc (count (held K + ext) (KTask a))"
    using refs_ok_count [OF kernel_okD(1) [OF ok], of "KTask a" "unat (t_ref_count t)"] t a by simp
  then have pos: "t_ref_count t \<noteq> 0" by auto
  have dec: "unat (t_ref_count t - 1) = count (held K + ext) (KTask a)"
    using n unat_dec_32 [of "t_ref_count t"] by simp
  have last: "t_ref_count t - 1 = 0 \<longleftrightarrow> KTask a \<notin># held K + ext"
    using dec by (metis not_in_iff unat_0 unat_eq_0)
  let ?K1 = "set_task a (t\<lparr>t_ref_count := t_ref_count t - 1\<rparr>) K"
  have run: "task_release (Some a) K = (if t_ref_count t - 1 = 0 \<and> t_dead t
      then do { K2 \<leftarrow> teardown_by task_release a ?K1; Some (K2\<lparr>k_tasks := (k_tasks K2)(a := None)\<rparr>) }
      else Some ?K1)"
    using t a pos by (subst task_release.simps) (simp add: word_gt_0 Let_def)
  have gone: "k_tasks K' a = None \<longleftrightarrow> t_dead t \<and> t_ref_count t - 1 = 0"
  proof (cases "t_ref_count t - 1 = 0 \<and> t_dead t")
    case True
    have "Option.bind (teardown_by task_release a ?K1) (\<lambda>K2. Some (K2\<lparr>k_tasks := (k_tasks K2)(a := None)\<rparr>)) = Some K'"
      using K'(1) unfolding run if_P [OF True] .
    then have "k_tasks K' a = None" by (rule bind_cleared)
    then show ?thesis using True by blast
  next
    case False
    then have "K' = set_task a (t\<lparr>t_ref_count := t_ref_count t - 1\<rparr>) K"
      using K'(1) unfolding run if_not_P [OF False] by simp
    then have "k_tasks K' a \<noteq> None" by simp
    then show ?thesis using False by blast
  qed
  show ?thesis
    using K' gone [unfolded last] by (intro exI [of _ K'] conjI)
qed

text \<open>The task \<^verbatim>\<open>init\<close> has ended; it holds handles to a port and to another task.\<close>

definition ended_kernel :: kstate where
  "ended_kernel = set_task 1 ((plain_task 1 ''init'' 1 init_handles)\<lparr>t_dead := True\<rparr>) sample_kernel"

lemma ended_ok: "kernel_ok ended_kernel sample_refs"
  unfolding ended_kernel_def
  by (rule kernel_ok_set_task [OF sample_ok, of 1 "plain_task 1 ''init'' 1 init_handles"])
    (use kernel_okD(8) [OF sample_ok, of 1 "plain_task 1 ''init'' 1 init_handles"] in
      \<open>simp_all add: sample_simps\<close>)

theorem task_release_returns_witness:
  "\<exists>K'. task_release (Some 1) ended_kernel = Some K' \<and> kernel_ok K' (sample_refs - {#KTask 1#}) \<and>
     k_tasks K' 1 = None \<and> refcount K' (KTask 2) = Some 1"
proof -
  let ?ext = "sample_refs - {#KTask 1#}" and ?t = "(plain_task 1 ''init'' 1 init_handles)\<lparr>t_dead := True\<rparr>"
  have ok: "kernel_ok ended_kernel (?ext + {#KTask 1#})"
    using ended_ok by (simp add: sample_refs_def)
  have "k_tasks ended_kernel 1 = Some ?t" "1 \<noteq> k_kernel_task ended_kernel"
    by (simp_all add: ended_kernel_def sample_simps)
  from task_release_returns [OF ok this] obtain K' where K': "task_release (Some 1) ended_kernel = Some K'"
    "kernel_ok K' ?ext" by blast
  have "map_option (\<lambda>K. (k_tasks K 1 = None, refcount K (KTask 2))) (task_release (Some 1) ended_kernel) =
      Some (True, Some 1)"
    by code_simp
  then show ?thesis using K' by auto
qed


section \<open>Shared buffers\<close>

lemma mem_copy_length [simp]: "length (mem_copy dst i src) = length dst"
  by (induction dst i src rule: mem_copy.induct) simp_all

lemma mem_copy_nth:
  "i + length src \<le> length dst \<Longrightarrow> k < length dst \<Longrightarrow>
    mem_copy dst i src ! k = (if i \<le> k \<and> k < i + length src then src ! (k - i) else dst ! k)"
  by (induction dst i src arbitrary: k rule: mem_copy.induct)
    (auto simp: nth_list_update nth_Cons')

lemma buffer_range:
  "\<not> (offset > sz \<or> len > sz - offset) \<longleftrightarrow> unat offset + unat len \<le> unat sz" for sz offset len :: u64
proof (cases "offset \<le> sz")
  case True
  then have "unat (sz - offset) = unat sz - unat offset" by (rule unat_sub)
  then show ?thesis using True by (auto simp: word_le_nat_alt word_less_nat_alt)
qed (auto simp: word_le_nat_alt word_less_nat_alt)

text \<open>
  C14. Reads and writes of a shared buffer stay inside it. A transfer that would go past the end,
  however large its offset and length, is refused and changes nothing; any other write changes
  just the bytes of its range, and a read returns the bytes there.
\<close>

theorem buffer_transfer_bounds:
  assumes ok: "kernel_ok K ext" and b: "k_buffers K a = Some b" and src: "length src = unat len"
  shows "\<exists>s K'. buffer_write (Some a) offset src len K = Some (s, K') \<and> kernel_ok K' ext \<and>
    (if unat offset + unat len \<le> unat (b_size b)
     then s = OK \<and> buffer_read (Some a) offset len K' = Some (Some src) \<and>
       (\<forall>o' n. buffer_read (Some a) o' n K' = Some
          (if unat o' + unat n \<le> unat (b_size b)
           then Some (map (\<lambda>k. if unat offset \<le> k \<and> k < unat offset + unat len then src ! (k - unat offset)
                               else b_data b ! k) [unat o'..<unat o' + unat n])
           else None))
     else s = ERR \<and> K' = K \<and> buffer_read (Some a) offset len K = Some None)"
proof (cases "unat offset + unat len \<le> unat (b_size b)")
  case False
  then show ?thesis
    using b ok buffer_range [of "b_size b" offset len] by (auto simp: buffer_write_def buffer_read_def)
next
  case True
  let ?b = "b\<lparr>b_data := mem_copy (b_data b) (unat offset) src\<rparr>"
  let ?K = "set_buffer a ?b K"
  have len: "length (b_data b) = unat (b_size b)"
    using kernel_okD(2) [OF ok] b by (simp add: stores_ok_def buffer_ok_def)
  have "refcount ?K = refcount K" "alive ?K = alive K"
    using b by (auto simp: refcount_set alive_set fun_eq_iff)
  then have "kernel_ok ?K ext"
    using ok b len unfolding kernel_ok_def refs_ok_def stores_ok_def index_ok_def
    by (auto simp: buffer_ok_def port_ok_def split: if_splits)
  moreover have read: "buffer_read (Some a) o' n ?K = Some
      (if unat o' + unat n \<le> unat (b_size b)
       then Some (map (\<lambda>k. if unat offset \<le> k \<and> k < unat offset + unat len then src ! (k - unat offset)
                           else b_data b ! k) [unat o'..<unat o' + unat n]) else None)" for o' n
    using buffer_range [of "b_size b" o' n] mem_copy_nth [of "unat offset" src "b_data b"] True len src
    by (auto simp: buffer_read_def intro!: nth_equalityI)
  moreover have "map (\<lambda>k. if unat offset \<le> k \<and> k < unat offset + unat len then src ! (k - unat offset)
      else b_data b ! k) [unat offset..<unat offset + unat len] = src"
    using src by (auto intro!: nth_equalityI)
  ultimately show ?thesis
    using True b src buffer_range [of "b_size b" offset len] by (auto simp: buffer_write_def)
qed

theorem buffer_transfer_bounds_witness:
  "(\<exists>K'. buffer_write (Some 4) 6 [7, 9] 2 sample_kernel = Some (OK, K') \<and>
      buffer_read (Some 4) 6 2 K' = Some (Some [7, 9])) \<and>
   buffer_write (Some 4) 0xFFFFFFFFFFFFFFFF [7, 9] 2 sample_kernel = Some (ERR, sample_kernel)"
proof -
  have b: "k_buffers sample_kernel 4 = Some \<lparr>b_id = 1, b_size = 8, b_ref_count = 1, b_data = replicate 8 0\<rparr>"
    by (simp add: sample_simps)
  show ?thesis
    using buffer_transfer_bounds [OF sample_ok b, of "[7, 9]" 2 6]
      buffer_transfer_bounds [OF sample_ok b, of "[7, 9]" 2 "0xFFFFFFFFFFFFFFFF"] by auto
qed

end
