(* ===== verification/Ipc_Spec.thy ===== *)
theory Ipc_Spec
  imports Kernel_Spec
begin

text \<open>
  The properties of message passing, and what goes wrong at its edges: a task that ends while
  it is being sent, a receiver whose task is killed, two receivers at one port.
\<close>

section \<open>Sending and receiving\<close>

definition sample_message :: ipc_message where
  "sample_message = \<lparr>m_protocol = 3, m_type = 1, m_sender = 0, m_cap_rights = 1, m_reply_port = None,
     m_cap_type = IPC_CAP_BUFFER, m_cap_object = Some 4, m_words = [1, 2, 3, 4]\<rparr>"

definition quiet_cpu :: cpu_env where
  "quiet_cpu = \<lparr>ce_id = 0, ce_scheduler = False, ce_handoff_depth = 0\<rparr>"

lemma sample_message_refs: "message_refs sample_message = {#KBuffer 4#}"
  by (simp add: message_refs_def sample_message_def cap_obj_def port_ref_def)

lemma sample_message_live: "message_live sample_kernel sample_refs sample_message"
  by (auto simp: message_live_def sample_message_refs sample_held sample_refs_def)
    (simp_all add: sample_message_def)



text \<open>
  C30. Receiving from several ports takes the oldest message of the first port in the list that
  has one, with that port's index, and leaves all other messages in their places. If there is
  none, the thread is blocked and registered at every port of the list, so that the next send
  to any of them finds it.
\<close>

theorem receive_any_refines:
  assumes "kernel_ok K ext" and "call_ok (Receive_Any cpu th ports) (K, ext)"
  shows "\<exists>r K'. ipc_recv_any cpu th (map Some ports) K = Some (r, K') \<and>
    kernel_ok K' (ext + received_refs r) \<and> receives th ports K r K' \<and>
    (r = Waiting \<longrightarrow> (\<forall>a \<in> set ports. direct_receiver K' a = Some th))"
proof -
  obtain t tk where c: "ports \<noteq> []" "length ports \<le> 4" "distinct ports" "unregistered th K"
    "k_threads K th = Some t" "k_tasks K (th_task t) = Some tk" "\<not> t_killing tk"
    "\<And>a. a \<in> set ports \<Longrightarrow> k_ports K a \<noteq> None"
    using assms(2) by (auto simp: can_receive_def)
  obtain r K' where K': "ipc_recv_any cpu th (map Some ports) K = Some (r, K')"
    "kernel_ok K' (ext + taken_refs (first_pending K 0 ports))" "receives th ports K r K'"
    using ipc_recv_any_ok [OF assms(1) c(8,1-7)] by blast
  have "direct_receiver K' a = Some th" if "r = Waiting" "a \<in> set ports" for a
    using K'(3) that by (auto simp: receives_def direct_receiver_def split: option.splits prod.splits)
  then show ?thesis
    using K' receives_refs [OF K'(3)] by auto
qed

theorem receive_any_refines_witness:
  "\<exists>r K'. ipc_recv_any 0 10 [Some 3, Some 5] sample_kernel = Some (r, K') \<and> kernel_ok K' sample_refs \<and>
     direct_receiver K' 5 = Some 10"
proof -
  have c: "call_ok (Receive_Any 0 10 [3, 5]) (sample_kernel, sample_refs)"
    by (simp add: sample_simps can_receive_def unregistered_def)
  have eval: "map_option fst (ipc_recv_any 0 10 [Some 3, Some 5] sample_kernel) = Some Waiting"
    by code_simp
  obtain r K' where K': "ipc_recv_any 0 10 [Some 3, Some 5] sample_kernel = Some (r, K')"
    "kernel_ok K' (sample_refs + received_refs r)" "r = Waiting \<longrightarrow> direct_receiver K' 5 = Some 10"
    using receive_any_refines [OF sample_ok c] by auto
  then show ?thesis using eval by (auto simp: received_refs_def)
qed



section \<open>Waking up\<close>

text \<open>A thread that waits at one port only.\<close>

definition waits_only_at :: "nat \<Rightarrow> nat \<Rightarrow> kstate \<Rightarrow> bool" where
  "waits_only_at th a K \<longleftrightarrow> direct_receiver K a = Some th \<and> (\<forall>b. receiver_of K b = Some th \<longrightarrow> b = a)"

lemma deliver_then_resume:
  assumes ok: "kernel_ok K ext" and p: "k_ports K a = Some p" and live: "message_live K ext message"
    and cur: "task_id current K = Some sender" and w: "waits_only_at th a K"
  shows "\<exists>r K1 K2 t. ipc_send env current (Some a) message K = Some (r, K1) \<and>
    k_threads K1 th = Some t \<and> th_state t \<noteq> THREAD_BLOCKED \<and>
    ipc_recv_resume th a K1 = Some (Received (message\<lparr>m_sender := sender\<rparr>) 0, K2) \<and>
    kernel_ok K2 (ext + message_refs message) \<and> pending K2 = pending K \<and>
    receiver_of K2 = (receiver_of K)(a := None) \<and> k_waits K2 = (k_waits K)(th := None)"
proof -
  have d: "direct_receiver K a = Some th" using w by (simp add: waits_only_at_def)
  obtain r K1 where K1: "ipc_send env current (Some a) message K = Some (r, K1)"
    "kernel_ok K1 (ext + message_refs message)" "sends a (message\<lparr>m_sender := sender\<rparr>) K r K1"
    using send_direct_ok [OF ok p live cur d] by blast
  obtain t where t: "k_threads K1 th = Some t" "th_state t \<noteq> THREAD_BLOCKED" and
    mail: "pending K1 = pending K" "receiver_of K1 = (receiver_of K)(a := None)" and
    wt: "k_waits K1 = (k_waits K)(th \<mapsto> \<lparr>w_message = message\<lparr>m_sender := sender\<rparr>,
      w_index = p_receiver_index p, w_delivered = True\<rparr>)"
    using K1(3) d p by (auto simp: sends_def)
  have "unregistered th K1"
    using w mail(2) by (auto simp: unregistered_eq waits_only_at_def)
  then show ?thesis
    using K1(1) t mail wt resume_delivered [OF K1(2), of th] by auto
qed

lemma receives_waiting:
  assumes "receives th ports K r K'" and "first_pending K 0 ports = None"
  shows "r = Waiting" and "pending K' = pending K" and "same_objects K K'"
    and "receiver_of K' = (\<lambda>a. if a \<in> set ports then Some th else receiver_of K a)"
    and "\<exists>w. k_waits K' th = Some w \<and> \<not> w_delivered w"
    and "\<exists>t. k_threads K' th = Some t \<and> th_state t = THREAD_BLOCKED"
    and "k_threads K' = (k_threads K)(th := k_threads K' th)"
  using assms(1) unfolding receives_def assms(2) option.case by - (elim conjE, assumption)+

lemma receive_send_resume:
  assumes ok: "kernel_ok K ext" and c: "call_ok (Receive cpu th a) (K, ext)" and empty: "pending K a = Some []"
    and live: "message_live K ext message" and cur: "task_id current K = Some sender"
  shows "\<exists>K0 r K1 K2 t. ipc_recv cpu th (Some a) K = Some (Waiting, K0) \<and>
    (\<exists>t0. k_threads K0 th = Some t0 \<and> th_state t0 = THREAD_BLOCKED) \<and>
    ipc_send env current (Some a) message K0 = Some (r, K1) \<and>
    k_threads K1 th = Some t \<and> th_state t \<noteq> THREAD_BLOCKED \<and>
    ipc_recv_resume th a K1 = Some (Received (message\<lparr>m_sender := sender\<rparr>) 0, K2) \<and>
    kernel_ok K2 (ext + message_refs message) \<and> pending K2 = pending K \<and> receiver_of K2 = (receiver_of K)(a := None)"
proof -
  obtain p t tk where c: "k_ports K a = Some p" "unregistered th K" "k_threads K th = Some t"
    "k_tasks K (th_task t) = Some tk" "\<not> t_killing tk"
    using c by (auto simp: can_receive_def)
  have f: "first_pending K 0 [a] = None" using empty by simp
  obtain r0 K0 where K0: "ipc_recv cpu th (Some a) K = Some (r0, K0)" "kernel_ok K0 ext" and rec: "receives th [a] K r0 K0"
    using ipc_recv_ok [OF ok c, of cpu] f by (auto simp: taken_refs_def)
  note w = receives_waiting [OF rec f]
  have only: "waits_only_at th a K0"
    using w(4,5) c(2) by (auto simp: waits_only_at_def direct_receiver_def unregistered_eq split: if_splits)
  obtain p0 where p0: "k_ports K0 a = Some p0"
    using empty fun_cong [OF w(2), of a] by (auto simp: pending_def)
  have live0: "message_live K0 ext message" by (rule message_live_same [OF live w(3,2)])
  have cur0: "task_id current K0 = Some sender"
    using cur w(3) by (cases current) (simp_all add: task_id_def same_objects_def)
  have reg: "(receiver_of K0)(a := None) = (receiver_of K)(a := None)"
    using w(4) by (simp add: fun_eq_iff)
  show ?thesis
    using deliver_then_resume [OF K0(2) p0 live0 cur0 only, of env] K0(1) w(1,2,6) unfolding reg by metis
qed

text \<open>
  C10. A waiting receiver is served. Once a thread has blocked in a receive from a port, the next
  message sent to that port, by whatever task on whatever CPU, makes the thread runnable, and
  when it runs its receive returns that message.
\<close>

theorem waiting_receiver_served:
  assumes "kernel_ok K ext" and "call_ok (Receive cpu th a) (K, ext)" and "pending K a = Some []"
    and "message_live K ext message" and "task_id current K = Some sender"
  shows "\<exists>K0 r K1 K2 t0 t. ipc_recv cpu th (Some a) K = Some (Waiting, K0) \<and>
    k_threads K0 th = Some t0 \<and> th_state t0 = THREAD_BLOCKED \<and>
    ipc_send env current (Some a) message K0 = Some (r, K1) \<and>
    k_threads K1 th = Some t \<and> th_state t \<noteq> THREAD_BLOCKED \<and>
    ipc_recv_resume th a K1 = Some (Received (message\<lparr>m_sender := sender\<rparr>) 0, K2)"
  using receive_send_resume [OF assms, of env] by blast

lemma sample_receive_ok: "call_ok (Receive 0 10 3) (sample_kernel, sample_refs)"
  by (simp add: sample_simps can_receive_def unregistered_def)

lemma sample_empty: "pending sample_kernel 3 = Some []" "receiver_of sample_kernel 3 = None"
  by (simp_all add: pending_def receiver_of_def sample_simps)

lemma sample_sender: "task_id (Some 2) sample_kernel = Some 2"
  by (simp add: task_id_def sample_simps)

theorem waiting_receiver_served_witness:
  "\<exists>K0 r K1 K2. ipc_recv 0 10 (Some 3) sample_kernel = Some (Waiting, K0) \<and>
     ipc_send quiet_cpu (Some 2) (Some 3) sample_message K0 = Some (r, K1) \<and>
     ipc_recv_resume 10 3 K1 = Some (Received (sample_message\<lparr>m_sender := 2\<rparr>) 0, K2)"
  using waiting_receiver_served [OF sample_ok sample_receive_ok sample_empty(1) sample_message_live sample_sender,
    of quiet_cpu] by blast

lemma ipc_recv_pending:
  assumes ok: "kernel_ok K ext" and q: "pending K a = Some (m # q)" and un: "unregistered th K"
  shows "\<exists>K'. ipc_recv cpu th (Some a) K = Some (Received m 0, K') \<and> kernel_ok K' (ext + message_refs m) \<and>
    pending K' = (pending K)(a \<mapsto> q) \<and> receiver_of K' = receiver_of K"
proof -
  let ?K0 = "open_wait th K"
  have ok0: "kernel_ok ?K0 ext" by (rule kernel_ok_open_wait [OF ok])
  obtain p where p: "k_ports ?K0 a = Some p" using q by (auto simp: pending_def)
  obtain K1 where K1: "note_receiver_cpu cpu a ?K0 = Some K1" "kernel_ok K1 ext"
    "pending K1 = pending ?K0" "receiver_of K1 = receiver_of ?K0"
    using note_receiver_cpu_ok [OF ok0 p] by blast
  obtain p1 where p1: "k_ports K1 a = Some p1" "p_queue p1 = m # q"
    using q fun_cong [OF K1(3), of a] by (auto simp: pending_def)
  obtain K2 where K2: "take_message a K1 = Some (Some m, K2)" "kernel_ok K2 (ext + message_refs m)"
    "pending K2 = (pending K1)(a \<mapsto> q)" "receiver_of K2 = receiver_of K1"
    using take_message_ok [OF K1(2) p1(1)] p1(2) by auto
  have "unregistered th K2"
    using un K1(4) K2(4) by (simp add: unregistered_eq)
  then show ?thesis
    using K1 K2 kernel_okD(7) [OF ok] kernel_ok_close_wait [OF K2(2)]
    by (auto simp: ipc_recv_def recv_round_def)
qed

text \<open>
  C31. Being there first or not makes no difference: receiving before the message is sent, with
  direct delivery to the blocked thread, and receiving it afterwards from the queue, give the
  receiver the same message and leave the same mailboxes.
\<close>

theorem direct_delivery_equals_queue:
  assumes ok: "kernel_ok K ext" and mem: "within_memory K ext" and c: "call_ok (Receive cpu th a) (K, ext)"
    and empty: "pending K a = Some []" "receiver_of K a = None" and alloc: "k_allocs K = True # l"
    and live: "message_live K ext message" and cur: "task_id current K = Some sender"
  shows "\<exists>K0 r1 K1 K2 r3 K3 K4 m.
    ipc_recv cpu th (Some a) K = Some (Waiting, K0) \<and> ipc_send env current (Some a) message K0 = Some (r1, K1) \<and>
    ipc_recv_resume th a K1 = Some (Received m 0, K2) \<and>
    ipc_send env current (Some a) message K = Some (r3, K3) \<and> ipc_recv cpu th (Some a) K3 = Some (Received m 0, K4) \<and>
    pending K2 = pending K4 \<and> receiver_of K2 = receiver_of K4"
proof -
  let ?m = "message\<lparr>m_sender := sender\<rparr>"
  obtain p where p: "k_ports K a = Some p" using empty(1) by (auto simp: pending_def)
  have len: "length (p_queue p) < 2 ^ 32 - 1" using mem p by (simp add: within_memory_def)
  have "direct_receiver K a = None" using empty(2) by (simp add: direct_receiver_def)
  then obtain r3 K3 where K3: "ipc_send env current (Some a) message K = Some (r3, K3)" "kernel_ok K3 ext"
    "pending K3 = (pending K)(a \<mapsto> [?m])" "receiver_of K3 = receiver_of K"
    using send_queued_ok [OF ok p live cur _ len, of env] alloc empty
    by (fastforce simp: sends_def fun_upd_idem split: if_splits)
  have "unregistered th K3"
    using c K3(4) by (simp add: can_receive_def unregistered_eq)
  then obtain K4 where K4: "ipc_recv cpu th (Some a) K3 = Some (Received ?m 0, K4)"
    "pending K4 = (pending K3)(a \<mapsto> [])" "receiver_of K4 = receiver_of K3"
    using ipc_recv_pending [OF K3(2), of a ?m "[]" th] K3(3) by auto
  have "pending K4 = pending K" "receiver_of K4 = receiver_of K"
    using K4(2,3) K3(3,4) empty(1) by (simp_all add: fun_upd_idem)
  moreover have "(receiver_of K)(a := None) = receiver_of K" using empty(2) by (simp add: fun_upd_idem)
  ultimately show ?thesis
    using receive_send_resume [OF ok c empty(1) live cur, of env] K3(1) K4(1) by metis
qed

theorem direct_delivery_equals_queue_witness:
  "\<exists>K0 r1 K1 K2 r3 K3 K4 m.
    ipc_recv 0 10 (Some 3) sample_kernel = Some (Waiting, K0) \<and>
    ipc_send quiet_cpu (Some 2) (Some 3) sample_message K0 = Some (r1, K1) \<and>
    ipc_recv_resume 10 3 K1 = Some (Received m 0, K2) \<and>
    ipc_send quiet_cpu (Some 2) (Some 3) sample_message sample_kernel = Some (r3, K3) \<and>
    ipc_recv 0 10 (Some 3) K3 = Some (Received m 0, K4) \<and> pending K2 = pending K4"
proof -
  have "k_allocs sample_kernel = True # [True, True, True]" by (simp add: sample_simps)
  from direct_delivery_equals_queue [OF sample_ok sample_within sample_receive_ok sample_empty this
      sample_message_live sample_sender, of quiet_cpu]
  show ?thesis by blast
qed



section \<open>A receiver whose task is being killed\<close>

lemma retain_keeps_lock: "ipc_message_retain m K = Some K1 \<Longrightarrow> k_ipc_locked K1 = k_ipc_locked K"
  by (auto simp: ipc_message_retain_def ipc_port_retain_def buffer_retain_def task_retain_def
      task_hw_resource_retain_def sched_policy_cap_retain_def Let_def
      split: option.splits bind_splits ipc_cap_type.splits if_splits)

lemma ipc_wedged:
  assumes "k_ipc_locked K"
  shows "ipc_send env current (Some b) m K = None" and "ipc_recv cpu th (Some b) K = None"
    and "ipc_try_recv cpu (Some b) K = None" and "ipc_port_alloc name reuse K = None"
    and "ipc_cancel_thread (Some th) K = None"
proof -
  have lock: "ipc_lock L = None" if "k_ipc_locked L" for L
    using that by (simp add: ipc_lock_def)
  have "deliver_direct c b m' K1 = None" if "ipc_message_retain m' K = Some K1" for c m' K1
    using retain_keeps_lock [OF that] assms lock by (simp add: deliver_direct_def)
  then show "ipc_send env current (Some b) m K = None"
    by (auto simp: ipc_send_def Let_def split: bind_splits)
  show "ipc_recv cpu th (Some b) K = None" "ipc_try_recv cpu (Some b) K = None"
    "ipc_port_alloc name reuse K = None" "ipc_cancel_thread (Some th) K = None"
    by (simp_all add: ipc_recv_def ipc_try_recv_def ipc_port_alloc_def ipc_cancel_thread_def lock [OF assms])
qed

text \<open>
  C32. A thread whose task is being killed and that calls a blocking receive on an empty port
  exits inside the call without giving up \<^verbatim>\<open>ipc_lock\<close>. From then on every send, receive,
  port creation and cancellation, of any task, waits for that lock for ever.
\<close>

theorem killed_receiver_wedges_ipc:
  assumes ok: "kernel_ok K ext" and empty: "pending K a = Some []" and t: "k_threads K th = Some t"
    and tk: "k_tasks K (th_task t) = Some tk" "t_killing tk"
  shows "\<exists>K'. ipc_recv cpu th (Some a) K = Some (Exited, K') \<and>
    (\<forall>env current b m. ipc_send env current (Some b) m K' = None) \<and>
    (\<forall>c x b. ipc_recv c x (Some b) K' = None) \<and> (\<forall>c b. ipc_try_recv c (Some b) K' = None) \<and>
    (\<forall>name reuse. ipc_port_alloc name reuse K' = None) \<and> (\<forall>x. ipc_cancel_thread (Some x) K' = None)"
proof -
  let ?K0 = "open_wait th K"
  have ok0: "kernel_ok ?K0 ext" by (rule kernel_ok_open_wait [OF ok])
  obtain p where p: "k_ports ?K0 a = Some p" using empty by (auto simp: pending_def)
  obtain K1 where K1: "note_receiver_cpu cpu a ?K0 = Some K1" "kernel_ok K1 ext" "same_objects ?K0 K1"
    "pending K1 = pending ?K0" "k_waits K1 = k_waits ?K0" "k_threads K1 = k_threads ?K0"
    using note_receiver_cpu_ok [OF ok0 p] by blast
  obtain p1 where p1: "k_ports K1 a = Some p1" "p_queue p1 = []"
    using empty fun_cong [OF K1(4), of a] by (auto simp: pending_def)
  have take: "take_message a K1 = Some (None, K1)"
    using p1 by (simp add: take_message_def)
  obtain w where w: "k_waits K1 th = Some w" using K1(5) by simp
  let ?K2 = "K1\<lparr>k_waits := (k_waits K1)(th \<mapsto> w\<lparr>w_delivered := False\<rparr>)\<rparr>"
  have block: "thread_prepare_block th ?K2 = Some (True, set_thread th (t\<lparr>th_state := THREAD_DEAD\<rparr>) ?K2)"
    using K1(3,6) t tk by (simp add: thread_prepare_block_def same_objects_def)
  let ?K' = "set_thread th (t\<lparr>th_state := THREAD_DEAD\<rparr>) ?K2\<lparr>k_ipc_locked := True\<rparr>"
  have "ipc_recv cpu th (Some a) K = Some (Exited, ?K')"
    using K1(1) take w block kernel_okD(7) [OF ok] by (simp add: ipc_recv_def recv_round_def Let_def)
  moreover have "k_ipc_locked ?K'" by simp
  ultimately show ?thesis using ipc_wedged by blast
qed

definition killed_kernel :: kstate where
  "killed_kernel = set_task 2 ((plain_task 2 ''shell'' 2 [])\<lparr>t_killing := True\<rparr>) sample_kernel"

lemma killed_ok: "kernel_ok killed_kernel sample_refs"
  unfolding killed_kernel_def
  by (rule kernel_ok_set_task [OF sample_ok, of 2 "plain_task 2 ''shell'' 2 []"])
    (use kernel_okD(8) [OF sample_ok, of 2 "plain_task 2 ''shell'' 2 []"] in \<open>simp_all add: sample_simps\<close>)

theorem killed_receiver_wedges_ipc_witness:
  "\<exists>K'. ipc_recv 0 11 (Some 3) killed_kernel = Some (Exited, K') \<and>
     ipc_send quiet_cpu (Some 1) (Some 5) sample_message K' = None"
proof -
  have "pending killed_kernel 3 = Some []"
    "k_threads killed_kernel 11 = Some \<lparr>th_state = THREAD_RUNNING, th_task = 2, th_cpu = 0\<rparr>"
    "k_tasks killed_kernel (th_task \<lparr>th_state = THREAD_RUNNING, th_task = 2, th_cpu = 0\<rparr>) =
       Some ((plain_task 2 ''shell'' 2 [])\<lparr>t_killing := True\<rparr>)"
    by (simp_all add: killed_kernel_def pending_def sample_simps)
  from killed_receiver_wedges_ipc [OF killed_ok this, of 0] show ?thesis by auto
qed


section \<open>A task that ends while it is being sent\<close>

text \<open>
  C33. Sending a task that has ended loses a reference. The send cannot take a reference to the
  dead task but does not notice, and gives one back when it moves the message to the queue.
  With \<open>n\<close> references before, the count afterwards is \<open>n - 1\<close> although, with the queued
  message, \<open>n + 1\<close> places refer to the task: it will be freed while two of them still do.
\<close>

theorem sent_dead_task_miscounted:
  assumes ok: "kernel_ok K ext" and p: "k_ports K a = Some p" "p_receiver p = None"
    and m: "m_cap_type message = IPC_CAP_TASK" "m_cap_object message = Some b" "m_reply_port message = None"
    and t: "k_tasks K b = Some t" "t_dead t" "b \<noteq> k_kernel_task K" and n: "1 < t_ref_count t"
    and alloc: "k_allocs K = True # l" and cur: "task_id current K = Some sender"
  shows "\<exists>K'. ipc_send env current (Some a) message K = Some (Sent, K') \<and>
    refcount K' (KTask b) = Some (unat (t_ref_count t) - 1) \<and>
    count (held K' + ext) (KTask b) = unat (t_ref_count t) + 1"
proof -
  let ?m = "message\<lparr>m_sender := sender\<rparr>" and ?cpu = "ce_id env"
  let ?K1 = "ipc_stats_inc ?cpu SENDS K"
  let ?t = "t\<lparr>t_ref_count := t_ref_count t - 1\<rparr>"
  let ?K2 = "set_task b ?t ?K1\<lparr>k_allocs := l\<rparr>"
  let ?p = "p\<lparr>p_queue := p_queue p @ [?m], p_queued := p_queued p + 1, p_receiver := None, p_receiver_wait := None\<rparr>"
  let ?K3 = "ipc_stats_inc ?cpu QUEUED (set_port a ?p ?K2)"
  have n0: "t_ref_count t \<noteq> 0" "t_ref_count t - 1 \<noteq> 0" "0 < t_ref_count t" using n by (auto simp: word_gt_0)
  have lock: "ipc_lock K = Some ()" "ipc_lock ?K2 = Some ()"
    using kernel_okD(6) [OF ok] by (simp_all add: ipc_lock_def)
  have ret: "ipc_message_retain ?m L = Some L" if "k_tasks L b = Some u" "t_dead u" "k_kernel_task L = k_kernel_task K" for L u
    using that m t(3) by (simp add: ipc_message_retain_def ipc_port_retain_def task_retain_def)
  have deliver: "deliver_direct ?cpu a ?m K = Some (None, ?K1)"
    using p lock by (simp add: deliver_direct_def)
  have "task_release (Some b) ?K1 = Some (set_task b ?t ?K1)"
    using t n0 by (subst task_release.simps) (simp add: Let_def ipc_stats_inc_def)
  then have rel: "ipc_message_release ?m ?K1 = Some (clear_message ?m, set_task b ?t ?K1)"
    using m by (simp add: ipc_message_release_def ipc_port_release_def)
  have alloc1: "slab_answer (set_task b ?t ?K1) = (True, ?K2)"
    using alloc by (simp add: slab_answer_def)
  have "p_receiver_wait p = None"
    using kernel_okD(9) [OF ok p(1)] p(2) by (simp add: port_ok_def)
  then have enq: "enqueue_message ?cpu a ?m ?K2 = Some ?K3"
    using p lock by (simp add: enqueue_message_def thread_unblock_def)
  have "k_kernel_task ?K2 = k_kernel_task K" by (simp add: ipc_stats_inc_def)
  then have ret2: "ipc_message_retain ?m ?K2 = Some ?K2"
    using t by (intro ret [of _ ?t]) simp_all
  have run: "ipc_send env current (Some a) message K = Some (Sent, ?K3)"
    using cur ret [OF t(1,2)] deliver rel alloc1 ret2 enq by (simp add: ipc_send_def)
  have cnt: "count (held K + ext) (KTask b) = unat (t_ref_count t)"
    using refs_ok_count [OF kernel_okD(1) [OF ok], of "KTask b"] t by simp
  have "held ?K2 = held (set_task b ?t K)" by (simp add: held_def)
  then have held2: "held ?K2 = held K"
    using held_ref_counts(2) [OF ok t(1)] by simp
  have "held (set_port a ?p ?K2) + queue_refs p = held ?K2 + queue_refs ?p"
    using kernel_okD(5) [OF ok] p(1) by (intro held_set_port) simp_all
  moreover have "queue_refs ?p = queue_refs p + {#KTask b#}"
    using m by (simp add: queue_refs_def message_refs_def cap_obj_def port_ref_def)
  ultimately have "held (set_port a ?p ?K2) = held K + {#KTask b#}"
    unfolding held2 by simp
  then have held: "held ?K3 = held K + {#KTask b#}" by (simp add: held_def)
  show ?thesis
    using run t n0 cnt held by (auto simp: unat_dec_32 ipc_stats_inc_def)
qed

text \<open>The task \<^verbatim>\<open>shell\<close> has ended; \<^verbatim>\<open>init\<close> has a handle to it.\<close>

definition dying_kernel :: kstate where
  "dying_kernel = set_task 2 ((plain_task 2 ''shell'' 2 [])\<lparr>t_dead := True\<rparr>) sample_kernel"

lemma dying_ok: "kernel_ok dying_kernel sample_refs"
  unfolding dying_kernel_def
  by (rule kernel_ok_set_task [OF sample_ok, of 2 "plain_task 2 ''shell'' 2 []"])
    (use kernel_okD(8) [OF sample_ok, of 2 "plain_task 2 ''shell'' 2 []"] in \<open>simp_all add: sample_simps\<close>)

definition task_message :: ipc_message where
  "task_message = empty_message\<lparr>m_cap_type := IPC_CAP_TASK, m_cap_object := Some 2\<rparr>"

theorem sent_dead_task_miscounted_witness:
  "\<exists>K'. ipc_send quiet_cpu (Some 1) (Some 5) task_message dying_kernel = Some (Sent, K') \<and>
     refcount K' (KTask 2) = Some 1 \<and> count (held K' + sample_refs) (KTask 2) = 3"
proof -
  let ?t = "(plain_task 2 ''shell'' 2 [])\<lparr>t_dead := True\<rparr>"
  have "k_ports dying_kernel 5 = Some (plain_port ''reply'' 2 1)" "p_receiver (plain_port ''reply'' 2 1) = None"
    "m_cap_type task_message = IPC_CAP_TASK" "m_cap_object task_message = Some 2" "m_reply_port task_message = None"
    "k_tasks dying_kernel 2 = Some ?t" "t_dead ?t" "2 \<noteq> k_kernel_task dying_kernel" "1 < t_ref_count ?t"
    "k_allocs dying_kernel = True # [True, True, True]" "task_id (Some 1) dying_kernel = Some 1"
    by (simp_all add: dying_kernel_def task_id_def sample_simps task_message_def empty_message_def)
  from sent_dead_task_miscounted [OF dying_ok this, of quiet_cpu] show ?thesis
    by (simp add: sample_parts)
qed


section \<open>A receiver at several ports that is killed when it has just been woken\<close>

text \<open>
  C34. Killing a task leaves a thread registered at a port and then frees the thread. A thread
  that waited at several ports and has been woken through one of them is ready to run but still
  registered at the others; killing its task cancels only the waits of blocked threads, and the
  thread is reaped from the run queue. The next send to such a port uses the freed thread's
  wait record.
\<close>

theorem reaped_receiver_still_registered:
  assumes ok: "kernel_ok K ext" and t: "k_threads K th = Some t" "th_state t = THREAD_READY"
    and tk: "k_tasks K (th_task t) = Some tk" "1 < t_thread_count tk" and reg: "receiver_of K b = Some th"
    and m: "m_cap_type message = IPC_CAP_NONE" "m_reply_port message = None"
  shows "\<exists>K1. Option.bind (kill_blocked_thread th K) (cancel_ready_thread th) = Some K1 \<and>
    k_threads K1 th = None \<and> receiver_of K1 b = Some th \<and>
    ipc_send env current (Some b) message K1 = None"
proof -
  let ?L = "close_wait th ((set_thread th (t\<lparr>th_state := THREAD_DEAD\<rparr>) K)\<lparr>k_threads := (k_threads K)(th := None)\<rparr>)"
  let ?K1 = "set_task (th_task t) (tk\<lparr>t_thread_count := t_thread_count tk - 1\<rparr>) ?L"
  have n: "0 < t_thread_count tk" "t_thread_count tk - 1 \<noteq> 0" using tk(2) by (auto simp: word_gt_0)
  have "task_thread_gone (th_task t) ?L = Some ?K1"
    using tk n by (simp add: task_thread_gone_def close_wait_def set_thread_def Let_def)
  then have run: "Option.bind (kill_blocked_thread th K) (cancel_ready_thread th) = Some ?K1"
    using t by (simp add: kill_blocked_thread_def cancel_ready_thread_def sched_reap_thread_def)
  obtain p where p: "k_ports K b = Some p" "p_receiver p = Some th" "p_receiver_wait p = Some th"
    using reg kernel_okD(9) [OF ok, of b] by (auto simp: receiver_of_def port_ok_def split: bind_splits)
  have ret: "ipc_message_retain (message\<lparr>m_sender := s\<rparr>) ?K1 = Some ?K1" for s
    using m by (simp add: ipc_message_retain_def ipc_port_retain_def)
  have "deliver_direct c b m' ?K1 = None" for c m'
    using p by (simp add: deliver_direct_def ipc_stats_inc_def split: bind_splits)
  then have "ipc_send env current (Some b) message ?K1 = None"
    by (auto simp: ipc_send_def Let_def ret split: bind_splits)
  then show ?thesis
    using run p by (auto simp: receiver_of_def)
qed

text \<open>A second thread in \<^verbatim>\<open>init\<close>; one thread waits at both ports and gets a message at the first.\<close>

definition busy_kernel :: kstate where
  "busy_kernel = set_task 1 ((plain_task 1 ''init'' 1 init_handles)\<lparr>t_thread_count := 2\<rparr>) sample_kernel"

definition woken_kernel :: kstate where
  "woken_kernel =
     (case Option.bind (ipc_recv_any 0 10 [Some 3, Some 5] busy_kernel)
        (\<lambda>(_, K). ipc_send (quiet_cpu\<lparr>ce_scheduler := True\<rparr>) None (Some 3) empty_message K) of
        Some (_, K) \<Rightarrow> K | None \<Rightarrow> busy_kernel)"

lemma busy_ok: "kernel_ok busy_kernel sample_refs"
  unfolding busy_kernel_def
  by (rule kernel_ok_set_task [OF sample_ok, of 1 "plain_task 1 ''init'' 1 init_handles"])
    (use kernel_okD(8) [OF sample_ok, of 1 "plain_task 1 ''init'' 1 init_handles"] in
      \<open>simp_all add: sample_simps\<close>)

lemma empty_message_refs [simp]: "message_refs empty_message = {#}"
  by (simp add: message_refs_def empty_message_def cap_obj_def port_ref_def)

lemma woken_ok: "kernel_ok woken_kernel sample_refs"
proof -
  have c: "call_ok (Receive_Any 0 10 [3, 5]) (busy_kernel, sample_refs)"
    by (simp add: busy_kernel_def sample_simps can_receive_def unregistered_def)
  then obtain t tk where "k_threads busy_kernel 10 = Some t" "k_tasks busy_kernel (th_task t) = Some tk" "\<not> t_killing tk"
    by (auto simp: can_receive_def)
  then obtain r K where K: "ipc_recv_any 0 10 (map Some [3, 5]) busy_kernel = Some (r, K)"
    "kernel_ok K (sample_refs + taken_refs (first_pending busy_kernel 0 [3, 5]))" "receives 10 [3, 5] busy_kernel r K"
    using ipc_recv_any_ok [OF busy_ok, of "[3, 5]" 10 t tk 0] c by (auto simp: can_receive_def)
  have f: "first_pending busy_kernel 0 [3, 5] = None"
    by (simp add: pending_def busy_kernel_def sample_simps)
  note w = receives_waiting [OF K(3) f]
  have ok: "kernel_ok K sample_refs" using K(2) f by (simp add: taken_refs_def)
  obtain p where p: "k_ports K 3 = Some p"
    using fun_cong [OF w(2), of 3] by (auto simp: pending_def busy_kernel_def sample_simps)
  have d: "direct_receiver K 3 = Some 10" using w(4,5) by (auto simp: direct_receiver_def)
  have live: "message_live K sample_refs empty_message" by (simp add: message_live_def) (simp add: empty_message_def)
  have id: "task_id None K = Some 0" by (simp add: task_id_def)
  obtain r1 K1 where "ipc_send (quiet_cpu\<lparr>ce_scheduler := True\<rparr>) None (Some 3) empty_message K = Some (r1, K1)"
    "kernel_ok K1 sample_refs"
    using send_direct_ok [OF ok p live id d, of "quiet_cpu\<lparr>ce_scheduler := True\<rparr>"] by auto
  then show ?thesis
    using K(1) by (simp add: woken_kernel_def)
qed

theorem reaped_receiver_still_registered_witness:
  "\<exists>K1. Option.bind (kill_blocked_thread 10 woken_kernel) (cancel_ready_thread 10) = Some K1 \<and>
     ipc_send quiet_cpu (Some 2) (Some 5) empty_message K1 = None"
proof -
  have "k_threads woken_kernel 10 = Some \<lparr>th_state = THREAD_READY, th_task = 1, th_cpu = 0\<rparr>"
    "map_option t_thread_count (k_tasks woken_kernel 1) = Some 2" "receiver_of woken_kernel 5 = Some 10"
    by code_simp+
  moreover from this obtain tk where "k_tasks woken_kernel 1 = Some tk" "t_thread_count tk = 2" by auto
  ultimately show ?thesis
    using reaped_receiver_still_registered [OF woken_ok, of 10 _ tk 5 empty_message quiet_cpu "Some 2"]
    by (auto simp: empty_message_def)
qed



section \<open>Two receivers at one port\<close>

text \<open>
  C35. A port serves one waiting thread. If a second thread receives from a port at which one is
  already blocked, it takes the first one's place: the first stays blocked and no port knows it
  any more, so that no later message wakes it.
\<close>

theorem second_receiver_displaces_first:
  assumes ok: "kernel_ok K ext" and first: "waits_only_at th1 a K" "k_threads K th1 = Some t1" "th_state t1 = THREAD_BLOCKED"
    and c: "call_ok (Receive cpu th2 a) (K, ext)" and ne: "th2 \<noteq> th1" and empty: "pending K a = Some []"
  shows "\<exists>K'. ipc_recv cpu th2 (Some a) K = Some (Waiting, K') \<and> unregistered th1 K' \<and> k_threads K' th1 = Some t1"
proof -
  obtain p t tk where "k_ports K a = Some p" "unregistered th2 K" "k_threads K th2 = Some t"
    "k_tasks K (th_task t) = Some tk" "\<not> t_killing tk"
    using c by (auto simp: can_receive_def)
  then obtain r K' where K': "ipc_recv cpu th2 (Some a) K = Some (r, K')" "receives th2 [a] K r K'"
    using ipc_recv_ok [OF ok, of a p th2 t tk cpu] by blast
  have "first_pending K 0 [a] = None" using empty by simp
  note w = receives_waiting [OF K'(2) this]
  have "k_threads K' th1 = k_threads K th1"
    by (subst w(7)) (simp add: ne [symmetric])
  moreover have "unregistered th1 K'"
    using first(1) w(4) ne by (auto simp: unregistered_eq waits_only_at_def split: if_splits)
  ultimately show ?thesis using K'(1) w(1) first(2) by simp
qed

definition waiting_kernel :: kstate where
  "waiting_kernel = (case ipc_recv 0 10 (Some 3) sample_kernel of Some (_, K) \<Rightarrow> K | None \<Rightarrow> sample_kernel)"

theorem second_receiver_displaces_first_witness:
  "\<exists>K'. ipc_recv 0 11 (Some 3) waiting_kernel = Some (Waiting, K') \<and> unregistered 10 K'"
proof -
  obtain r K where K: "ipc_recv 0 10 (Some 3) sample_kernel = Some (r, K)" "kernel_ok K sample_refs"
    "receives 10 [3] sample_kernel r K"
    using ipc_recv_ok [OF sample_ok, of 3 _ 10 _ _ 0] sample_receive_ok sample_empty(1)
    by (fastforce simp: can_receive_def taken_refs_def)
  then have ok: "kernel_ok waiting_kernel sample_refs" and "waiting_kernel = K" by (simp_all add: waiting_kernel_def)
  have w: "direct_receiver waiting_kernel 3 = Some 10"
    "k_threads waiting_kernel 10 = Some \<lparr>th_state = THREAD_BLOCKED, th_task = 1, th_cpu = 0\<rparr>"
    "pending waiting_kernel 3 = Some []" by code_simp+
  have f: "first_pending sample_kernel 0 [3] = None" using sample_empty(1) by simp
  have reg: "receiver_of waiting_kernel = (\<lambda>a. if a \<in> set [3] then Some 10 else receiver_of sample_kernel a)"
    and same: "same_objects sample_kernel waiting_kernel"
    and thr: "k_threads waiting_kernel = (k_threads sample_kernel)(10 := k_threads waiting_kernel 10)"
    using receives_waiting [OF K(3) f] \<open>waiting_kernel = K\<close> by simp_all
  have none: "receiver_of sample_kernel b = None" for b
    by (simp add: receiver_of_def sample_simps)
  have "waits_only_at 10 3 waiting_kernel"
    using w(1) reg none by (auto simp: waits_only_at_def split: if_splits)
  moreover have "unregistered 11 waiting_kernel"
    using reg none by (auto simp: unregistered_eq split: if_splits)
  moreover have "k_threads waiting_kernel 11 = Some \<lparr>th_state = THREAD_RUNNING, th_task = 2, th_cpu = 0\<rparr>"
    by (subst thr) (simp add: sample_simps)
  moreover have "k_tasks waiting_kernel 2 = Some (plain_task 2 ''shell'' 2 [])"
    using same by (simp add: same_objects_def sample_simps)
  moreover have "k_ports waiting_kernel 3 \<noteq> None" using w(3) by (auto simp: pending_def)
  ultimately show ?thesis
    using second_receiver_displaces_first [OF ok _ w(2) _ _ _ w(3), of 0 11]
    by (auto simp: can_receive_def sample_parts)
qed


section \<open>Cloning a handle table\<close>




end
