(* ===== verification/Sched.thy ===== *)
theory Sched
  imports Objects "HOL-Library.Product_Lexorder"
begin

text \<open>
  The scheduler of \<^verbatim>\<open>kernel/sched.c\<close>: threads and processors, run queues linked through
  \<^verbatim>\<open>run_next\<close>, virtual run times and deadlines, placement on processors, the sleep list,
  and the calls that switch threads (\<^verbatim>\<open>sched_run\<close>, \<^verbatim>\<open>thread_yield\<close>, \<^verbatim>\<open>sched_tick\<close>,
  \<^verbatim>\<open>thread_block\<close>, \<^verbatim>\<open>thread_sleep_ticks\<close>, \<^verbatim>\<open>thread_unblock\<close>, \<^verbatim>\<open>thread_handoff\<close>,
  \<^verbatim>\<open>thread_exit\<close>).

  Threads are a store indexed by address; a run queue is a \<^verbatim>\<open>head\<close>, a \<^verbatim>\<open>tail\<close> and the
  \<^verbatim>\<open>run_next\<close> links of the threads. The chain of \<^verbatim>\<open>sleep_next\<close> links is the list
  \<open>s_sleep_list\<close>, the chain of \<^verbatim>\<open>task_next\<close> links the list \<open>ts_threads\<close>. A call that switches
  threads is a definition up to the change of \<^verbatim>\<open>cpu->current\<close>, and where a run queue lock is
  given up before that change it is a composition of two: another processor can act between
  them. \<open>s_ticks\<close> is the answer of \<^verbatim>\<open>timer_ticks\<close>. Console lines, register contexts and page
  table switches are left out; processor interrupts that are sent are collected in \<open>s_ipis\<close>
  and calls of \<^verbatim>\<open>task_release\<close> by the reaper in \<open>s_released\<close>.
\<close>

section \<open>State\<close>

abbreviation (input) MAX_CPUS :: u32 where "MAX_CPUS \<equiv> 8"
abbreviation (input) SCHED_STATS_CPUS :: u32 where "SCHED_STATS_CPUS \<equiv> 8"
abbreviation (input) SCHED_QUANTUM_TICKS :: u32 where "SCHED_QUANTUM_TICKS \<equiv> 5"
abbreviation (input) SCHED_BASE_WEIGHT :: u32 where "SCHED_BASE_WEIGHT \<equiv> 1024"
abbreviation (input) SCHED_BASE_SLICE_TICKS :: u64 where "SCHED_BASE_SLICE_TICKS \<equiv> 5"
abbreviation (input) SCHED_WAKE_BONUS_MAX_TICKS :: u64 where "SCHED_WAKE_BONUS_MAX_TICKS \<equiv> 20"
abbreviation (input) SCHED_IDLE_PULL_MIN_SOURCE_RUNQ :: u32 where
  "SCHED_IDLE_PULL_MIN_SOURCE_RUNQ \<equiv> 2"

abbreviation (input) SCHED_CLASS_KERNEL :: u32 where "SCHED_CLASS_KERNEL \<equiv> 1"
abbreviation (input) SCHED_CLASS_SERVER :: u32 where "SCHED_CLASS_SERVER \<equiv> 2"
abbreviation (input) SCHED_CLASS_USER :: u32 where "SCHED_CLASS_USER \<equiv> 3"
abbreviation (input) SCHED_CLASS_BATCH :: u32 where "SCHED_CLASS_BATCH \<equiv> 4"
abbreviation (input) SCHED_CLASS_IDLE :: u32 where "SCHED_CLASS_IDLE \<equiv> 5"

record thread =
  td_tid :: u32
  td_task :: "nat option"
  td_state :: thread_state
  td_cpu_id :: u32
  td_weight :: u32
  td_sched_class :: u32
  td_sched_priority :: u32
  td_affinity_mask :: u64
  td_run_next :: "nat option"
  td_wake_tick :: u64
  td_vruntime :: u64
  td_virtual_deadline :: u64
  td_eligible_time :: u64
  td_enqueue_seq :: u64
  td_enqueue_tick :: u64
  td_exec_start_tick :: u64
  td_blocked_since_tick :: u64
  td_wake_ready_tick :: u64
  td_total_runtime_ticks :: u64
  td_wakeups :: u64
  td_migrations :: u64
  td_preemptions :: u64

type_synonym threads = "nat \<Rightarrow> thread"

record run_queue =
  rq_head :: "nat option"
  rq_tail :: "nat option"
  rq_count :: u32
  rq_idle :: bool
  rq_min_vruntime :: u64
  rq_enqueue_seq :: u64

text \<open>\<open>c_scheduler\<close> is the address of the processor's own \<^verbatim>\<open>scheduler_thread\<close>.\<close>

record cpu_sched =
  c_id :: u32
  c_runq :: run_queue
  c_current :: nat
  c_reap :: "nat option"
  c_scheduler :: nat
  c_quantum_left :: u32
  c_handoff_depth :: u32

text \<open>What scheduling needs of a task.\<close>

record sched_task =
  ts_dead :: bool
  ts_killing :: bool
  ts_thread_count :: u32
  ts_threads :: "nat list"
  ts_ipc_affinity_cpu :: u32
  ts_ipc_affinity_valid :: bool
  ts_sched_class :: u32
  ts_sched_priority :: u32
  ts_sched_rights :: u32
  ts_sched_affinity_mask :: u64

text \<open>The counters of \<^verbatim>\<open>struct sched_stats\<close>, each a total and one value per processor.\<close>

datatype sched_stat =
    ENQUEUES
  | SWITCHES
  | WAKEUPS
  | PREEMPTIONS
  | MIGRATIONS
  | IDLE_PULLS
  | IDLE_MIGRATIONS
  | RUNTIME_TICKS
  | WAIT_TICKS
  | MAX_WAIT_TICKS
  | WAKE_TO_RUN_TICKS
  | MAX_WAKE_TO_RUN_TICKS

record sched =
  s_threads :: threads
  s_tasks :: "nat \<Rightarrow> sched_task"
  s_cpus :: "cpu_sched list"
  s_cpu_count :: u32
  s_next_auto_cpu :: u32
  s_next_tid :: u32
  s_preemption_enabled :: bool
  s_sleep_list :: "nat list"
  s_kernel_task :: nat
  s_ticks :: u64
  s_stats :: "sched_stat \<Rightarrow> u64"
  s_cpu_stats :: "sched_stat \<Rightarrow> u32 \<Rightarrow> u64"
  s_ipis :: "u32 list"
  s_released :: "nat list"
  s_allocs :: "bool list"
  s_next_addr :: nat

definition cpu_at :: "u32 \<Rightarrow> sched \<Rightarrow> cpu_sched" where
  "cpu_at c S = s_cpus S ! unat c"

definition upd_cpu :: "u32 \<Rightarrow> (cpu_sched \<Rightarrow> cpu_sched) \<Rightarrow> sched \<Rightarrow> sched" where
  "upd_cpu c f S = S\<lparr>s_cpus := (s_cpus S)[unat c := f (s_cpus S ! unat c)]\<rparr>"

definition upd_thread :: "nat \<Rightarrow> (thread \<Rightarrow> thread) \<Rightarrow> sched \<Rightarrow> sched" where
  "upd_thread t f S = S\<lparr>s_threads := (s_threads S)(t := f (s_threads S t))\<rparr>"

definition upd_runq :: "u32 \<Rightarrow> (run_queue \<Rightarrow> run_queue) \<Rightarrow> sched \<Rightarrow> sched" where
  "upd_runq c f = upd_cpu c (\<lambda>x. x\<lparr>c_runq := f (c_runq x)\<rparr>)"

definition cpu_bit :: "u32 \<Rightarrow> u64" where
  "cpu_bit c = push_bit (unat c) 1"


section \<open>Run queues\<close>

text \<open>
  A link is the address of a pointer: \<open>None\<close> is \<^verbatim>\<open>&runq->head\<close> and \<open>Some p\<close> is
  \<^verbatim>\<open>&p->run_next\<close>.
\<close>

definition link_get :: "threads \<Rightarrow> run_queue \<Rightarrow> nat option \<Rightarrow> nat option" where
  "link_get h q l = (case l of None \<Rightarrow> rq_head q | Some p \<Rightarrow> td_run_next (h p))"

definition set_run_next :: "nat \<Rightarrow> nat option \<Rightarrow> threads \<Rightarrow> threads" where
  "set_run_next p v h = h(p := (h p)\<lparr>td_run_next := v\<rparr>)"

definition link_set ::
  "nat option \<Rightarrow> nat option \<Rightarrow> threads \<Rightarrow> run_queue \<Rightarrow> threads \<times> run_queue" where
  "link_set l v h q =
     (case l of
        None \<Rightarrow> (h, q\<lparr>rq_head := v\<rparr>)
      | Some p \<Rightarrow> (set_run_next p v h, q))"

definition goes_after :: "thread \<Rightarrow> thread \<Rightarrow> bool" where
  "goes_after x y \<longleftrightarrow>
     td_virtual_deadline x > td_virtual_deadline y \<or>
     (td_virtual_deadline x = td_virtual_deadline y \<and> td_eligible_time x > td_eligible_time y) \<or>
     (td_virtual_deadline x = td_virtual_deadline y \<and> td_eligible_time x = td_eligible_time y \<and>
      td_enqueue_seq x > td_enqueue_seq y) \<or>
     (td_virtual_deadline x = td_virtual_deadline y \<and> td_eligible_time x = td_eligible_time y \<and>
      td_enqueue_seq x = td_enqueue_seq y \<and> td_tid x > td_tid y)"

partial_function (option) push_link ::
  "threads \<Rightarrow> run_queue \<Rightarrow> nat \<Rightarrow> nat option \<Rightarrow> nat option option" where
  "push_link h q t l =
     (case link_get h q l of
        None \<Rightarrow> Some l
      | Some queued \<Rightarrow>
          if \<not> goes_after (h t) (h queued) then Some l else push_link h q t (Some queued))"

declare push_link.simps [code]

definition runq_push :: "nat \<Rightarrow> threads \<Rightarrow> run_queue \<Rightarrow> (threads \<times> run_queue) option" where
  "runq_push t h q = do {
     let h1 = set_run_next t None h;
     l \<leftarrow> push_link h1 q t None;
     let h2 = set_run_next t (link_get h1 q l) h1;
     let (h3, q1) = link_set l (Some t) h2 q;
     let q2 = (if td_run_next (h3 t) = None then q1\<lparr>rq_tail := Some t\<rparr> else q1);
     let q3 = (if rq_tail q2 = None then q2\<lparr>rq_tail := Some t\<rparr> else q2);
     Some (h3, q3\<lparr>rq_count := rq_count q3 + 1\<rparr>)
   }"

definition runq_pop :: "threads \<Rightarrow> run_queue \<Rightarrow> nat option \<times> threads \<times> run_queue" where
  "runq_pop h q =
     (case rq_head q of
        None \<Rightarrow> (None, h, q)
      | Some t \<Rightarrow>
          let q1 = q\<lparr>rq_head := td_run_next (h t)\<rparr>;
              q2 = (if rq_head q1 = None then q1\<lparr>rq_tail := None\<rparr> else q1);
              h1 = set_run_next t None h;
              q3 = q2\<lparr>rq_count := rq_count q2 - 1\<rparr>
          in (Some t, h1,
              if td_vruntime (h1 t) > rq_min_vruntime q3
              then q3\<lparr>rq_min_vruntime := td_vruntime (h1 t)\<rparr> else q3))"

text \<open>The scan from the head that finds the new tail.\<close>

partial_function (option) last_of ::
  "threads \<Rightarrow> nat option \<Rightarrow> nat option \<Rightarrow> nat option option" where
  "last_of h scan tail_found =
     (case scan of
        None \<Rightarrow> Some tail_found
      | Some t \<Rightarrow> last_of h (td_run_next (h t)) (Some t))"

declare last_of.simps [code]

text \<open>The first link whose thread satisfies the condition.\<close>

partial_function (option) find_link ::
  "(nat \<Rightarrow> bool) \<Rightarrow> threads \<Rightarrow> run_queue \<Rightarrow> nat option \<Rightarrow> nat option option option" where
  "find_link P h q l =
     (case link_get h q l of
        None \<Rightarrow> Some None
      | Some t \<Rightarrow> if P t then Some (Some l) else find_link P h q (Some t))"

declare find_link.simps [code]

definition unlink :: "nat option \<Rightarrow> nat \<Rightarrow> threads \<Rightarrow> run_queue \<Rightarrow> (threads \<times> run_queue) option" where
  "unlink l t h q = do {
     let (h1, q1) = link_set l (td_run_next (h t)) h q;
     q2 \<leftarrow> (if rq_tail q1 = Some t
           then do { found \<leftarrow> last_of h1 (rq_head q1) None; Some (q1\<lparr>rq_tail := found\<rparr>) }
           else Some q1);
     Some (set_run_next t None h1,
           if rq_count q2 > 0 then q2\<lparr>rq_count := rq_count q2 - 1\<rparr> else q2)
   }"

definition runq_remove :: "nat \<Rightarrow> threads \<Rightarrow> run_queue \<Rightarrow> (bool \<times> threads \<times> run_queue) option" where
  "runq_remove t h q = do {
     found \<leftarrow> find_link (\<lambda>x. x = t) h q None;
     (case found of
        None \<Rightarrow> Some (False, h, q)
      | Some l \<Rightarrow> do { (h1, q1) \<leftarrow> unlink l t h q; Some (True, h1, q1) })
   }"

definition pull_eligible :: "thread \<Rightarrow> u32 \<Rightarrow> bool" where
  "pull_eligible x dst_cpu_id \<longleftrightarrow>
     (td_sched_class x = SCHED_CLASS_USER \<or> td_sched_class x = SCHED_CLASS_BATCH) \<and>
     td_affinity_mask x AND cpu_bit dst_cpu_id \<noteq> 0"

definition runq_remove_first_eligible ::
  "u32 \<Rightarrow> u32 \<Rightarrow> threads \<Rightarrow> run_queue \<Rightarrow> (nat option \<times> threads \<times> run_queue) option" where
  "runq_remove_first_eligible cpu_count dst_cpu_id h q =
     (if dst_cpu_id \<ge> cpu_count then Some (None, h, q)
      else do {
        found \<leftarrow> find_link (\<lambda>x. pull_eligible (h x) dst_cpu_id) h q None;
        (case found of
           None \<Rightarrow> Some (None, h, q)
         | Some l \<Rightarrow>
             (case link_get h q l of
                None \<Rightarrow> Some (None, h, q)
              | Some t \<Rightarrow> do { (h1, q1) \<leftarrow> unlink l t h q; Some (Some t, h1, q1) }))
      })"


section \<open>Virtual time and counters\<close>

definition sched_scale_delta :: "u64 \<Rightarrow> u32 \<Rightarrow> u64" where
  "sched_scale_delta delta weight =
     (let w = (if weight = 0 then SCHED_BASE_WEIGHT else weight)
      in (delta * ucast SCHED_BASE_WEIGHT + ucast w - 1) div ucast w)"

definition sched_refresh_deadline :: "thread \<Rightarrow> thread" where
  "sched_refresh_deadline x =
     (let slice = sched_scale_delta SCHED_BASE_SLICE_TICKS (td_weight x)
      in x\<lparr>td_eligible_time := td_vruntime x,
           td_virtual_deadline := td_vruntime x + (if slice \<noteq> 0 then slice else 1)\<rparr>)"

definition sched_stats_add_cpu :: "sched_stat \<Rightarrow> u32 \<Rightarrow> u64 \<Rightarrow> sched \<Rightarrow> sched" where
  "sched_stats_add_cpu st cpu_id v S =
     S\<lparr>s_stats := (s_stats S)(st := s_stats S st + v),
       s_cpu_stats := (if cpu_id < SCHED_STATS_CPUS
                       then (s_cpu_stats S)(st := (s_cpu_stats S st)(cpu_id := s_cpu_stats S st cpu_id + v))
                       else s_cpu_stats S)\<rparr>"

definition sched_stats_max_cpu :: "sched_stat \<Rightarrow> u32 \<Rightarrow> u64 \<Rightarrow> sched \<Rightarrow> sched" where
  "sched_stats_max_cpu st cpu_id v S =
     S\<lparr>s_stats := (if v > s_stats S st then (s_stats S)(st := v) else s_stats S),
       s_cpu_stats := (if cpu_id < SCHED_STATS_CPUS \<and> v > s_cpu_stats S st cpu_id
                       then (s_cpu_stats S)(st := (s_cpu_stats S st)(cpu_id := v))
                       else s_cpu_stats S)\<rparr>"

definition raise_min :: "u64 \<Rightarrow> run_queue \<Rightarrow> run_queue" where
  "raise_min v q = (if v > rq_min_vruntime q then q\<lparr>rq_min_vruntime := v\<rparr> else q)"

definition charge_thread :: "u64 \<Rightarrow> u64 \<Rightarrow> thread \<Rightarrow> thread" where
  "charge_thread now delta x =
     x\<lparr>td_exec_start_tick := now,
       td_total_runtime_ticks := td_total_runtime_ticks x + delta,
       td_vruntime := td_vruntime x + sched_scale_delta delta (td_weight x)\<rparr>"

definition sched_account_runtime :: "u32 \<Rightarrow> bool \<Rightarrow> sched \<Rightarrow> sched" where
  "sched_account_runtime c charge_min S =
     (let cpu = cpu_at c S;
          t = c_current cpu;
          x = s_threads S t;
          now = s_ticks S
      in if t = c_scheduler cpu \<or> td_state x \<noteq> THREAD_RUNNING then S
         else if td_exec_start_tick x = 0
         then upd_thread t (\<lambda>x. x\<lparr>td_exec_start_tick := now\<rparr>) S
         else if now \<le> td_exec_start_tick x \<and> \<not> charge_min then S
         else
           let delta = (if now \<le> td_exec_start_tick x then 1 else now - td_exec_start_tick x);
               S1 = upd_thread t (charge_thread now delta) S;
               S2 = sched_stats_add_cpu RUNTIME_TICKS (c_id cpu) delta S1;
               S3 = upd_runq c (raise_min (td_vruntime (s_threads S2 t))) S2
           in upd_thread t sched_refresh_deadline S3)"

definition note_wait :: "sched_stat \<Rightarrow> sched_stat \<Rightarrow> u32 \<Rightarrow> u64 \<Rightarrow> sched \<Rightarrow> sched" where
  "note_wait summed longest cpu_id since S =
     (if since \<noteq> 0 \<and> s_ticks S \<ge> since
      then sched_stats_max_cpu longest cpu_id (s_ticks S - since)
             (sched_stats_add_cpu summed cpu_id (s_ticks S - since) S)
      else S)"

definition sched_note_switch :: "u32 \<Rightarrow> nat \<Rightarrow> sched \<Rightarrow> sched" where
  "sched_note_switch c nxt S =
     (let cpu = cpu_at c S;
          x = s_threads S nxt
      in if nxt = c_scheduler cpu then S
         else upd_thread nxt
                (\<lambda>x. x\<lparr>td_enqueue_tick := 0, td_wake_ready_tick := 0, td_exec_start_tick := s_ticks S\<rparr>)
                (note_wait WAKE_TO_RUN_TICKS MAX_WAKE_TO_RUN_TICKS (c_id cpu) (td_wake_ready_tick x)
                  (note_wait WAIT_TICKS MAX_WAIT_TICKS (c_id cpu) (td_enqueue_tick x)
                    (sched_stats_add_cpu SWITCHES (c_id cpu) 1 S))))"

text \<open>The credit of a thread that wakes up, then its new place in virtual time.\<close>

definition slept_ticks :: "u64 \<Rightarrow> thread \<Rightarrow> u64" where
  "slept_ticks now x =
     (let slept = (if td_blocked_since_tick x \<noteq> 0 \<and> now > td_blocked_since_tick x
                   then now - td_blocked_since_tick x else 0)
      in if slept > SCHED_WAKE_BONUS_MAX_TICKS then SCHED_WAKE_BONUS_MAX_TICKS else slept)"

definition wake_credit :: "u64 \<Rightarrow> u64 \<Rightarrow> thread \<Rightarrow> thread" where
  "wake_credit now min_vruntime x =
     (let slept = slept_ticks now x;
          credit = sched_scale_delta slept (td_weight x);
          x1 = (if slept > 0
                then x\<lparr>td_vruntime := (if td_vruntime x > min_vruntime + credit
                                        then td_vruntime x - credit else min_vruntime)\<rparr>
                else x)
      in x1\<lparr>td_wakeups := td_wakeups x + 1, td_wake_ready_tick := now, td_blocked_since_tick := 0\<rparr>)"

definition prepared :: "u64 \<Rightarrow> run_queue \<Rightarrow> bool \<Rightarrow> thread \<Rightarrow> thread" where
  "prepared now q wakeup x =
     (let x1 = (if td_weight x = 0 then x\<lparr>td_weight := SCHED_BASE_WEIGHT\<rparr> else x);
          x2 = (if td_vruntime x1 < rq_min_vruntime q
                then x1\<lparr>td_vruntime := rq_min_vruntime q\<rparr> else x1);
          x3 = (if wakeup then wake_credit now (rq_min_vruntime q) x2 else x2)
      in sched_refresh_deadline
           (x3\<lparr>td_enqueue_seq := rq_enqueue_seq q + 1, td_enqueue_tick := now\<rparr>))"

definition sched_prepare_enqueue_locked :: "u32 \<Rightarrow> nat \<Rightarrow> bool \<Rightarrow> sched \<Rightarrow> sched" where
  "sched_prepare_enqueue_locked c t wakeup S =
     (let q = c_runq (cpu_at c S)
      in upd_runq c (\<lambda>q. q\<lparr>rq_enqueue_seq := rq_enqueue_seq q + 1\<rparr>)
           (upd_thread t (prepared (s_ticks S) q wakeup) S))"


section \<open>Processor masks and placement\<close>

fun online_loop :: "nat \<Rightarrow> u64" where
  "online_loop 0 = 0"
| "online_loop (Suc i) = online_loop i OR push_bit i 1"

definition sched_online_cpu_mask :: "sched \<Rightarrow> u64" where
  "sched_online_cpu_mask S = online_loop (min (unat (s_cpu_count S)) 64)"

definition sched_policy_valid_cpu_mask :: "u64 \<Rightarrow> sched \<Rightarrow> bool" where
  "sched_policy_valid_cpu_mask cmask S \<longleftrightarrow>
     cmask \<noteq> 0 \<and> cmask AND NOT (sched_online_cpu_mask S) = 0"

fun first_cpu_from :: "u64 \<Rightarrow> u32 list \<Rightarrow> u32" where
  "first_cpu_from cmask [] = 0"
| "first_cpu_from cmask (i # is) = (if cmask AND cpu_bit i \<noteq> 0 then i else first_cpu_from cmask is)"

definition cpu_ids :: "sched \<Rightarrow> u32 list" where
  "cpu_ids S = map of_nat [0..<unat (s_cpu_count S)]"

definition sched_policy_mask_first_cpu :: "u64 \<Rightarrow> sched \<Rightarrow> u32" where
  "sched_policy_mask_first_cpu cmask S = first_cpu_from cmask (take 64 (cpu_ids S))"

definition sched_cpu_load :: "u32 \<Rightarrow> sched \<Rightarrow> u32" where
  "sched_cpu_load c S =
     (let cpu = cpu_at c S
      in if c_current cpu \<noteq> c_scheduler cpu \<and> td_state (s_threads S (c_current cpu)) = THREAD_RUNNING
         then rq_count (c_runq cpu) + 1 else rq_count (c_runq cpu))"

fun least_loaded :: "u64 \<Rightarrow> sched \<Rightarrow> u32 list \<Rightarrow> u32 \<times> u32 \<Rightarrow> u32 \<times> u32" where
  "least_loaded cmask S [] best = best"
| "least_loaded cmask S (c # cs) (best_cpu, best_load) =
     (if cmask AND cpu_bit c = 0 then least_loaded cmask S cs (best_cpu, best_load)
      else let load = sched_cpu_load c S
           in least_loaded cmask S cs (if load < best_load then (c, load) else (best_cpu, best_load)))"

definition sched_select_auto_cpu_mask :: "u64 \<Rightarrow> sched \<Rightarrow> u32 \<times> sched" where
  "sched_select_auto_cpu_mask cmask S =
     (let m = (if sched_policy_valid_cpu_mask cmask S then cmask else sched_online_cpu_mask S);
          first = sched_policy_mask_first_cpu m S;
          scanned = map (\<lambda>i. (s_next_auto_cpu S + i) mod s_cpu_count S) (cpu_ids S);
          (best, _) = least_loaded m S scanned (first, sched_cpu_load first S)
      in (best, S\<lparr>s_next_auto_cpu := (best + 1) mod s_cpu_count S\<rparr>))"


section \<open>Enqueueing and pulling\<close>

definition push_on :: "u32 \<Rightarrow> nat \<Rightarrow> sched \<Rightarrow> sched option" where
  "push_on c t S = do {
     (h, q) \<leftarrow> runq_push t (s_threads S) (c_runq (cpu_at c S));
     Some (upd_runq c (\<lambda>_. q) (S\<lparr>s_threads := h\<rparr>))
   }"

definition send_ipi :: "u32 \<Rightarrow> sched \<Rightarrow> sched" where
  "send_ipi c S = S\<lparr>s_ipis := s_ipis S @ [c]\<rparr>"

definition sched_kick_idle_pullers :: "u32 \<Rightarrow> sched \<Rightarrow> sched" where
  "sched_kick_idle_pullers src S =
     (if s_cpu_count S < 2 then S
      else fold (\<lambda>c S. if c \<noteq> src \<and> rq_idle (c_runq (cpu_at c S))
                        then send_ipi (c_id (cpu_at c S)) S else S)
             (cpu_ids S) S)"

definition choose_queue :: "u32 \<Rightarrow> nat \<Rightarrow> sched \<Rightarrow> u32 \<times> sched" where
  "choose_queue c t S =
     (let cmask = td_affinity_mask (s_threads S t)
      in if cmask \<noteq> 0 \<and> cmask AND cpu_bit (c_id (cpu_at c S)) = 0
         then sched_select_auto_cpu_mask cmask S else (c, S))"

definition place_thread :: "u32 \<Rightarrow> nat \<Rightarrow> bool \<Rightarrow> sched \<Rightarrow> sched" where
  "place_thread d t wakeup S =
     (let cpu_id = c_id (cpu_at d S);
          old = s_threads S t;
          S1 = upd_thread t (\<lambda>x. x\<lparr>td_cpu_id := cpu_id, td_state := THREAD_READY\<rparr>) S;
          S2 = (if td_state old \<noteq> THREAD_EMPTY \<and> td_cpu_id old \<noteq> cpu_id
                then sched_stats_add_cpu MIGRATIONS cpu_id 1
                       (upd_thread t (\<lambda>x. x\<lparr>td_migrations := td_migrations x + 1\<rparr>) S1)
                else S1);
          S3 = sched_stats_add_cpu ENQUEUES cpu_id 1 (sched_prepare_enqueue_locked d t wakeup S2);
          S4 = (if wakeup then sched_stats_add_cpu WAKEUPS cpu_id 1 S3 else S3)
      in upd_runq d (\<lambda>q. q\<lparr>rq_idle := False\<rparr>) S4)"

text \<open>\<open>here\<close> is the processor that executes the call.\<close>

definition sched_enqueue_on_reason :: "u32 \<Rightarrow> u32 \<Rightarrow> nat \<Rightarrow> bool \<Rightarrow> sched \<Rightarrow> sched option" where
  "sched_enqueue_on_reason here c t wakeup S0 = do {
     let (d, S) = choose_queue c t S0;
     let cpu = cpu_at d S;
     S1 \<leftarrow> push_on d t (place_thread d t wakeup S);
     let S2 = (if c_id cpu \<noteq> c_id (cpu_at here S) \<and> rq_idle (c_runq cpu)
               then send_ipi (c_id cpu) S1 else S1);
     let x = s_threads S1 t;
     Some (if wakeup \<and> (td_sched_class x = SCHED_CLASS_USER \<or> td_sched_class x = SCHED_CLASS_BATCH) \<and>
              rq_count (c_runq (cpu_at d S1)) \<ge> SCHED_IDLE_PULL_MIN_SOURCE_RUNQ
           then sched_kick_idle_pullers d S2 else S2)
   }"

definition sched_enqueue_on :: "u32 \<Rightarrow> u32 \<Rightarrow> nat \<Rightarrow> sched \<Rightarrow> sched option" where
  "sched_enqueue_on here c t = sched_enqueue_on_reason here c t False"

definition has_eligible :: "u32 \<Rightarrow> u32 \<Rightarrow> sched \<Rightarrow> bool option" where
  "has_eligible c dst_id S =
     (if rq_count (c_runq (cpu_at c S)) \<ge> SCHED_IDLE_PULL_MIN_SOURCE_RUNQ
      then do {
        found \<leftarrow> find_link (\<lambda>x. pull_eligible (s_threads S x) dst_id) (s_threads S)
                  (c_runq (cpu_at c S)) None;
        Some (found \<noteq> None)
      }
      else Some False)"

fun pull_source :: "u32 \<Rightarrow> sched \<Rightarrow> u32 list \<Rightarrow> u32 \<times> u32 \<Rightarrow> u32 option" where
  "pull_source dst S [] (best_cpu, best_load) = Some best_cpu"
| "pull_source dst S (c # cs) (best_cpu, best_load) =
     (if c = dst then pull_source dst S cs (best_cpu, best_load)
      else do {
        eligible \<leftarrow> has_eligible c (c_id (cpu_at dst S)) S;
        let load = rq_count (c_runq (cpu_at c S));
        pull_source dst S cs (if eligible \<and> load > best_load then (c, load) else (best_cpu, best_load))
      })"

definition take_eligible :: "u32 \<Rightarrow> u32 \<Rightarrow> sched \<Rightarrow> (nat option \<times> sched) option" where
  "take_eligible src dst_id S =
     (if rq_count (c_runq (cpu_at src S)) \<ge> SCHED_IDLE_PULL_MIN_SOURCE_RUNQ
      then do {
        (found, h, q) \<leftarrow> runq_remove_first_eligible (s_cpu_count S) dst_id (s_threads S)
                            (c_runq (cpu_at src S));
        Some (found, upd_runq src (\<lambda>_. q) (S\<lparr>s_threads := h\<rparr>))
      }
      else Some (None, S))"

definition settle_pulled :: "u32 \<Rightarrow> nat \<Rightarrow> sched \<Rightarrow> sched" where
  "settle_pulled dst t S =
     (let dst_id = c_id (cpu_at dst S);
          min = rq_min_vruntime (c_runq (cpu_at dst S));
          S1 = (if td_vruntime (s_threads S t) < min
                then upd_thread t (\<lambda>x. sched_refresh_deadline (x\<lparr>td_vruntime := min\<rparr>)) S else S);
          S2 = upd_runq dst (\<lambda>q. q\<lparr>rq_idle := False\<rparr>) S1;
          S3 = upd_thread t (\<lambda>x. x\<lparr>td_cpu_id := dst_id, td_migrations := td_migrations x + 1\<rparr>) S2
      in sched_stats_add_cpu IDLE_MIGRATIONS dst_id 1
           (sched_stats_add_cpu IDLE_PULLS dst_id 1 (sched_stats_add_cpu MIGRATIONS dst_id 1 S3)))"

definition sched_idle_pull :: "u32 \<Rightarrow> sched \<Rightarrow> (nat option \<times> sched) option" where
  "sched_idle_pull dst S =
     (if s_cpu_count S < 2 then Some (None, S)
      else do {
        src \<leftarrow> pull_source dst S (cpu_ids S) (MAX_CPUS, 0);
        if src \<ge> s_cpu_count S then Some (None, S)
        else do {
          (found, S1) \<leftarrow> take_eligible src (c_id (cpu_at dst S)) S;
          (case found of
             None \<Rightarrow> Some (None, S1)
           | Some t \<Rightarrow> Some (Some t, settle_pulled dst t S1))
        }
      })"

end
