(* ===== verification/Sched_Switch.thy ===== *)
theory Sched_Switch
  imports Sched
begin

text \<open>
  The calls of \<^verbatim>\<open>kernel/sched.c\<close> that create, switch, block, wake and end threads. The
  first argument of a call is the processor that executes it. A call whose thread loses the
  processor is defined up to the context switch; \<open>switch_out\<close> is the change of
  \<^verbatim>\<open>cpu->current\<close> that precedes the switch. \<open>Exits\<close> is the answer of a call that ends its
  thread because its task is being killed.
\<close>

section \<open>Start\<close>

definition zeroed_thread :: thread where
  "zeroed_thread =
     \<lparr>td_tid = 0, td_task = None, td_state = THREAD_EMPTY, td_cpu_id = 0, td_weight = 0,
      td_sched_class = 0, td_sched_priority = 0, td_affinity_mask = 0, td_run_next = None,
      td_wake_tick = 0, td_vruntime = 0, td_virtual_deadline = 0, td_eligible_time = 0,
      td_enqueue_seq = 0, td_enqueue_tick = 0, td_exec_start_tick = 0, td_blocked_since_tick = 0,
      td_wake_ready_tick = 0, td_total_runtime_ticks = 0, td_wakeups = 0, td_migrations = 0,
      td_preemptions = 0\<rparr>"

definition scheduler_thread :: "nat \<Rightarrow> u32 \<Rightarrow> thread" where
  "scheduler_thread ktask i =
     zeroed_thread\<lparr>td_task := Some ktask, td_state := THREAD_RUNNING, td_cpu_id := i,
       td_weight := SCHED_BASE_WEIGHT, td_sched_class := SCHED_CLASS_KERNEL, td_affinity_mask := cpu_bit i\<rparr>"

text \<open>The scheduler thread of processor \<open>i\<close> is static storage; its address is \<open>i\<close> here.\<close>

definition initial_cpu :: "nat \<Rightarrow> cpu_sched" where
  "initial_cpu i =
     \<lparr>c_id = of_nat i,
      c_runq = \<lparr>rq_head = None, rq_tail = None, rq_count = 0, rq_idle = False, rq_min_vruntime = 0,
                rq_enqueue_seq = 0\<rparr>,
      c_current = i, c_reap = None, c_scheduler = i, c_quantum_left = SCHED_QUANTUM_TICKS,
      c_handoff_depth = 0\<rparr>"

definition initial_kernel_task :: "u64 \<Rightarrow> sched_task" where
  "initial_kernel_task affinity =
     \<lparr>ts_dead = False, ts_killing = False, ts_thread_count = 1, ts_threads = [],
      ts_ipc_affinity_cpu = 0, ts_ipc_affinity_valid = False, ts_sched_class = SCHED_CLASS_KERNEL,
      ts_sched_priority = 0, ts_sched_rights = 30, ts_sched_affinity_mask = affinity\<rparr>"

definition sched_init :: "u32 \<Rightarrow> nat \<Rightarrow> sched \<Rightarrow> sched" where
  "sched_init cpu_count ktask S =
     (let n = (if cpu_count > MAX_CPUS then MAX_CPUS else cpu_count);
          S1 = S\<lparr>s_cpu_count := n, s_cpus := map initial_cpu [0..<unat n], s_kernel_task := ktask,
                 s_threads := (\<lambda>t. if t < unat n then scheduler_thread ktask (of_nat t) else s_threads S t),
                 s_next_auto_cpu := 0\<rparr>
      in S1\<lparr>s_tasks := (s_tasks S1)(ktask := initial_kernel_task (sched_online_cpu_mask S1))\<rparr>)"

text \<open>Static storage before start-up, with the tasks and the allocator's answers to come.\<close>

definition sched_static :: "(nat \<Rightarrow> sched_task) \<Rightarrow> bool list \<Rightarrow> sched" where
  "sched_static tasks allocs =
     \<lparr>s_threads = (\<lambda>_. zeroed_thread), s_tasks = tasks, s_cpus = [], s_cpu_count = 1,
      s_next_auto_cpu = 0, s_next_tid = 1, s_preemption_enabled = False, s_sleep_list = [],
      s_kernel_task = 0, s_ticks = 0, s_stats = (\<lambda>_. 0), s_cpu_stats = (\<lambda>_ _. 0), s_ipis = [],
      s_released = [], s_allocs = allocs, s_next_addr = unat MAX_CPUS\<rparr>"


section \<open>Creation\<close>

definition task_set_ipc_affinity :: "nat \<Rightarrow> u32 \<Rightarrow> sched \<Rightarrow> sched" where
  "task_set_ipc_affinity a cpu_id S =
     (if cpu_id \<ge> s_cpu_count S \<or> ts_thread_count (s_tasks S a) \<noteq> 0 then S
      else S\<lparr>s_tasks := (s_tasks S)(a := (s_tasks S a)\<lparr>ts_ipc_affinity_cpu := cpu_id,
                                                        ts_ipc_affinity_valid := True\<rparr>)\<rparr>)"

definition task_set_sched_policy :: "nat \<Rightarrow> u32 \<Rightarrow> u32 \<Rightarrow> u32 \<Rightarrow> sched \<Rightarrow> sched" where
  "task_set_sched_policy a cls priority rights S =
     (if cls < SCHED_CLASS_KERNEL \<or> cls > SCHED_CLASS_IDLE then S
      else S\<lparr>s_tasks := (s_tasks S)(a := (s_tasks S a)\<lparr>ts_sched_class := cls,
               ts_sched_priority := priority, ts_sched_rights := rights\<rparr>)\<rparr>)"

definition task_inherit_sched_policy :: "nat \<Rightarrow> nat \<Rightarrow> sched \<Rightarrow> sched" where
  "task_inherit_sched_policy dst src S =
     (let x = s_tasks S src;
          S1 = task_set_sched_policy dst (ts_sched_class x) (ts_sched_priority x) (ts_sched_rights x) S;
          cmask = (if sched_policy_valid_cpu_mask (ts_sched_affinity_mask x) S1
                  then ts_sched_affinity_mask x else sched_online_cpu_mask S1)
      in S1\<lparr>s_tasks := (s_tasks S1)(dst := (s_tasks S1 dst)\<lparr>ts_sched_affinity_mask := cmask\<rparr>)\<rparr>)"

definition task_select_cpu :: "nat option \<Rightarrow> sched \<Rightarrow> u32 \<times> sched" where
  "task_select_cpu task S =
     (case task of
        None \<Rightarrow> sched_select_auto_cpu_mask (sched_online_cpu_mask S) S
      | Some a \<Rightarrow>
          let x = s_tasks S a
          in if ts_ipc_affinity_valid x \<and> ts_ipc_affinity_cpu x < s_cpu_count S \<and>
                ts_sched_affinity_mask x AND cpu_bit (ts_ipc_affinity_cpu x) \<noteq> 0
             then (ts_ipc_affinity_cpu x, S)
             else sched_select_auto_cpu_mask (ts_sched_affinity_mask x) S)"

definition new_thread :: "nat \<Rightarrow> sched \<Rightarrow> thread" where
  "new_thread a S =
     zeroed_thread\<lparr>td_tid := s_next_tid S, td_task := Some a, td_weight := SCHED_BASE_WEIGHT,
       td_sched_class := ts_sched_class (s_tasks S a),
       td_sched_priority := ts_sched_priority (s_tasks S a),
       td_affinity_mask := (if sched_policy_valid_cpu_mask (ts_sched_affinity_mask (s_tasks S a)) S
                            then ts_sched_affinity_mask (s_tasks S a) else sched_online_cpu_mask S)\<rparr>"

definition link_new_thread :: "nat \<Rightarrow> nat \<Rightarrow> sched \<Rightarrow> sched" where
  "link_new_thread t a S =
     S\<lparr>s_next_addr := t + 1, s_next_tid := s_next_tid S + 1,
       s_threads := (s_threads S)(t := new_thread a S),
       s_tasks := (s_tasks S)(a := (s_tasks S a)\<lparr>ts_threads := t # ts_threads (s_tasks S a),
                                 ts_thread_count := ts_thread_count (s_tasks S a) + 1\<rparr>)\<rparr>"

definition thread_create_placed ::
  "u32 \<Rightarrow> nat option \<Rightarrow> u32 \<Rightarrow> sched \<Rightarrow> (nat option \<times> sched) option" where
  "thread_create_placed here task cpu_id S =
     (case task of
        None \<Rightarrow> Some (None, S)
      | Some a \<Rightarrow>
          if ts_dead (s_tasks S a) \<or> ts_killing (s_tasks S a) then Some (None, S)
          else if s_allocs S = [] \<or> \<not> hd (s_allocs S)
          then Some (None, S\<lparr>s_allocs := tl (s_allocs S)\<rparr>)
          else do {
            let t = s_next_addr S;
            let S1 = link_new_thread t a (S\<lparr>s_allocs := tl (s_allocs S)\<rparr>);
            let (c, S2) = (if td_affinity_mask (s_threads S1 t) AND cpu_bit cpu_id = 0
                           then sched_select_auto_cpu_mask (td_affinity_mask (s_threads S1 t)) S1
                           else (cpu_id, S1));
            S3 \<leftarrow> sched_enqueue_on here c t S2;
            Some (Some t, S3)
          })"

definition thread_create :: "u32 \<Rightarrow> nat option \<Rightarrow> sched \<Rightarrow> (nat option \<times> sched) option" where
  "thread_create here task S =
     (let (c, S1) = task_select_cpu task S in thread_create_placed here task c S1)"

definition thread_create_on_cpu ::
  "u32 \<Rightarrow> nat option \<Rightarrow> u32 \<Rightarrow> sched \<Rightarrow> (nat option \<times> sched) option" where
  "thread_create_on_cpu here task cpu_id S =
     thread_create_placed here task (if cpu_id \<ge> s_cpu_count S then 0 else cpu_id) S"


section \<open>Running, yielding and pre-emption\<close>

definition current_killing :: "u32 \<Rightarrow> sched \<Rightarrow> bool" where
  "current_killing c S \<longleftrightarrow>
     (case td_task (s_threads S (c_current (cpu_at c S))) of
        None \<Rightarrow> False | Some a \<Rightarrow> ts_killing (s_tasks S a))"

definition emptied :: "thread \<Rightarrow> thread" where
  "emptied x =
     zeroed_thread\<lparr>td_weight := td_weight x, td_sched_class := td_sched_class x,
       td_sched_priority := td_sched_priority x, td_affinity_mask := td_affinity_mask x\<rparr>"

definition reap_thread :: "nat option \<Rightarrow> sched \<Rightarrow> sched" where
  "reap_thread thread S =
     (case thread of
        None \<Rightarrow> S
      | Some t \<Rightarrow>
          (case td_task (s_threads S t) of
             None \<Rightarrow> S
           | Some a \<Rightarrow>
               if td_state (s_threads S t) \<noteq> THREAD_DEAD then S
               else
                 let x = s_tasks S a;
                     left = (if ts_thread_count x > 0 then ts_thread_count x - 1 else ts_thread_count x);
                     teardown = (left = 0 \<and> a \<noteq> s_kernel_task S)
                 in S\<lparr>s_tasks := (s_tasks S)(a := x\<lparr>ts_threads := remove1 t (ts_threads x),
                                   ts_thread_count := left, ts_dead := (ts_dead x \<or> teardown)\<rparr>),
                      s_threads := (s_threads S)(t := emptied (s_threads S t)),
                      s_released := (if teardown then s_released S @ [a] else s_released S)\<rparr>))"

definition sched_reset_quantum :: "u32 \<Rightarrow> sched \<Rightarrow> sched" where
  "sched_reset_quantum c = upd_cpu c (\<lambda>x. x\<lparr>c_quantum_left := SCHED_QUANTUM_TICKS\<rparr>)"

definition switch_to :: "u32 \<Rightarrow> nat \<Rightarrow> sched \<Rightarrow> sched" where
  "switch_to c t S =
     sched_reset_quantum c
       (upd_cpu c (\<lambda>x. x\<lparr>c_current := t\<rparr>)
         (sched_note_switch c t (upd_thread t (\<lambda>x. x\<lparr>td_state := THREAD_RUNNING\<rparr>) S)))"

definition switch_out :: "u32 \<Rightarrow> sched \<Rightarrow> sched" where
  "switch_out c = upd_cpu c (\<lambda>x. x\<lparr>c_current := c_scheduler x\<rparr>)"

definition next_thread :: "u32 \<Rightarrow> sched \<Rightarrow> (nat option \<times> sched) option" where
  "next_thread c S =
     (let (found, h, q) = runq_pop (s_threads S) (c_runq (cpu_at c S));
          S1 = upd_runq c (\<lambda>_. q) (S\<lparr>s_threads := h\<rparr>)
      in if found = None then sched_idle_pull c S1 else Some (found, S1))"

text \<open>
  One run of the loop body of \<^verbatim>\<open>sched_run\<close> up to the context switch, repeated while the
  thread found belongs to a task that is being killed. The answer is the thread switched to.
\<close>

partial_function (option) sched_run :: "u32 \<Rightarrow> sched \<Rightarrow> (nat option \<times> sched) option" where
  "sched_run c S = do {
     (found, S1) \<leftarrow> next_thread c S;
     (case found of
        None \<Rightarrow> Some (None, S1)
      | Some t \<Rightarrow>
          (case td_task (s_threads S1 t) of
             None \<Rightarrow> Some (Some t, switch_to c t S1)
           | Some a \<Rightarrow>
               if ts_killing (s_tasks S1 a)
               then sched_run c (reap_thread (Some t)
                      (upd_thread t (\<lambda>x. x\<lparr>td_state := THREAD_DEAD\<rparr>) S1))
               else Some (Some t, switch_to c t S1)))
   }"

declare sched_run.simps [code]

text \<open>What \<^verbatim>\<open>sched_run\<close> does when a switch comes back to the scheduler's own thread.\<close>

definition sched_run_resume :: "u32 \<Rightarrow> sched \<Rightarrow> sched" where
  "sched_run_resume c S =
     reap_thread (c_reap (cpu_at c S)) (upd_cpu c (\<lambda>x. x\<lparr>c_reap := None\<rparr>) S)"

definition sched_idle_wait :: "u32 \<Rightarrow> sched \<Rightarrow> sched" where
  "sched_idle_wait c S = upd_runq c (\<lambda>q. q\<lparr>rq_idle := (rq_count q = 0)\<rparr>) S"

definition thread_exit :: "u32 \<Rightarrow> sched \<Rightarrow> sched" where
  "thread_exit c S =
     (let t = c_current (cpu_at c S)
      in switch_out c
           (upd_cpu c (\<lambda>x. x\<lparr>c_reap := Some t\<rparr>)
             (upd_thread t (\<lambda>x. x\<lparr>td_state := THREAD_DEAD\<rparr>) (sched_account_runtime c True S))))"

text \<open>
  \<open>yield_enqueue\<close> is \<^verbatim>\<open>thread_yield\<close> of a thread other than the scheduler's, until the lock of
  the run queue is given up.
\<close>

definition yield_enqueue :: "u32 \<Rightarrow> sched \<Rightarrow> sched option" where
  "yield_enqueue c S =
     sched_enqueue_on c c (c_current (cpu_at c S)) (sched_account_runtime c True S)"

definition thread_yield :: "u32 \<Rightarrow> sched \<Rightarrow> sched option" where
  "thread_yield c S =
     (if c_current (cpu_at c S) = c_scheduler (cpu_at c S)
      then do { (_, S1) \<leftarrow> sched_run c S; Some S1 }
      else if current_killing c S then Some (thread_exit c S)
      else do { S1 \<leftarrow> yield_enqueue c S; Some (switch_out c S1) })"

text \<open>\<open>True\<close>: the thread has been put into the run queue and loses the processor.\<close>

definition tick_enqueue :: "u32 \<Rightarrow> sched \<Rightarrow> (bool \<times> sched) option" where
  "tick_enqueue c S =
     (let cpu = cpu_at c S; t = c_current cpu
      in if \<not> s_preemption_enabled S \<or> t = c_scheduler cpu \<or>
            td_state (s_threads S t) \<noteq> THREAD_RUNNING \<or> rq_count (c_runq cpu) = 0
         then Some (False, S)
         else let S1 = sched_account_runtime c False S
              in if c_quantum_left (cpu_at c S1) > 1
                 then Some (False, upd_cpu c (\<lambda>x. x\<lparr>c_quantum_left := c_quantum_left x - 1\<rparr>) S1)
                 else do {
                   S2 \<leftarrow> sched_enqueue_on c c t
                     (sched_reset_quantum c
                       (sched_stats_add_cpu PREEMPTIONS (c_id cpu) 1
                         (upd_thread t (\<lambda>x. x\<lparr>td_preemptions := td_preemptions x + 1\<rparr>) S1)));
                   Some (True, S2)
                 })"

definition sched_tick :: "u32 \<Rightarrow> sched \<Rightarrow> sched option" where
  "sched_tick c S = do {
     (preempted, S1) \<leftarrow> tick_enqueue c S;
     Some (if preempted then switch_out c S1 else S1)
   }"

definition sched_enable_preemption :: "sched \<Rightarrow> sched" where
  "sched_enable_preemption S = S\<lparr>s_preemption_enabled := True\<rparr>"


section \<open>Blocking, sleeping and waking\<close>

datatype blocking = Blocks | Returns | Exits

definition prepare_block :: "u32 \<Rightarrow> sched \<Rightarrow> blocking \<times> sched" where
  "prepare_block c S =
     (let t = c_current (cpu_at c S)
      in if t = c_scheduler (cpu_at c S) then (Returns, S)
         else if current_killing c S then (Exits, thread_exit c S)
         else (Blocks,
               upd_thread t (\<lambda>x. x\<lparr>td_blocked_since_tick := s_ticks S, td_state := THREAD_BLOCKED\<rparr>)
                 (sched_account_runtime c True S)))"

definition thread_block_prepared :: "u32 \<Rightarrow> sched \<Rightarrow> sched" where
  "thread_block_prepared c S =
     (if c_current (cpu_at c S) = c_scheduler (cpu_at c S) then S else switch_out c S)"

definition thread_block :: "u32 \<Rightarrow> sched \<Rightarrow> sched" where
  "thread_block c S =
     (case prepare_block c S of
        (Exits, S1) \<Rightarrow> S1
      | (_, S1) \<Rightarrow> thread_block_prepared c S1)"

fun sleep_insert :: "threads \<Rightarrow> u64 \<Rightarrow> nat \<Rightarrow> nat list \<Rightarrow> nat list" where
  "sleep_insert h wake_tick t [] = [t]"
| "sleep_insert h wake_tick t (x # xs) =
     (if td_wake_tick (h x) \<le> wake_tick then x # sleep_insert h wake_tick t xs else t # x # xs)"

definition sleep_enqueue :: "u32 \<Rightarrow> u64 \<Rightarrow> sched \<Rightarrow> sched" where
  "sleep_enqueue c ticks S =
     (let t = c_current (cpu_at c S);
          S1 = sched_account_runtime c True S;
          S2 = upd_thread t (\<lambda>x. x\<lparr>td_wake_tick := s_ticks S1 + ticks,
                                    td_blocked_since_tick := s_ticks S1\<rparr>) S1
      in upd_thread t (\<lambda>x. x\<lparr>td_state := THREAD_BLOCKED\<rparr>)
           (S2\<lparr>s_sleep_list := sleep_insert (s_threads S2) (td_wake_tick (s_threads S2 t)) t
                                  (s_sleep_list S2)\<rparr>))"

definition thread_sleep_ticks :: "u32 \<Rightarrow> u64 \<Rightarrow> sched \<Rightarrow> sched option" where
  "thread_sleep_ticks c ticks S =
     (if ticks = 0 then thread_yield c S
      else if c_current (cpu_at c S) = c_scheduler (cpu_at c S) then Some S
      else if current_killing c S then Some (thread_exit c S)
      else Some (switch_out c (sleep_enqueue c ticks S)))"

definition unblock :: "u32 \<Rightarrow> nat \<Rightarrow> sched \<Rightarrow> sched option" where
  "unblock here t S =
     (if td_state (s_threads S t) \<noteq> THREAD_BLOCKED then Some S
      else sched_enqueue_on_reason here (td_cpu_id (s_threads S t)) t True S)"

text \<open>
  The first loop of \<^verbatim>\<open>sched_wake_sleepers\<close> takes the threads that are due from the sleep list
  and stacks them on \<^verbatim>\<open>ready\<close>; the second wakes them in that order.
\<close>

fun take_due :: "threads \<Rightarrow> u64 \<Rightarrow> nat list \<Rightarrow> nat list \<Rightarrow> nat list \<times> nat list" where
  "take_due h now [] ready = (ready, [])"
| "take_due h now (x # xs) ready =
     (if td_wake_tick (h x) > now
      then (let (r, rest) = take_due h now xs ready in (r, x # rest))
      else take_due h now xs (x # ready))"

fun wake_all :: "u32 \<Rightarrow> nat list \<Rightarrow> sched \<Rightarrow> sched option" where
  "wake_all here [] S = Some S"
| "wake_all here (t # ts) S = do {
     S1 \<leftarrow> unblock here t (upd_thread t (\<lambda>x. x\<lparr>td_wake_tick := 0\<rparr>) S);
     wake_all here ts S1
   }"

definition sched_wake_sleepers :: "u32 \<Rightarrow> u64 \<Rightarrow> sched \<Rightarrow> sched option" where
  "sched_wake_sleepers here now S =
     (let (ready, rest) = take_due (s_threads S) now (s_sleep_list S) []
      in wake_all here ready (S\<lparr>s_sleep_list := rest\<rparr>))"

definition sched_cancel_sleep :: "nat \<Rightarrow> sched \<Rightarrow> sched" where
  "sched_cancel_sleep t S =
     (if t \<in> set (s_sleep_list S)
      then upd_thread t (\<lambda>x. x\<lparr>td_wake_tick := 0\<rparr>) (S\<lparr>s_sleep_list := remove1 t (s_sleep_list S)\<rparr>)
      else S)"

datatype handoff_result = HANDOFF_INVALID | HANDOFF_SCHEDULER | HANDOFF_CROSS_CPU | HANDOFF_NESTED
  | HANDOFF_EXITS | HANDOFF_DIRECT

definition handoff_wake :: "nat \<Rightarrow> u32 \<Rightarrow> sched \<Rightarrow> sched" where
  "handoff_wake t cpu_id S =
     sched_stats_add_cpu WAKEUPS cpu_id 1
       (upd_thread t (\<lambda>x. x\<lparr>td_state := THREAD_RUNNING, td_blocked_since_tick := 0,
          td_enqueue_tick := 0, td_wake_ready_tick := s_ticks S, td_wakeups := td_wakeups x + 1\<rparr>) S)"

definition sched_handoff :: "u32 \<Rightarrow> nat option \<Rightarrow> sched \<Rightarrow> (handoff_result \<times> sched) option" where
  "sched_handoff c thread S =
     (let cpu = cpu_at c S; prev = c_current cpu
      in case thread of
           None \<Rightarrow> Some (HANDOFF_INVALID, S)
         | Some t \<Rightarrow>
             if td_state (s_threads S t) \<noteq> THREAD_BLOCKED then Some (HANDOFF_INVALID, S)
             else if prev = c_scheduler cpu
             then do { S1 \<leftarrow> unblock c t S; Some (HANDOFF_SCHEDULER, S1) }
             else if td_cpu_id (s_threads S t) \<noteq> c_id cpu
             then do { S1 \<leftarrow> unblock c t S; Some (HANDOFF_CROSS_CPU, S1) }
             else if c_handoff_depth cpu \<noteq> 0
             then do { S1 \<leftarrow> unblock c t S; Some (HANDOFF_NESTED, S1) }
             else if current_killing c S
             then do { S1 \<leftarrow> unblock c t S; Some (HANDOFF_EXITS, thread_exit c S1) }
             else do {
               S1 \<leftarrow> sched_enqueue_on c c prev (sched_account_runtime c True S);
               Some (HANDOFF_DIRECT,
                 upd_cpu c (\<lambda>x. x\<lparr>c_handoff_depth := c_handoff_depth x + 1\<rparr>)
                   (sched_reset_quantum c
                     (upd_cpu c (\<lambda>x. x\<lparr>c_current := t\<rparr>)
                       (sched_note_switch c t (handoff_wake t (c_id cpu) S1)))))
             })"

text \<open>The threads of a task that are ready to run, removed from the run queues one by one.\<close>

definition cancel_ready_on :: "nat \<Rightarrow> u32 \<Rightarrow> sched \<Rightarrow> (bool \<times> sched) option" where
  "cancel_ready_on a c S = do {
     let q = c_runq (cpu_at c S);
     found \<leftarrow> find_link (\<lambda>x. td_task (s_threads S x) = Some a \<and>
                             td_state (s_threads S x) = THREAD_READY) (s_threads S) q None;
     (case found of
        None \<Rightarrow> Some (False, S)
      | Some l \<Rightarrow>
          (case link_get (s_threads S) q l of
             None \<Rightarrow> Some (False, S)
           | Some t \<Rightarrow> do {
               (_, h, q1) \<leftarrow> runq_remove t (s_threads S) q;
               Some (True, reap_thread (Some t)
                 (upd_thread t (\<lambda>x. x\<lparr>td_state := THREAD_DEAD\<rparr>)
                   (upd_runq c (\<lambda>_. q1) (S\<lparr>s_threads := h\<rparr>))))
             }))
   }"

fun cancel_ready_scan :: "nat \<Rightarrow> u32 list \<Rightarrow> sched \<Rightarrow> (bool \<times> sched) option" where
  "cancel_ready_scan a [] S = Some (False, S)"
| "cancel_ready_scan a (c # cs) S = do {
     (removed, S1) \<leftarrow> cancel_ready_on a c S;
     if removed then Some (True, S1) else cancel_ready_scan a cs S1
   }"

definition sched_cancel_ready_task :: "nat \<Rightarrow> sched \<Rightarrow> (bool \<times> sched) option" where
  "sched_cancel_ready_task a S = cancel_ready_scan a (cpu_ids S) S"

end
