(* ===== verification/Sched_Queue.thy ===== *)
theory Sched_Queue
  imports Sched_Switch "HOL-Library.Multiset"
begin

text \<open>
  Run queues as sorted lists. A run queue holds a list when the chain of \<^verbatim>\<open>run_next\<close> links
  from its head gives that list and \<^verbatim>\<open>tail\<close> and \<^verbatim>\<open>count\<close> agree with it. Pushing is
  insertion by virtual deadline, eligible time, sequence number and thread id; popping takes
  the first, removing takes out one. The locale \<open>ordered_queue\<close> is the contract the
  scheduler relies on.
\<close>

section \<open>Chains of links\<close>

definition thread_key :: "thread \<Rightarrow> u64 \<times> u64 \<times> u64 \<times> u32" where
  "thread_key x = (td_virtual_deadline x, td_eligible_time x, td_enqueue_seq x, td_tid x)"

lemma goes_after_key: "goes_after x y \<longleftrightarrow> thread_key y < thread_key x"
  by (auto simp: goes_after_def thread_key_def less_prod_def')

fun seg :: "threads \<Rightarrow> nat option \<Rightarrow> nat list \<Rightarrow> nat option \<Rightarrow> bool" where
  "seg h p [] r \<longleftrightarrow> p = r"
| "seg h p (x # xs) r \<longleftrightarrow> p = Some x \<and> seg h (td_run_next (h x)) xs r"

lemma seg_append [simp]: "seg h p (xs @ ys) r \<longleftrightarrow> (\<exists>m. seg h p xs m \<and> seg h m ys r)"
  by (induction xs arbitrary: p) auto

lemma seg_cong:
  assumes "\<And>x. x \<in> set xs \<Longrightarrow> td_run_next (h' x) = td_run_next (h x)"
  shows "seg h' p xs r = seg h p xs r"
  using assms by (induction xs arbitrary: p) auto

lemma seg_set_run_next [simp]: "t \<notin> set xs \<Longrightarrow> seg (set_run_next t v h) p xs r = seg h p xs r"
  by (rule seg_cong) (auto simp: set_run_next_def)

lemma set_run_next_simps [simp]:
  "td_run_next (set_run_next t v h x) = (if x = t then v else td_run_next (h x))"
  "thread_key (set_run_next t v h x) = thread_key (h x)"
  "td_state (set_run_next t v h x) = td_state (h x)"
  "td_cpu_id (set_run_next t v h x) = td_cpu_id (h x)"
  by (simp_all add: set_run_next_def thread_key_def)

definition link_of :: "nat list \<Rightarrow> nat option" where
  "link_of xs = (if xs = [] then None else Some (last xs))"

lemma link_of_simps [simp]: "link_of [] = None" "link_of (xs @ [x]) = Some x"
  by (simp_all add: link_of_def)

lemma link_of_None [simp]: "link_of xs = None \<longleftrightarrow> xs = []"
  by (simp add: link_of_def)

lemma link_get_after: "seg h (rq_head q) xs m \<Longrightarrow> link_get h q (link_of xs) = m"
  by (cases xs rule: rev_exhaust) (auto simp: link_get_def)

text \<open>Only links differ.\<close>

definition links_only :: "threads \<Rightarrow> threads \<Rightarrow> bool" where
  "links_only h h' \<longleftrightarrow> (\<forall>x. (h' x)\<lparr>td_run_next := None\<rparr> = (h x)\<lparr>td_run_next := None\<rparr>)"

lemma links_only_refl [simp]: "links_only h h"
  by (simp add: links_only_def)

lemma links_only_trans [trans]: "links_only h h' \<Longrightarrow> links_only h' h'' \<Longrightarrow> links_only h h''"
  by (simp add: links_only_def)

lemma links_only_set [simp]: "links_only h (set_run_next t v h)"
  by (simp add: links_only_def set_run_next_def)

lemma links_only_fields:
  assumes "links_only h h'"
  shows "thread_key (h' x) = thread_key (h x)" "td_state (h' x) = td_state (h x)"
    "td_cpu_id (h' x) = td_cpu_id (h x)" "td_vruntime (h' x) = td_vruntime (h x)"
    "td_task (h' x) = td_task (h x)" "td_affinity_mask (h' x) = td_affinity_mask (h x)"
    "td_sched_class (h' x) = td_sched_class (h x)" "td_wake_tick (h' x) = td_wake_tick (h x)"
proof -
  have eq: "(h' x)\<lparr>td_run_next := None\<rparr> = (h x)\<lparr>td_run_next := None\<rparr>"
    using assms by (simp add: links_only_def)
  show "thread_key (h' x) = thread_key (h x)" "td_state (h' x) = td_state (h x)"
    "td_cpu_id (h' x) = td_cpu_id (h x)" "td_vruntime (h' x) = td_vruntime (h x)"
    "td_task (h' x) = td_task (h x)" "td_affinity_mask (h' x) = td_affinity_mask (h x)"
    "td_sched_class (h' x) = td_sched_class (h x)" "td_wake_tick (h' x) = td_wake_tick (h x)"
    using eq by (cases "h x"; cases "h' x"; simp add: thread_key_def)+
qed

text \<open>Writing the link behind a prefix redirects the chain there and nowhere else.\<close>

lemma link_set_after:
  assumes "seg h (rq_head q) xs m" and "distinct xs" and "link_set (link_of xs) v h q = (h', q')"
  shows "seg h' (rq_head q') xs v" and "links_only h h'"
    and "q'\<lparr>rq_head := None\<rparr> = q\<lparr>rq_head := None\<rparr>"
    and "\<And>y. y \<notin> set xs \<Longrightarrow> h' y = h y"
proof -
  show "seg h' (rq_head q') xs v"
  proof (cases xs rule: rev_exhaust)
    case Nil
    then show ?thesis using assms(3) by (auto simp: link_set_def)
  next
    case (snoc ys y)
    then have eq: "h' = set_run_next y v h" "q' = q" and y: "y \<notin> set ys"
      using assms(2,3) by (auto simp: link_set_def)
    then show ?thesis using assms(1) snoc by auto
  qed
  show "links_only h h'" "q'\<lparr>rq_head := None\<rparr> = q\<lparr>rq_head := None\<rparr>"
    using assms(3) by (auto simp: link_set_def split: option.splits)
  show "h' y = h y" if "y \<notin> set xs" for y
    using assms(3) that by (auto simp: link_set_def link_of_def set_run_next_def split: if_splits)
qed


section \<open>What a run queue holds\<close>

definition runq_holds :: "threads \<Rightarrow> run_queue \<Rightarrow> nat list \<Rightarrow> bool" where
  "runq_holds h q xs \<longleftrightarrow>
     seg h (rq_head q) xs None \<and> distinct xs \<and> rq_tail q = link_of xs \<and>
     rq_count q = of_nat (length xs) \<and> length xs < 2 ^ 32"

lemma runq_holds_unique:
  assumes "runq_holds h q xs" and "runq_holds h q ys"
  shows "xs = ys"
proof -
  have "seg h p xs None \<Longrightarrow> seg h p ys None \<Longrightarrow> xs = ys" for p
  proof (induction xs arbitrary: p ys)
    case Nil
    then show ?case by (cases ys) auto
  next
    case (Cons x xs)
    then show ?case by (cases ys) auto
  qed
  then show ?thesis using assms by (auto simp: runq_holds_def)
qed

lemma push_link_ok:
  assumes "seg h (rq_head q) pre m" and "seg h m ys None"
  shows "push_link h q t (link_of pre) =
           Some (link_of (pre @ takeWhile (\<lambda>y. goes_after (h t) (h y)) ys))"
  using assms
proof (induction ys arbitrary: pre m)
  case Nil
  then show ?case by (simp add: push_link.simps [of h q t "link_of pre"] link_get_after)
next
  case (Cons y ys)
  have get: "link_get h q (link_of pre) = Some y"
    using Cons.prems by (simp add: link_get_after)
  show ?case
  proof (cases "goes_after (h t) (h y)")
    case True
    have "push_link h q t (link_of (pre @ [y])) =
            Some (link_of ((pre @ [y]) @ takeWhile (\<lambda>y. goes_after (h t) (h y)) ys))"
      by (rule Cons.IH [of _ "td_run_next (h y)"]) (use Cons.prems in auto)
    then show ?thesis using True get by (simp add: push_link.simps [of h q t "link_of pre"])
  next
    case False
    then show ?thesis using get by (simp add: push_link.simps [of h q t "link_of pre"])
  qed
qed

lemma find_link_ok:
  assumes "seg h (rq_head q) pre m" and "seg h m ys None"
  shows "find_link P h q (link_of pre) =
           Some (if \<exists>y \<in> set ys. P y then Some (link_of (pre @ takeWhile (\<lambda>y. \<not> P y) ys)) else None)"
  using assms
proof (induction ys arbitrary: pre m)
  case Nil
  then show ?case by (simp add: find_link.simps [of P h q "link_of pre"] link_get_after)
next
  case (Cons y ys)
  have get: "link_get h q (link_of pre) = Some y"
    using Cons.prems by (simp add: link_get_after)
  show ?case
  proof (cases "P y")
    case True
    then show ?thesis using get by (simp add: find_link.simps [of P h q "link_of pre"])
  next
    case False
    have "find_link P h q (link_of (pre @ [y])) =
            Some (if \<exists>y \<in> set ys. P y
                  then Some (link_of ((pre @ [y]) @ takeWhile (\<lambda>y. \<not> P y) ys)) else None)"
      by (rule Cons.IH [of _ "td_run_next (h y)"]) (use Cons.prems in auto)
    then show ?thesis using False get by (simp add: find_link.simps [of P h q "link_of pre"])
  qed
qed

lemma last_of_ok: "seg h p xs None \<Longrightarrow> last_of h p r = Some (if xs = [] then r else Some (last xs))"
proof (induction xs arbitrary: p r)
  case Nil
  then show ?case by (simp add: last_of.simps)
next
  case (Cons x xs)
  then have "last_of h (td_run_next (h x)) (Some x) = Some (Some (last (x # xs)))" by auto
  with Cons.prems show ?case by (subst last_of.simps) simp
qed

lemma insort_key_split:
  "insort_key f x xs = takeWhile (\<lambda>y. f y < f x) xs @ x # dropWhile (\<lambda>y. f y < f x) xs"
  by (induction xs) (auto simp: not_le)

lemma runq_push_ok:
  assumes q: "runq_holds h q xs" and t: "t \<notin> set xs" and room: "Suc (length xs) < 2 ^ 32"
  shows "\<exists>h' q'. runq_push t h q = Some (h', q') \<and>
           runq_holds h' q' (insort_key (\<lambda>x. thread_key (h x)) t xs) \<and> links_only h h' \<and>
           (\<forall>y. y \<notin> insert t (set xs) \<longrightarrow> h' y = h y) \<and>
           rq_idle q' = rq_idle q \<and> rq_min_vruntime q' = rq_min_vruntime q \<and>
           rq_enqueue_seq q' = rq_enqueue_seq q"
proof -
  define h1 where "h1 = set_run_next t None h"
  define pre where "pre = takeWhile (\<lambda>y. thread_key (h y) < thread_key (h t)) xs"
  define post where "post = dropWhile (\<lambda>y. thread_key (h y) < thread_key (h t)) xs"
  have xs: "xs = pre @ post" by (simp add: pre_def post_def)
  have sorted: "insort_key (\<lambda>x. thread_key (h x)) t xs = pre @ t # post"
    by (simp add: insort_key_split pre_def post_def)
  have notin: "t \<notin> set pre" "t \<notin> set post" using t xs by auto
  have dist: "distinct pre" "distinct (pre @ post)" using q xs by (auto simp: runq_holds_def)
  have chain: "seg h1 (rq_head q) xs None"
    using q t by (simp add: runq_holds_def h1_def)
  then obtain m where m: "seg h1 (rq_head q) pre m" "seg h1 m post None"
    unfolding xs by auto
  have link: "push_link h1 q t None = Some (link_of pre)"
    using push_link_ok [of h1 q "[]" "rq_head q" xs t] chain
    by (simp add: goes_after_key pre_def h1_def)
  have get: "link_get h1 q (link_of pre) = m" using m(1) by (rule link_get_after)
  define h2 where "h2 = set_run_next t m h1"
  have m2: "seg h2 (rq_head q) pre m" "seg h2 m post None"
    using m notin by (simp_all add: h2_def)
  obtain h3 q1 where set: "link_set (link_of pre) (Some t) h2 q = (h3, q1)" by fastforce
  note after = link_set_after [OF m2(1) dist(1) set]
  have h3t: "h3 t = h2 t" using after(4) notin by simp
  have next_t: "td_run_next (h3 t) = m" by (simp add: h3t h2_def)
  have rest: "seg h3 m post None"
  proof -
    have "h3 y = h2 y" if "y \<in> set post" for y
      using after(4) dist that by auto
    then have "seg h3 m post None = seg h2 m post None" by (intro seg_cong) simp
    then show ?thesis using m2(2) by simp
  qed
  have mpost: "m = None \<longleftrightarrow> post = []" using m(2) by (cases post) auto
  have head: "seg h3 (rq_head q1) (pre @ t # post) None"
    using after(1) next_t rest by auto
  have tail: "rq_tail q1 = link_of xs" and count: "rq_count q1 = of_nat (length xs)"
    and keep: "rq_idle q1 = rq_idle q" "rq_min_vruntime q1 = rq_min_vruntime q"
      "rq_enqueue_seq q1 = rq_enqueue_seq q"
    using after(3) q by (cases q; cases q1; simp add: runq_holds_def)+
  define q3 where "q3 = (if post = [] then q1\<lparr>rq_tail := Some t\<rparr> else q1)"
  have res: "runq_push t h q = Some (h3, q3\<lparr>rq_count := rq_count q3 + 1\<rparr>)"
    using link get set next_t mpost tail xs
    by (auto simp: runq_push_def Let_def h1_def [symmetric] h2_def [symmetric] q3_def)
  have "runq_holds h3 (q3\<lparr>rq_count := rq_count q3 + 1\<rparr>) (pre @ t # post)"
    using head dist notin room count tail xs
    by (auto simp: runq_holds_def q3_def link_of_def)
  moreover have "links_only h h3"
    by (rule links_only_trans [OF links_only_trans after(2), of h h1]) (simp_all add: h1_def h2_def)
  moreover have "h3 y = h y" if "y \<notin> insert t (set xs)" for y
    using that after(4) [of y] xs by (simp add: h2_def h1_def set_run_next_def)
  ultimately show ?thesis using res keep by (auto simp: sorted q3_def)
qed

lemma runq_pop_empty: "runq_holds h q [] \<Longrightarrow> runq_pop h q = (None, h, q)"
  by (simp add: runq_holds_def runq_pop_def)

lemma runq_pop_ok:
  assumes q: "runq_holds h q (x # xs)"
  shows "\<exists>q'. runq_pop h q = (Some x, set_run_next x None h, q') \<and>
           runq_holds (set_run_next x None h) q' xs \<and>
           rq_idle q' = rq_idle q \<and> rq_enqueue_seq q' = rq_enqueue_seq q"
proof -
  have head: "rq_head q = Some x" and rest: "seg h (td_run_next (h x)) xs None" and x: "x \<notin> set xs"
    and len: "Suc (length xs) < 2 ^ 32" and d: "distinct xs" and tail: "rq_tail q = Some (last (x # xs))"
    and count: "rq_count q = of_nat (length xs) + 1"
    using q by (auto simp: runq_holds_def link_of_def)
  have none: "td_run_next (h x) = None \<longleftrightarrow> xs = []" using rest by (cases xs) auto
  show ?thesis
    using head rest x len d tail count none
    by (auto simp: runq_pop_def Let_def runq_holds_def link_of_def)
qed

lemma unlink_ok:
  assumes q: "runq_holds h q (pre @ t # post)"
  shows "\<exists>h' q'. unlink (link_of pre) t h q = Some (h', q') \<and> runq_holds h' q' (pre @ post) \<and>
           links_only h h' \<and> (\<forall>y. y \<notin> set (pre @ t # post) \<longrightarrow> h' y = h y) \<and>
           rq_idle q' = rq_idle q \<and> rq_min_vruntime q' = rq_min_vruntime q \<and>
           rq_enqueue_seq q' = rq_enqueue_seq q"
proof -
  have d: "distinct (pre @ t # post)" and len: "length (pre @ t # post) < 2 ^ 32"
    and pre: "seg h (rq_head q) pre (Some t)" and post: "seg h (td_run_next (h t)) post None"
    and count: "rq_count q = of_nat (Suc (length (pre @ post)))"
    and tail: "rq_tail q = Some (last (t # post))"
    using q by (auto simp: runq_holds_def link_of_def)
  obtain h1 q1 where set: "link_set (link_of pre) (td_run_next (h t)) h q = (h1, q1)" by fastforce
  have dpre: "distinct pre" using d by simp
  note after = link_set_after [OF pre dpre set]
  have same: "h1 y = h y" if "y \<in> set (t # post)" for y
    using after(4) d that by auto
  have "seg h1 (td_run_next (h t)) post None = seg h (td_run_next (h t)) post None"
    by (rule seg_cong) (simp add: same)
  then have chain: "seg h1 (rq_head q1) (pre @ post) None"
    using after(1) post by auto
  define q2 where "q2 = (if post = [] then q1\<lparr>rq_tail := link_of (pre @ post)\<rparr> else q1)"
  have flds: "rq_tail q1 = rq_tail q" "rq_count q1 = rq_count q" "rq_idle q1 = rq_idle q"
    "rq_min_vruntime q1 = rq_min_vruntime q" "rq_enqueue_seq q1 = rq_enqueue_seq q"
    using after(3) by (cases q; cases q1; simp)+
  have "last_of h1 (rq_head q1) None = Some (link_of (pre @ post))"
    using last_of_ok [OF chain] by (simp add: link_of_def)
  moreover have "rq_tail q1 = Some t \<longleftrightarrow> post = []"
    using flds tail d by (cases post rule: rev_exhaust) auto
  ultimately have res: "unlink (link_of pre) t h q =
      Some (set_run_next t None h1,
            if rq_count q2 > 0 then q2\<lparr>rq_count := rq_count q2 - 1\<rparr> else q2)"
    using set by (simp add: unlink_def q2_def)
  have "rq_count q2 = of_nat (Suc (length (pre @ post)))" using flds count by (simp add: q2_def)
  moreover have "(of_nat (Suc (length (pre @ post))) :: u32) \<noteq> 0"
    using len by (simp only: word_of_nat_eq_0_iff) (auto dest: dvd_imp_le)
  ultimately have pos: "rq_count q2 > 0" by (simp add: word_gt_0)
  have "runq_holds (set_run_next t None h1) (q2\<lparr>rq_count := rq_count q2 - 1\<rparr>) (pre @ post)"
    using chain d len flds count tail
    by (auto simp: runq_holds_def q2_def link_of_def)
  moreover have "links_only h (set_run_next t None h1)"
    by (rule links_only_trans [OF after(2)]) simp
  moreover have "set_run_next t None h1 y = h y" if "y \<notin> set (pre @ t # post)" for y
    using that after(4) by (simp add: set_run_next_def)
  ultimately show ?thesis using res pos flds by (auto simp: q2_def)
qed

lemma first_satisfying:
  assumes "\<exists>y \<in> set ys. P y"
  obtains t post where "ys = takeWhile (\<lambda>y. \<not> P y) ys @ t # post" and "P t"
proof -
  have "\<exists>t post. dropWhile (\<lambda>y. \<not> P y) ys = t # post \<and> P t"
    using assms by (induction ys) auto
  then obtain t post where "dropWhile (\<lambda>y. \<not> P y) ys = t # post" "P t" by blast
  then show thesis using that [of t post] takeWhile_dropWhile_id [of "\<lambda>y. \<not> P y" ys] by simp
qed

lemma find_link_first:
  assumes "runq_holds h q xs"
  shows "find_link P h q None =
           Some (if \<exists>y \<in> set xs. P y then Some (link_of (takeWhile (\<lambda>y. \<not> P y) xs)) else None)"
  using find_link_ok [of h q "[]" "rq_head q" xs P] assms by (simp add: runq_holds_def)

lemma link_get_first:
  assumes "runq_holds h q (pre @ t # post)"
  shows "link_get h q (link_of pre) = Some t"
  by (rule link_get_after) (use assms in \<open>auto simp: runq_holds_def\<close>)

lemma runq_remove_ok:
  assumes q: "runq_holds h q xs"
  shows "\<exists>h' q'. runq_remove t h q = Some (t \<in> set xs, h', q') \<and> runq_holds h' q' (remove1 t xs) \<and>
           links_only h h' \<and> (\<forall>y. y \<notin> set xs \<longrightarrow> h' y = h y)"
proof (cases "t \<in> set xs")
  case True
  then have "\<exists>y \<in> set xs. y = t" by simp
  then obtain u post where xs: "xs = takeWhile (\<lambda>y. y \<noteq> t) xs @ u # post" and "u = t"
    by (rule first_satisfying [of xs "\<lambda>x. x = t"])
  define pre where "pre = takeWhile (\<lambda>y. y \<noteq> t) xs"
  have eq: "xs = pre @ t # post" using xs \<open>u = t\<close> by (simp add: pre_def)
  have notin: "t \<notin> set pre" unfolding pre_def by (auto dest: set_takeWhileD)
  have "find_link (\<lambda>x. x = t) h q None = Some (Some (link_of pre))"
    using find_link_first [OF q, of "\<lambda>x. x = t"] True by (simp add: pre_def)
  moreover have "remove1 t xs = pre @ post" using notin by (simp add: eq remove1_append)
  ultimately show ?thesis
    using unlink_ok [of h q pre t post] q True eq by (auto simp: runq_remove_def)
next
  case False
  then have "find_link (\<lambda>x. x = t) h q None = Some None"
    using find_link_first [OF q, of "\<lambda>x. x = t"] by auto
  then show ?thesis using False q by (simp add: runq_remove_def remove1_idem)
qed

lemma runq_remove_first_eligible_ok:
  assumes q: "runq_holds h q xs" and dst: "d < n"
  shows "\<exists>h' q'. runq_remove_first_eligible n d h q =
             Some (List.find (\<lambda>x. pull_eligible (h x) d) xs, h', q') \<and>
           runq_holds h' q' (case List.find (\<lambda>x. pull_eligible (h x) d) xs of
                               None \<Rightarrow> xs | Some t \<Rightarrow> remove1 t xs) \<and>
           links_only h h' \<and> (\<forall>y. y \<notin> set xs \<longrightarrow> h' y = h y)"
proof (cases "\<exists>y \<in> set xs. pull_eligible (h y) d")
  case True
  define pre where "pre = takeWhile (\<lambda>y. \<not> pull_eligible (h y) d) xs"
  obtain t post where eq: "xs = pre @ t # post" and t: "pull_eligible (h t) d"
    using True unfolding pre_def by (rule first_satisfying)
  have none: "\<not> pull_eligible (h y) d" if "y \<in> set pre" for y
    using that unfolding pre_def by (auto dest: set_takeWhileD)
  then have notin: "t \<notin> set pre" using t by auto
  have found: "List.find (\<lambda>x. pull_eligible (h x) d) xs = Some t"
    unfolding eq using none t by (subst find_skip) auto
  have "find_link (\<lambda>x. pull_eligible (h x) d) h q None = Some (Some (link_of pre))"
    using find_link_first [OF q] True by (simp add: pre_def)
  moreover have "link_get h q (link_of pre) = Some t" using q eq by (simp add: link_get_first)
  moreover have "remove1 t xs = pre @ post" using notin by (simp add: eq remove1_append)
  ultimately show ?thesis
    using unlink_ok [of h q pre t post] q eq dst found
    by (auto simp: runq_remove_first_eligible_def)
next
  case False
  then have "find_link (\<lambda>x. pull_eligible (h x) d) h q None = Some None"
    using find_link_first [OF q] by auto
  moreover have "List.find (\<lambda>x. pull_eligible (h x) d) xs = None"
    using False by (auto simp: find_None_iff)
  ultimately show ?thesis using q dst by (auto simp: runq_remove_first_eligible_def)
qed


section \<open>The contract of a run queue\<close>

text \<open>
  \<open>holds s xs\<close>: the queue in state \<open>s\<close> holds the list \<open>xs\<close>; \<open>room s\<close>: it can take one more.
\<close>

locale ordered_queue =
  fixes holds :: "'s \<Rightarrow> 'a list \<Rightarrow> bool" and room :: "'a list \<Rightarrow> bool"
    and key :: "'s \<Rightarrow> 'a \<Rightarrow> 'k :: linorder"
    and push :: "'a \<Rightarrow> 's \<Rightarrow> 's option" and pop :: "'s \<Rightarrow> 'a option \<times> 's"
  assumes push_inserts: "holds s xs \<Longrightarrow> x \<notin> set xs \<Longrightarrow> room xs \<Longrightarrow>
      \<exists>s'. push x s = Some s' \<and> holds s' (insort_key (key s) x xs) \<and> key s' = key s"
    and pop_empty: "holds s [] \<Longrightarrow> pop s = (None, s)"
    and pop_first: "holds s (x # xs) \<Longrightarrow> \<exists>s'. pop s = (Some x, s') \<and> holds s' xs \<and> key s' = key s"
    and room_mono: "room ys \<Longrightarrow> length xs \<le> length ys \<Longrightarrow> room xs"
begin

fun push_all :: "'a list \<Rightarrow> 's \<Rightarrow> 's option" where
  "push_all [] s = Some s"
| "push_all (x # xs) s = Option.bind (push x s) (push_all xs)"

fun pops :: "nat \<Rightarrow> 's \<Rightarrow> 'a list" where
  "pops 0 s = []"
| "pops (Suc n) s =
     (case pop s of (None, s') \<Rightarrow> [] | (Some x, s') \<Rightarrow> x # pops n s')"

lemma pops_gives: "holds s xs \<Longrightarrow> pops (length xs) s = xs"
proof (induction xs arbitrary: s)
  case (Cons x xs)
  obtain s' where "pop s = (Some x, s')" "holds s' xs" using pop_first [OF Cons.prems] by blast
  then show ?case using Cons.IH by simp
qed simp

lemma push_all_sorts:
  assumes "holds s xs" and "distinct (xs @ ts)" and "room (xs @ ts)" and "sorted (map (key s) xs)"
  shows "\<exists>s' ys. push_all ts s = Some s' \<and> holds s' ys \<and> key s' = key s \<and>
           mset ys = mset (xs @ ts) \<and> sorted (map (key s) ys)"
  using assms
proof (induction ts arbitrary: s xs)
  case Nil
  then show ?case by auto
next
  case (Cons t ts)
  have "room xs" by (rule room_mono [OF Cons.prems(3)]) simp
  then obtain s1 where s1: "push t s = Some s1" "holds s1 (insort_key (key s) t xs)" "key s1 = key s"
    using push_inserts [OF Cons.prems(1)] Cons.prems(2) by auto
  let ?xs = "insort_key (key s) t xs"
  have "distinct (?xs @ ts)" using Cons.prems(2) by (auto simp: distinct_insort set_insort_key)
  moreover have "room (?xs @ ts)" by (rule room_mono [OF Cons.prems(3)]) simp
  moreover have "sorted (map (key s1) ?xs)" using Cons.prems(4) s1(3) by (simp add: sorted_insort_key)
  ultimately obtain s' ys where "push_all ts s1 = Some s'" "holds s' ys" "key s' = key s1"
    "mset ys = mset (?xs @ ts)" "sorted (map (key s1) ys)"
    using Cons.IH [OF s1(2)] by blast
  then show ?case using s1 by auto
qed

text \<open>What is pushed onto an empty queue comes out in ascending order of the keys.\<close>

lemma serves_in_order:
  assumes "holds s []" and "distinct ts" and "room ts"
  shows "\<exists>s'. push_all ts s = Some s' \<and> mset (pops (length ts) s') = mset ts \<and>
           sorted (map (key s) (pops (length ts) s'))"
proof -
  obtain s' ys where ys: "push_all ts s = Some s'" "holds s' ys" "mset ys = mset ts"
    "sorted (map (key s) ys)"
    using push_all_sorts [of s "[]" ts] assms by auto
  have "length ts = length ys" using ys(3) by (metis size_mset)
  then show ?thesis using ys pops_gives [OF ys(2)] by auto
qed

end

text \<open>The run queue of a processor, with the threads it links, keeps the contract.\<close>

definition queue_push :: "nat \<Rightarrow> threads \<times> run_queue \<Rightarrow> (threads \<times> run_queue) option" where
  "queue_push t s = runq_push t (fst s) (snd s)"

definition queue_pop :: "threads \<times> run_queue \<Rightarrow> nat option \<times> threads \<times> run_queue" where
  "queue_pop s = runq_pop (fst s) (snd s)"

interpretation runq: ordered_queue
  "\<lambda>s xs. runq_holds (fst s) (snd s) xs" "\<lambda>xs. Suc (length xs) < 2 ^ 32"
  "\<lambda>s x. thread_key (fst s x)" queue_push queue_pop
proof unfold_locales
  fix s :: "threads \<times> run_queue" and x xs
  assume "runq_holds (fst s) (snd s) xs" "x \<notin> set xs" "Suc (length xs) < 2 ^ 32"
  from runq_push_ok [OF this]
  show "\<exists>s'. queue_push x s = Some s' \<and>
      runq_holds (fst s') (snd s') (insort_key (\<lambda>x. thread_key (fst s x)) x xs) \<and>
      (\<lambda>x. thread_key (fst s' x)) = (\<lambda>x. thread_key (fst s x))"
    by (auto simp: queue_push_def links_only_fields)
next
  fix s :: "threads \<times> run_queue"
  assume "runq_holds (fst s) (snd s) []"
  then show "queue_pop s = (None, s)" by (simp add: queue_pop_def runq_pop_empty)
next
  fix s :: "threads \<times> run_queue" and x xs
  assume "runq_holds (fst s) (snd s) (x # xs)"
  from runq_pop_ok [OF this]
  show "\<exists>s'. queue_pop s = (Some x, s') \<and> runq_holds (fst s') (snd s') xs \<and>
      (\<lambda>x. thread_key (fst s' x)) = (\<lambda>x. thread_key (fst s x))"
    by (auto simp: queue_pop_def)
qed simp

end
