(* ===== verification/Sched_Inv.thy ===== *)
theory Sched_Inv
  imports Sched_Queue
begin

text \<open>
  The invariant of the scheduler. \<open>sched_inv X S\<close> says of every processor that its run queue
  holds, in the order of the keys, exactly the threads that are ready and assigned to it, that
  its current thread is assigned to it and has not ended, and of every running thread that it is the current one
  of its processor. The threads in \<open>X\<close> are in transit: taken from a queue and not yet switched
  to, or about to be queued. The lemmas say how each elementary change moves threads into and
  out of \<open>X\<close>.
\<close>

section \<open>Access to processors and threads\<close>

named_theorems sched_simps \<open>reading a state after an elementary change\<close>

lemma cpu_at_upd_cpu [sched_simps]:
  assumes "unat d < length (s_cpus S)"
  shows "cpu_at c (upd_cpu d f S) = (if c = d then f (cpu_at d S) else cpu_at c S)"
proof (cases "c = d")
  case False
  then have "unat c \<noteq> unat d" by (simp add: word_unat_eq_iff)
  with False show ?thesis by (simp add: cpu_at_def upd_cpu_def)
qed (use assms in \<open>simp add: cpu_at_def upd_cpu_def\<close>)

lemma cpu_at_cong: "s_cpus S' = s_cpus S \<Longrightarrow> cpu_at c S' = cpu_at c S"
  by (simp add: cpu_at_def)

lemma upd_cpu_fields [simp]:
  "s_threads (upd_cpu d f S) = s_threads S" "s_cpu_count (upd_cpu d f S) = s_cpu_count S"
  "s_sleep_list (upd_cpu d f S) = s_sleep_list S" "length (s_cpus (upd_cpu d f S)) = length (s_cpus S)"
  "s_ticks (upd_cpu d f S) = s_ticks S" "s_tasks (upd_cpu d f S) = s_tasks S"
  by (simp_all add: upd_cpu_def)

lemma upd_runq_fields [simp]:
  "s_threads (upd_runq d f S) = s_threads S" "s_cpu_count (upd_runq d f S) = s_cpu_count S"
  "s_sleep_list (upd_runq d f S) = s_sleep_list S" "length (s_cpus (upd_runq d f S)) = length (s_cpus S)"
  "s_ticks (upd_runq d f S) = s_ticks S" "s_tasks (upd_runq d f S) = s_tasks S"
  by (simp_all add: upd_runq_def)

lemma upd_thread_fields [simp]:
  "s_cpus (upd_thread t f S) = s_cpus S" "s_cpu_count (upd_thread t f S) = s_cpu_count S"
  "s_sleep_list (upd_thread t f S) = s_sleep_list S"
  "s_threads (upd_thread t f S) x = (if x = t then f (s_threads S t) else s_threads S x)"
  "cpu_at c (upd_thread t f S) = cpu_at c S" "s_ticks (upd_thread t f S) = s_ticks S"
  "s_tasks (upd_thread t f S) = s_tasks S"
  by (simp_all add: upd_thread_def cpu_at_def)

lemma stats_fields [simp]:
  "s_threads (sched_stats_add_cpu st c v S) = s_threads S" "s_cpus (sched_stats_add_cpu st c v S) = s_cpus S"
  "s_cpu_count (sched_stats_add_cpu st c v S) = s_cpu_count S"
  "s_sleep_list (sched_stats_add_cpu st c v S) = s_sleep_list S"
  "s_ticks (sched_stats_add_cpu st c v S) = s_ticks S" "s_tasks (sched_stats_add_cpu st c v S) = s_tasks S"
  "s_threads (sched_stats_max_cpu st c v S) = s_threads S" "s_cpus (sched_stats_max_cpu st c v S) = s_cpus S"
  "s_cpu_count (sched_stats_max_cpu st c v S) = s_cpu_count S"
  "s_sleep_list (sched_stats_max_cpu st c v S) = s_sleep_list S"
  "s_ticks (sched_stats_max_cpu st c v S) = s_ticks S" "s_tasks (sched_stats_max_cpu st c v S) = s_tasks S"
  "s_threads (send_ipi c S) = s_threads S" "s_cpus (send_ipi c S) = s_cpus S"
  "s_cpu_count (send_ipi c S) = s_cpu_count S" "s_sleep_list (send_ipi c S) = s_sleep_list S"
  "s_ticks (send_ipi c S) = s_ticks S" "s_tasks (send_ipi c S) = s_tasks S"
  by (simp_all add: sched_stats_add_cpu_def sched_stats_max_cpu_def send_ipi_def)

text \<open>The parts of the state the invariant speaks of.\<close>

definition same_sched :: "sched \<Rightarrow> sched \<Rightarrow> bool" where
  "same_sched S S' \<longleftrightarrow> s_threads S' = s_threads S \<and> s_cpus S' = s_cpus S \<and>
     s_cpu_count S' = s_cpu_count S \<and> s_sleep_list S' = s_sleep_list S"

lemma same_sched_refl [simp]: "same_sched S S"
  by (simp add: same_sched_def)

lemma same_sched_trans: "same_sched S S' \<Longrightarrow> same_sched S' S'' \<Longrightarrow> same_sched S S''"
  by (simp add: same_sched_def)

lemma same_sched_stats [simp]:
  "same_sched S (sched_stats_add_cpu st c v S)" "same_sched S (sched_stats_max_cpu st c v S)"
  "same_sched S (send_ipi c S)"
  by (simp_all add: same_sched_def)

lemma same_sched_steps:
  "same_sched S S' \<Longrightarrow> same_sched S (sched_stats_add_cpu st c v S')"
  "same_sched S S' \<Longrightarrow> same_sched S (sched_stats_max_cpu st c v S')"
  "same_sched S S' \<Longrightarrow> same_sched S (send_ipi c S')"
  by (simp_all add: same_sched_def)

lemma same_sched_note_wait [simp]: "same_sched S (note_wait a b c v S)"
  by (simp add: note_wait_def same_sched_def)

lemma same_sched_kick [simp]: "same_sched S (sched_kick_idle_pullers c S)"
proof -
  have "same_sched S (fold (\<lambda>c S. if c \<noteq> d \<and> rq_idle (c_runq (cpu_at c S))
                                   then send_ipi (c_id (cpu_at c S)) S else S) cs S)" for cs d
  proof (induction cs arbitrary: S)
    case (Cons c cs)
    show ?case unfolding fold_simps comp_apply by (rule same_sched_trans [OF _ Cons.IH]) simp
  qed simp
  then show ?thesis by (simp add: sched_kick_idle_pullers_def)
qed


section \<open>The invariant\<close>

definition queue_ok :: "nat set \<Rightarrow> u32 \<Rightarrow> nat list \<Rightarrow> sched \<Rightarrow> bool" where
  "queue_ok X c xs S \<longleftrightarrow>
     runq_holds (s_threads S) (c_runq (cpu_at c S)) xs \<and>
     sorted (map (\<lambda>t. thread_key (s_threads S t)) xs) \<and>
     (\<forall>t. t \<in> set xs \<longleftrightarrow> t \<notin> X \<and> td_state (s_threads S t) = THREAD_READY \<and> td_cpu_id (s_threads S t) = c)"

definition is_scheduler :: "nat \<Rightarrow> sched \<Rightarrow> bool" where
  "is_scheduler t S \<longleftrightarrow> (\<exists>c < s_cpu_count S. t = c_scheduler (cpu_at c S))"

definition cpu_ok :: "nat set \<Rightarrow> u32 \<Rightarrow> sched \<Rightarrow> bool" where
  "cpu_ok X c S \<longleftrightarrow>
     c_id (cpu_at c S) = c \<and> (\<exists>xs. queue_ok X c xs S) \<and>
     td_cpu_id (s_threads S (c_current (cpu_at c S))) = c \<and>
     td_state (s_threads S (c_current (cpu_at c S))) \<notin> {THREAD_DEAD, THREAD_EMPTY} \<and>
     td_cpu_id (s_threads S (c_scheduler (cpu_at c S))) = c \<and>
     td_state (s_threads S (c_scheduler (cpu_at c S))) = THREAD_RUNNING"

definition running_ok :: "nat set \<Rightarrow> sched \<Rightarrow> bool" where
  "running_ok X S \<longleftrightarrow>
     (\<forall>t. t \<notin> X \<longrightarrow> td_state (s_threads S t) = THREAD_RUNNING \<longrightarrow> \<not> is_scheduler t S \<longrightarrow>
        td_cpu_id (s_threads S t) < s_cpu_count S \<and>
        t = c_current (cpu_at (td_cpu_id (s_threads S t)) S))"

definition waiting_ok :: "nat set \<Rightarrow> sched \<Rightarrow> bool" where
  "waiting_ok X S \<longleftrightarrow>
     (\<forall>t. t \<notin> X \<longrightarrow> td_state (s_threads S t) = THREAD_READY \<or> td_state (s_threads S t) = THREAD_BLOCKED \<longrightarrow>
        td_cpu_id (s_threads S t) < s_cpu_count S)"

definition sleep_ok :: "sched \<Rightarrow> bool" where
  "sleep_ok S \<longleftrightarrow>
     distinct (s_sleep_list S) \<and> sorted (map (\<lambda>t. td_wake_tick (s_threads S t)) (s_sleep_list S)) \<and>
     (\<forall>t \<in> set (s_sleep_list S). td_state (s_threads S t) = THREAD_BLOCKED)"

definition sched_inv :: "nat set \<Rightarrow> sched \<Rightarrow> bool" where
  "sched_inv X S \<longleftrightarrow>
     length (s_cpus S) = unat (s_cpu_count S) \<and> 0 < s_cpu_count S \<and> s_cpu_count S \<le> MAX_CPUS \<and>
     (\<forall>c < s_cpu_count S. cpu_ok X c S) \<and> running_ok X S \<and> waiting_ok X S \<and> sleep_ok S \<and>
     (\<forall>t \<in> X. \<not> is_scheduler t S)"

abbreviation sched_ok :: "sched \<Rightarrow> bool" where
  "sched_ok S \<equiv> sched_inv {} S"

lemmas sched_inv_defs = sched_inv_def cpu_ok_def running_ok_def waiting_ok_def sleep_ok_def

lemma running_okI:
  assumes "\<And>t. t \<notin> X \<Longrightarrow> td_state (s_threads S t) = THREAD_RUNNING \<Longrightarrow> \<not> is_scheduler t S \<Longrightarrow>
      td_cpu_id (s_threads S t) < s_cpu_count S \<and> t = c_current (cpu_at (td_cpu_id (s_threads S t)) S)"
  shows "running_ok X S"
  using assms unfolding running_ok_def by blast

lemma running_okD:
  assumes "running_ok X S" "t \<notin> X" "td_state (s_threads S t) = THREAD_RUNNING" "\<not> is_scheduler t S"
  shows "td_cpu_id (s_threads S t) < s_cpu_count S \<and> t = c_current (cpu_at (td_cpu_id (s_threads S t)) S)"
  using assms unfolding running_ok_def by blast

lemma waiting_okI:
  assumes "\<And>t. t \<notin> X \<Longrightarrow> td_state (s_threads S t) \<in> {THREAD_READY, THREAD_BLOCKED} \<Longrightarrow>
      td_cpu_id (s_threads S t) < s_cpu_count S"
  shows "waiting_ok X S"
  using assms unfolding waiting_ok_def by blast

lemma waiting_okD:
  assumes "waiting_ok X S" "t \<notin> X" "td_state (s_threads S t) \<in> {THREAD_READY, THREAD_BLOCKED}"
  shows "td_cpu_id (s_threads S t) < s_cpu_count S"
  using assms unfolding waiting_ok_def by blast

lemma sched_invD:
  assumes "sched_inv X S"
  shows "length (s_cpus S) = unat (s_cpu_count S)" "s_cpu_count S \<noteq> 0" "s_cpu_count S \<le> MAX_CPUS"
    "running_ok X S" "waiting_ok X S" "sleep_ok S" "t \<in> X \<Longrightarrow> \<not> is_scheduler t S"
    "c < s_cpu_count S \<Longrightarrow> cpu_ok X c S"
  using assms by (auto simp: sched_inv_def)

lemma sched_inv_index: "sched_inv X S \<Longrightarrow> c < s_cpu_count S \<Longrightarrow> unat c < length (s_cpus S)"
  by (simp add: sched_inv_def word_less_nat_alt)

lemma sched_inv_queue:
  assumes "sched_inv X S" and "c < s_cpu_count S"
  obtains xs where "queue_ok X c xs S"
  using sched_invD(8) [OF assms] by (auto simp: cpu_ok_def)

lemma queue_ok_same: "same_sched S S' \<Longrightarrow> queue_ok X c xs S' = queue_ok X c xs S"
  by (simp add: queue_ok_def same_sched_def cpu_at_def)

lemma sched_inv_same: "same_sched S S' \<Longrightarrow> sched_inv X S' = sched_inv X S"
  by (simp add: sched_inv_defs queue_ok_same is_scheduler_def) (simp add: same_sched_def cpu_at_def)

lemma sched_inv_sameI: "sched_inv X S \<Longrightarrow> same_sched S S' \<Longrightarrow> sched_inv X S'"
  by (simp add: sched_inv_same)

text \<open>A running thread is in at most one place: it is the current thread of its processor only.\<close>

lemma current_unique:
  assumes "sched_inv X S" and "c < s_cpu_count S" and "d < s_cpu_count S"
    and "c_current (cpu_at c S) = c_current (cpu_at d S)"
  shows "c = d"
  using sched_invD(8) [OF assms(1,2)] sched_invD(8) [OF assms(1,3)] assms(4) by (simp add: cpu_ok_def)


section \<open>Threads into and out of transit\<close>

lemma sched_inv_retag:
  assumes inv: "sched_inv X S" and q: "\<And>c xs. queue_ok X c xs S \<Longrightarrow> queue_ok Y c xs S"
    and ok: "running_ok Y S" "waiting_ok Y S" "\<And>t. t \<in> Y \<Longrightarrow> \<not> is_scheduler t S"
  shows "sched_inv Y S"
proof -
  have "cpu_ok Y c S" if "c < s_cpu_count S" for c
    using sched_invD(8) [OF inv that] q unfolding cpu_ok_def by blast
  then show ?thesis using inv ok unfolding sched_inv_def by blast
qed

lemma sched_inv_hold:
  assumes inv: "sched_inv X S" and t: "td_state (s_threads S t) \<noteq> THREAD_READY" "\<not> is_scheduler t S"
  shows "sched_inv (insert t X) S"
proof (rule sched_inv_retag [OF inv])
  show "queue_ok (insert t X) c xs S" if "queue_ok X c xs S" for c xs
    using that t by (auto simp: queue_ok_def)
  show "running_ok (insert t X) S" "waiting_ok (insert t X) S"
    using sched_invD(4,5) [OF inv] by (auto simp: running_ok_def waiting_ok_def)
  show "\<not> is_scheduler u S" if "u \<in> insert t X" for u
    using that t sched_invD(7) [OF inv] by auto
qed

lemma sched_inv_settle:
  assumes inv: "sched_inv (insert t X) S"
    and t: "td_state (s_threads S t) \<notin> {THREAD_READY, THREAD_RUNNING}"
    and b: "td_state (s_threads S t) = THREAD_BLOCKED \<Longrightarrow> td_cpu_id (s_threads S t) < s_cpu_count S"
  shows "sched_inv X S"
proof (rule sched_inv_retag [OF inv])
  show "queue_ok X c xs S" if "queue_ok (insert t X) c xs S" for c xs
    using that t by (auto simp: queue_ok_def)
  show "running_ok X S"
    by (rule running_okI, rule running_okD [OF sched_invD(4) [OF inv]]) (use t in auto)
  show "waiting_ok X S"
  proof (rule waiting_okI)
    fix u assume u: "u \<notin> X" "td_state (s_threads S u) \<in> {THREAD_READY, THREAD_BLOCKED}"
    show "td_cpu_id (s_threads S u) < s_cpu_count S"
      using waiting_okD [OF sched_invD(5) [OF inv], of u] u t b by (cases "u = t") auto
  qed
  show "\<not> is_scheduler u S" if "u \<in> X" for u
    using that sched_invD(7) [OF inv] by auto
qed

lemma runq_holds_cong:
  assumes "\<And>x. x \<in> set xs \<Longrightarrow> td_run_next (h' x) = td_run_next (h x)"
  shows "runq_holds h' q xs = runq_holds h q xs"
  using seg_cong [OF assms] by (simp add: runq_holds_def)

lemma queue_ok_upd_thread:
  assumes q: "queue_ok X c xs S" and t: "t \<in> X"
  shows "queue_ok X c xs (upd_thread t f S)"
proof -
  have notin: "x \<noteq> t" if "x \<in> set xs" for x using q t that by (auto simp: queue_ok_def)
  have holds: "runq_holds (s_threads (upd_thread t f S)) q xs = runq_holds (s_threads S) q xs" for q
    by (rule runq_holds_cong) (simp add: notin)
  have keys: "map (\<lambda>x. thread_key (s_threads (upd_thread t f S) x)) xs =
      map (\<lambda>x. thread_key (s_threads S x)) xs"
    using notin by (auto intro: map_cong)
  show ?thesis unfolding queue_ok_def holds keys upd_thread_fields(5)
    using q t by (auto simp: queue_ok_def)
qed

lemma sched_inv_upd_thread:
  assumes inv: "sched_inv X S" and t: "t \<in> X"
    and cur: "\<And>c. c < s_cpu_count S \<Longrightarrow> c_current (cpu_at c S) = t \<Longrightarrow> td_cpu_id (f (s_threads S t)) = c \<and>
       td_state (f (s_threads S t)) \<notin> {THREAD_DEAD, THREAD_EMPTY}"
    and sl: "t \<in> set (s_sleep_list S) \<Longrightarrow>
       td_state (f (s_threads S t)) = THREAD_BLOCKED \<and>
       td_wake_tick (f (s_threads S t)) = td_wake_tick (s_threads S t)"
  shows "sched_inv X (upd_thread t f S)"
proof -
  have sched: "is_scheduler x (upd_thread t f S) = is_scheduler x S" for x
    by (simp add: is_scheduler_def)
  have ns: "\<not> is_scheduler t S" using sched_invD(7) [OF inv] t by simp
  have cpus: "cpu_ok X c (upd_thread t f S)" if c: "c < s_cpu_count S" for c
  proof -
    obtain xs where "queue_ok X c xs S" by (rule sched_inv_queue [OF inv c])
    then have "\<exists>xs. queue_ok X c xs (upd_thread t f S)" using t by (blast intro: queue_ok_upd_thread)
    moreover have "c_scheduler (cpu_at c S) \<noteq> t" using ns c by (auto simp: is_scheduler_def)
    ultimately show ?thesis using sched_invD(8) [OF inv c] cur [OF c] by (auto simp: cpu_ok_def)
  qed
  have run: "running_ok X (upd_thread t f S)" "waiting_ok X (upd_thread t f S)"
    using sched_invD(4,5) [OF inv] t by (auto simp: running_ok_def waiting_ok_def sched)
  have keys: "map (\<lambda>x. td_wake_tick (s_threads (upd_thread t f S) x)) (s_sleep_list S) =
      map (\<lambda>x. td_wake_tick (s_threads S x)) (s_sleep_list S)"
    using sl by (auto intro: map_cong)
  have "sleep_ok (upd_thread t f S)"
    using sched_invD(6) [OF inv] sl unfolding sleep_ok_def upd_thread_fields(3) keys by auto
  then show ?thesis using inv cpus run by (auto simp: sched_inv_def sched)
qed

text \<open>A change of a thread that is not ready, in place.\<close>

lemma sched_inv_touch:
  assumes inv: "sched_inv X S" and t: "td_state (s_threads S t) \<noteq> THREAD_READY" "\<not> is_scheduler t S"
    and keep: "td_state (f (s_threads S t)) = td_state (s_threads S t)"
      "td_cpu_id (f (s_threads S t)) = td_cpu_id (s_threads S t)"
      "td_wake_tick (f (s_threads S t)) = td_wake_tick (s_threads S t)"
  shows "sched_inv X (upd_thread t f S)"
proof -
  have held: "sched_inv (insert t X) (upd_thread t f S)"
  proof (rule sched_inv_upd_thread [OF sched_inv_hold [OF inv t]])
    show "td_cpu_id (f (s_threads S t)) = c \<and> td_state (f (s_threads S t)) \<notin> {THREAD_DEAD, THREAD_EMPTY}"
      if "c < s_cpu_count S" "c_current (cpu_at c S) = t" for c
      using sched_invD(8) [OF inv that(1)] that(2) keep by (simp add: cpu_ok_def)
    show "td_state (f (s_threads S t)) = THREAD_BLOCKED \<and>
        td_wake_tick (f (s_threads S t)) = td_wake_tick (s_threads S t)"
      if "t \<in> set (s_sleep_list S)"
      using sched_invD(6) [OF inv] that keep by (auto simp: sleep_ok_def)
  qed simp
  show ?thesis
  proof (cases "t \<in> X")
    case True
    then show ?thesis using held by (simp add: insert_absorb)
  next
    case False
    show ?thesis
    proof (rule sched_inv_retag [OF held])
      show "queue_ok X c xs (upd_thread t f S)" if "queue_ok (insert t X) c xs (upd_thread t f S)" for c xs
        using that t keep by (auto simp: queue_ok_def)
      show "running_ok X (upd_thread t f S)" "waiting_ok X (upd_thread t f S)"
        using sched_invD(4,5) [OF inv] keep False
        by (auto simp: running_ok_def waiting_ok_def is_scheduler_def)
      show "\<not> is_scheduler u (upd_thread t f S)" if "u \<in> X" for u
        using that sched_invD(7) [OF inv] by (simp add: is_scheduler_def)
    qed
  qed
qed


section \<open>Queues and current threads\<close>

text \<open>A change of the fields of a processor that neither queue links nor its threads depend on.\<close>

lemma sched_inv_upd_cpu:
  assumes inv: "sched_inv X S" and d: "d < s_cpu_count S"
    and keep: "c_id (f (cpu_at d S)) = c_id (cpu_at d S)" "c_scheduler (f (cpu_at d S)) = c_scheduler (cpu_at d S)"
      "rq_head (c_runq (f (cpu_at d S))) = rq_head (c_runq (cpu_at d S))"
      "rq_tail (c_runq (f (cpu_at d S))) = rq_tail (c_runq (cpu_at d S))"
      "rq_count (c_runq (f (cpu_at d S))) = rq_count (c_runq (cpu_at d S))"
    and cur: "td_cpu_id (s_threads S (c_current (f (cpu_at d S)))) = d"
      "td_state (s_threads S (c_current (f (cpu_at d S)))) \<notin> {THREAD_DEAD, THREAD_EMPTY}"
    and old: "c_current (f (cpu_at d S)) = c_current (cpu_at d S) \<or> c_current (cpu_at d S) \<in> X \<or>
       is_scheduler (c_current (cpu_at d S)) S \<or>
       td_state (s_threads S (c_current (cpu_at d S))) \<noteq> THREAD_RUNNING"
  shows "sched_inv X (upd_cpu d f S)"
proof -
  have at: "cpu_at c (upd_cpu d f S) = (if c = d then f (cpu_at d S) else cpu_at c S)" for c
    by (rule cpu_at_upd_cpu) (rule sched_inv_index [OF inv d])
  have sched: "is_scheduler x (upd_cpu d f S) = is_scheduler x S" for x
    using keep d by (auto simp: is_scheduler_def at)
  have "queue_ok X c xs (upd_cpu d f S) = queue_ok X c xs S" for c xs
    using keep by (auto simp: queue_ok_def runq_holds_def at)
  then have "cpu_ok X c (upd_cpu d f S)" if "c < s_cpu_count S" for c
    using sched_invD(8) [OF inv that] keep cur by (auto simp: cpu_ok_def at)
  moreover have "running_ok X (upd_cpu d f S)"
    using sched_invD(4) [OF inv] old by (auto simp: running_ok_def sched at)
  ultimately show ?thesis
    using inv by (auto simp: sched_inv_def sched waiting_ok_def sleep_ok_def)
qed

lemma sched_inv_upd_runq:
  assumes "sched_inv X S" and "d < s_cpu_count S"
    and "\<And>q. rq_head (f q) = rq_head q \<and> rq_tail (f q) = rq_tail q \<and> rq_count (f q) = rq_count q"
  shows "sched_inv X (upd_runq d f S)"
  unfolding upd_runq_def using assms sched_invD(8) [OF assms(1,2)]
  by (intro sched_inv_upd_cpu) (auto simp: cpu_ok_def)

text \<open>A thread in transit becomes the current one.\<close>

lemma sched_inv_switch:
  assumes inv: "sched_inv (insert t X) S" and d: "d < s_cpu_count S"
    and t: "td_state (s_threads S t) = THREAD_RUNNING" "td_cpu_id (s_threads S t) = d"
    and old: "c_current (cpu_at d S) = t \<or> c_current (cpu_at d S) \<in> X \<or> is_scheduler (c_current (cpu_at d S)) S \<or>
       td_state (s_threads S (c_current (cpu_at d S))) \<noteq> THREAD_RUNNING"
  shows "sched_inv X (upd_cpu d (\<lambda>x. x\<lparr>c_current := t\<rparr>) S)"
proof -
  let ?S = "upd_cpu d (\<lambda>x. x\<lparr>c_current := t\<rparr>) S"
  have held: "sched_inv (insert t X) ?S"
  proof (rule sched_inv_upd_cpu [OF inv d])
    show "c_current ((cpu_at d S)\<lparr>c_current := t\<rparr>) = c_current (cpu_at d S) \<or>
        c_current (cpu_at d S) \<in> insert t X \<or> is_scheduler (c_current (cpu_at d S)) S \<or>
        td_state (s_threads S (c_current (cpu_at d S))) \<noteq> THREAD_RUNNING"
      using old by blast
  qed (simp_all add: t)
  have at: "cpu_at d ?S = (cpu_at d S)\<lparr>c_current := t\<rparr>"
    by (simp add: cpu_at_upd_cpu sched_inv_index [OF inv d])
  show ?thesis
  proof (rule sched_inv_retag [OF held])
    show "queue_ok X c xs ?S" if "queue_ok (insert t X) c xs ?S" for c xs
      using that t(1) unfolding queue_ok_def upd_cpu_fields by fastforce
    show "running_ok X ?S"
    proof (rule running_okI)
      fix u assume u: "u \<notin> X" "td_state (s_threads ?S u) = THREAD_RUNNING" "\<not> is_scheduler u ?S"
      show "td_cpu_id (s_threads ?S u) < s_cpu_count ?S \<and>
          u = c_current (cpu_at (td_cpu_id (s_threads ?S u)) ?S)"
      proof (cases "u = t")
        case True
        then show ?thesis using t at d by simp
      next
        case False
        then show ?thesis using running_okD [OF sched_invD(4) [OF held], of u] u by simp
      qed
    qed
    show "waiting_ok X ?S"
      by (rule waiting_okI, rule waiting_okD [OF sched_invD(5) [OF held]]) (use t(1) in auto)
    show "\<not> is_scheduler u ?S" if "u \<in> X" for u using that sched_invD(7) [OF held] by blast
  qed
qed

text \<open>Links and a queue change together.\<close>

lemma sched_inv_requeue:
  assumes inv: "sched_inv X S" and d: "d < s_cpu_count S" and q: "queue_ok X d xs S"
    and new: "runq_holds h q' ys" and links: "links_only (s_threads S) h"
    and else_same: "\<And>y. y \<notin> D \<Longrightarrow> h y = s_threads S y"
    and D: "\<And>y. y \<in> D \<Longrightarrow> y \<in> X \<or> y \<in> set xs"
    and sorted: "sorted (map (\<lambda>t. thread_key (s_threads S t)) ys)"
    and mem: "\<And>t. t \<in> set ys \<longleftrightarrow> t \<notin> Y \<and> td_state (s_threads S t) = THREAD_READY \<and>
                 td_cpu_id (s_threads S t) = d"
    and XY: "\<And>t. (t \<in> X) \<noteq> (t \<in> Y) \<Longrightarrow> td_state (s_threads S t) = THREAD_READY \<and>
                 td_cpu_id (s_threads S t) = d \<and> \<not> is_scheduler t S"
  shows "sched_inv Y (upd_runq d (\<lambda>_. q') (S\<lparr>s_threads := h\<rparr>))"
proof -
  let ?S = "upd_runq d (\<lambda>_. q') (S\<lparr>s_threads := h\<rparr>)"
  have at: "cpu_at c ?S = (if c = d then (cpu_at d S)\<lparr>c_runq := q'\<rparr> else cpu_at c S)" for c
    unfolding upd_runq_def using sched_inv_index [OF inv d]
    by (subst cpu_at_upd_cpu) (simp_all add: cpu_at_def)
  have th: "s_threads ?S = h" by simp
  have flds: "thread_key (h x) = thread_key (s_threads S x)" "td_state (h x) = td_state (s_threads S x)"
    "td_cpu_id (h x) = td_cpu_id (s_threads S x)" "td_wake_tick (h x) = td_wake_tick (s_threads S x)" for x
    using links_only_fields [OF links] by auto
  have sched: "is_scheduler x ?S = is_scheduler x S" for x by (auto simp: is_scheduler_def at)
  have "cpu_ok Y c ?S" if c: "c < s_cpu_count S" for c
  proof (cases "c = d")
    case True
    have "queue_ok Y d ys ?S" using new sorted mem by (simp add: queue_ok_def at flds)
    then show ?thesis using sched_invD(8) [OF inv c] True by (auto simp: cpu_ok_def at flds)
  next
    case False
    obtain zs where zs: "queue_ok X c zs S" by (rule sched_inv_queue [OF inv c])
    have same: "h x = s_threads S x" if "x \<in> set zs" for x
    proof (rule else_same)
      show "x \<notin> D" using D zs q that False by (auto simp: queue_ok_def)
    qed
    have "runq_holds h (c_runq (cpu_at c S)) zs"
      using zs runq_holds_cong [of zs h "s_threads S"] same by (simp add: queue_ok_def)
    moreover have "t \<in> X \<longleftrightarrow> t \<in> Y" if "td_cpu_id (s_threads S t) = c" for t using XY that False by auto
    ultimately have "queue_ok Y c zs ?S" using zs False by (auto simp: queue_ok_def at flds)
    then show ?thesis using sched_invD(8) [OF inv c] False by (auto simp: cpu_ok_def at flds)
  qed
  moreover have "running_ok Y ?S"
    using sched_invD(4) [OF inv] XY by (fastforce simp: running_ok_def sched at flds)
  moreover have "waiting_ok Y ?S"
    using sched_invD(5) [OF inv] XY d by (fastforce simp: waiting_ok_def flds)
  moreover have "sleep_ok ?S" using sched_invD(6) [OF inv] by (simp add: sleep_ok_def flds)
  moreover have "\<not> is_scheduler t ?S" if "t \<in> Y" for t
    using that XY sched_invD(7) [OF inv] sched by blast
  ultimately show ?thesis using inv by (simp add: sched_inv_def)
qed

end
