(* ===== verification/Sched_Safe.thy ===== *)
theory Sched_Safe
  imports Sched_Inv
begin

text \<open>
  Every call of the scheduler keeps the invariant, returns, and changes only what it is meant
  to change: \<open>quiet T S S'\<close> says that processors keep their current thread and that the
  threads outside \<open>T\<close> keep state and place.
\<close>

section \<open>What a call leaves alone\<close>

definition same_place :: "thread \<Rightarrow> thread \<Rightarrow> bool" where
  "same_place x y \<longleftrightarrow> td_state y = td_state x \<and> td_cpu_id y = td_cpu_id x \<and>
     td_affinity_mask y = td_affinity_mask x \<and> td_task y = td_task x \<and> td_wake_tick y = td_wake_tick x"

definition quiet :: "nat set \<Rightarrow> sched \<Rightarrow> sched \<Rightarrow> bool" where
  "quiet T S S' \<longleftrightarrow>
     s_cpu_count S' = s_cpu_count S \<and> s_sleep_list S' = s_sleep_list S \<and>
     (\<forall>c < s_cpu_count S. c_current (cpu_at c S') = c_current (cpu_at c S) \<and>
        c_scheduler (cpu_at c S') = c_scheduler (cpu_at c S) \<and> c_id (cpu_at c S') = c_id (cpu_at c S)) \<and>
     (\<forall>x. x \<notin> T \<longrightarrow> same_place (s_threads S x) (s_threads S' x))"

lemma quiet_refl [simp]: "quiet T S S"
  by (simp add: quiet_def same_place_def)

lemma quiet_trans: "quiet T S S' \<Longrightarrow> quiet T S' S'' \<Longrightarrow> quiet T S S''"
  by (simp add: quiet_def same_place_def)

lemma quiet_mono: "quiet T S S' \<Longrightarrow> T \<subseteq> U \<Longrightarrow> quiet U S S'"
  by (auto simp: quiet_def)

lemma quiet_same: "same_sched S S' \<Longrightarrow> quiet T S S'"
  by (simp add: quiet_def same_sched_def cpu_at_def same_place_def)

lemma quiet_upd_thread:
  assumes "t \<in> T \<or> same_place (s_threads S t) (f (s_threads S t))"
  shows "quiet T S (upd_thread t f S)"
  using assms by (auto simp: quiet_def same_place_def)

lemma quiet_upd_cpu:
  assumes "unat d < length (s_cpus S)" and "c_current (f (cpu_at d S)) = c_current (cpu_at d S)"
    "c_scheduler (f (cpu_at d S)) = c_scheduler (cpu_at d S)" "c_id (f (cpu_at d S)) = c_id (cpu_at d S)"
  shows "quiet T S (upd_cpu d f S)"
  using assms by (auto simp: quiet_def same_place_def cpu_at_upd_cpu)

lemma quiet_upd_runq: "unat d < length (s_cpus S) \<Longrightarrow> quiet T S (upd_runq d f S)"
  unfolding upd_runq_def by (rule quiet_upd_cpu) simp_all

text \<open>The same as rules that peel off the last change.\<close>

lemma quiet_steps:
  "quiet T S S' \<Longrightarrow> t \<in> T \<or> same_place (s_threads S' t) (f (s_threads S' t)) \<Longrightarrow> quiet T S (upd_thread t f S')"
  "quiet T S S' \<Longrightarrow> unat d < length (s_cpus S') \<Longrightarrow> quiet T S (upd_runq d g S')"
  "quiet T S S' \<Longrightarrow> quiet T S (sched_stats_add_cpu st e v S')"
  "quiet T S S' \<Longrightarrow> quiet T S (sched_stats_max_cpu st e v S')"
  "quiet T S S' \<Longrightarrow> quiet T S (send_ipi e S')"
  by (erule quiet_trans, rule quiet_upd_thread quiet_upd_runq quiet_same; simp)+

lemma quietD:
  assumes "quiet T S S'"
  shows "s_cpu_count S' = s_cpu_count S" "s_sleep_list S' = s_sleep_list S"
    "c < s_cpu_count S \<Longrightarrow> c_current (cpu_at c S') = c_current (cpu_at c S)"
    "c < s_cpu_count S \<Longrightarrow> c_scheduler (cpu_at c S') = c_scheduler (cpu_at c S)"
    "c < s_cpu_count S \<Longrightarrow> c_id (cpu_at c S') = c_id (cpu_at c S)"
    "is_scheduler t S' = is_scheduler t S"
    "x \<notin> T \<Longrightarrow> td_state (s_threads S' x) = td_state (s_threads S x)"
    "x \<notin> T \<Longrightarrow> td_cpu_id (s_threads S' x) = td_cpu_id (s_threads S x)"
    "x \<notin> T \<Longrightarrow> td_affinity_mask (s_threads S' x) = td_affinity_mask (s_threads S x)"
    "x \<notin> T \<Longrightarrow> td_task (s_threads S' x) = td_task (s_threads S x)"
    "x \<notin> T \<Longrightarrow> td_wake_tick (s_threads S' x) = td_wake_tick (s_threads S x)"
  using assms by (auto simp: quiet_def same_place_def is_scheduler_def)

lemma current_not_scheduler:
  assumes inv: "sched_inv X S" and c: "c < s_cpu_count S"
    and "c_current (cpu_at c S) \<noteq> c_scheduler (cpu_at c S)"
  shows "\<not> is_scheduler (c_current (cpu_at c S)) S"
proof
  assume "is_scheduler (c_current (cpu_at c S)) S"
  then obtain d where d: "d < s_cpu_count S" "c_current (cpu_at c S) = c_scheduler (cpu_at d S)"
    by (auto simp: is_scheduler_def)
  then have "c = d"
    using sched_invD(8) [OF inv c] sched_invD(8) [OF inv d(1)] by (simp add: cpu_ok_def)
  with d assms(3) show False by simp
qed

lemma current_place:
  assumes "sched_inv X S" and "c < s_cpu_count S"
  shows "td_cpu_id (s_threads S (c_current (cpu_at c S))) = c" "c_id (cpu_at c S) = c"
    "td_state (s_threads S (c_current (cpu_at c S))) \<notin> {THREAD_DEAD, THREAD_EMPTY}"
  using sched_invD(8) [OF assms] by (simp_all add: cpu_ok_def)


section \<open>Run time and counters\<close>

lemma refresh_place [simp]:
  "td_state (sched_refresh_deadline x) = td_state x" "td_cpu_id (sched_refresh_deadline x) = td_cpu_id x"
  "td_affinity_mask (sched_refresh_deadline x) = td_affinity_mask x"
  "td_task (sched_refresh_deadline x) = td_task x" "td_wake_tick (sched_refresh_deadline x) = td_wake_tick x"
  "td_sched_class (sched_refresh_deadline x) = td_sched_class x"
  by (simp_all add: sched_refresh_deadline_def Let_def)

lemma charge_place [simp]:
  "td_state (charge_thread n d x) = td_state x" "td_cpu_id (charge_thread n d x) = td_cpu_id x"
  "td_affinity_mask (charge_thread n d x) = td_affinity_mask x"
  "td_task (charge_thread n d x) = td_task x" "td_wake_tick (charge_thread n d x) = td_wake_tick x"
  by (simp_all add: charge_thread_def)

lemma prepared_place [simp]:
  "td_state (prepared n q w x) = td_state x" "td_cpu_id (prepared n q w x) = td_cpu_id x"
  "td_affinity_mask (prepared n q w x) = td_affinity_mask x"
  "td_task (prepared n q w x) = td_task x" "td_wake_tick (prepared n q w x) = td_wake_tick x"
  by (simp_all add: prepared_def wake_credit_def Let_def)

lemma raise_min_links [simp]:
  "rq_head (raise_min v q) = rq_head q" "rq_tail (raise_min v q) = rq_tail q"
  "rq_count (raise_min v q) = rq_count q"
  by (simp_all add: raise_min_def)

lemma account_ok:
  assumes inv: "sched_inv X S" and c: "c < s_cpu_count S"
  shows "sched_inv X (sched_account_runtime c b S)" and "quiet {} S (sched_account_runtime c b S)"
proof -
  let ?t = "c_current (cpu_at c S)"
  have ix: "unat c < length (s_cpus S)" by (rule sched_inv_index [OF inv c])
  have "sched_inv X (sched_account_runtime c b S) \<and> quiet {} S (sched_account_runtime c b S)"
  proof (cases "?t = c_scheduler (cpu_at c S) \<or> td_state (s_threads S ?t) \<noteq> THREAD_RUNNING")
    case True
    then show ?thesis using inv by (auto simp: sched_account_runtime_def)
  next
    case False
    then have st: "td_state (s_threads S ?t) \<noteq> THREAD_READY" and ns: "\<not> is_scheduler ?t S"
      using current_not_scheduler [OF inv c] by auto
    have start: "sched_inv X (upd_thread ?t (\<lambda>x. x\<lparr>td_exec_start_tick := n\<rparr>) S)" for n
      by (rule sched_inv_touch [OF inv st ns]) simp_all
    have charge: "sched_inv X (upd_thread ?t sched_refresh_deadline
        (upd_runq c (raise_min v) (sched_stats_add_cpu a e d (upd_thread ?t (charge_thread n d) S))))"
      (is "sched_inv X (upd_thread ?t _ ?S3)") for v a e d n
    proof -
      have S1: "sched_inv X (upd_thread ?t (charge_thread n d) S)"
        by (rule sched_inv_touch [OF inv st ns]) simp_all
      then have "sched_inv X (sched_stats_add_cpu a e d (upd_thread ?t (charge_thread n d) S))"
        by (rule sched_inv_sameI) simp
      then have S3: "sched_inv X ?S3" using c by (intro sched_inv_upd_runq) simp_all
      show ?thesis
      proof (rule sched_inv_touch [OF S3])
        have "quiet {} S ?S3" by (intro quiet_steps quiet_refl) (simp_all add: same_place_def ix)
        then show "\<not> is_scheduler ?t ?S3" using ns by (simp add: quietD)
      qed (simp_all add: st)
    qed
    have q1: "quiet {} S (upd_thread ?t (\<lambda>x. x\<lparr>td_exec_start_tick := n\<rparr>) S)" for n
      by (intro quiet_steps quiet_refl) (simp add: same_place_def)
    have q2: "quiet {} S (upd_thread ?t sched_refresh_deadline
        (upd_runq c (raise_min v) (sched_stats_add_cpu a e d (upd_thread ?t (charge_thread n d) S))))"
      for v a e d n
      by (intro quiet_steps quiet_refl) (simp_all add: same_place_def ix)
    show ?thesis
      using False inv start charge q1 q2 by (simp add: sched_account_runtime_def Let_def)
  qed
  then show "sched_inv X (sched_account_runtime c b S)" "quiet {} S (sched_account_runtime c b S)"
    by simp_all
qed

lemma note_switch_ok:
  assumes inv: "sched_inv X S" and t: "t \<in> X"
    and r: "td_state (s_threads S t) = THREAD_RUNNING" and sl: "t \<notin> set (s_sleep_list S)"
  shows "sched_inv X (sched_note_switch c t S)" and "quiet {} S (sched_note_switch c t S)"
proof -
  have same: "same_sched S (note_wait a1 b1 e1 v1 (note_wait a2 b2 e2 v2 (sched_stats_add_cpu st e v S)))"
    for a1 b1 e1 v1 a2 b2 e2 v2 st e v
    by (rule same_sched_trans [OF same_sched_trans]) (rule same_sched_stats same_sched_note_wait)+
  show "quiet {} S (sched_note_switch c t S)"
    unfolding sched_note_switch_def Let_def
    by (auto intro!: quiet_trans [OF quiet_same [OF same] quiet_upd_thread] simp: same_place_def)
  show "sched_inv X (sched_note_switch c t S)"
  proof (cases "t = c_scheduler (cpu_at c S)")
    case True
    then show ?thesis using inv by (simp add: sched_note_switch_def)
  next
    case False
    have "sched_inv X (upd_thread t (\<lambda>x. x\<lparr>td_enqueue_tick := 0, td_wake_ready_tick := 0,
        td_exec_start_tick := s_ticks S\<rparr>) S')" if S': "same_sched S S'" for S'
    proof (rule sched_inv_upd_thread)
      show "sched_inv X S'" using inv S' by (rule sched_inv_sameI)
      show "t \<in> X" by (rule t)
      show "td_cpu_id ((s_threads S' t)\<lparr>td_enqueue_tick := 0, td_wake_ready_tick := 0,
            td_exec_start_tick := s_ticks S\<rparr>) = d \<and>
          td_state ((s_threads S' t)\<lparr>td_enqueue_tick := 0, td_wake_ready_tick := 0,
            td_exec_start_tick := s_ticks S\<rparr>) \<notin> {THREAD_DEAD, THREAD_EMPTY}"
        if "d < s_cpu_count S'" "c_current (cpu_at d S') = t" for d
        using current_place [OF inv, of d] S' that by (auto simp: same_sched_def cpu_at_def)
    qed (use S' sl in \<open>simp_all add: same_sched_def\<close>)
    from this [OF same] show ?thesis using False by (simp add: sched_note_switch_def Let_def)
  qed
qed


section \<open>Placement\<close>

lemma cpu_ids_lt: "c \<in> set (cpu_ids S) \<Longrightarrow> c < s_cpu_count S"
  by (auto simp: cpu_ids_def word_less_nat_alt unat_of_nat take_bit_nat_less_self_iff
      intro: le_less_trans [OF take_bit_nat_less_eq_self])

lemma first_cpu_lt: "s_cpu_count S \<noteq> 0 \<Longrightarrow> sched_policy_mask_first_cpu m S < s_cpu_count S"
proof -
  assume n: "s_cpu_count S \<noteq> 0"
  have "first_cpu_from m is \<in> set is \<or> first_cpu_from m is = 0" for "is"
    by (induction "is") auto
  then have "sched_policy_mask_first_cpu m S \<in> set (take 64 (cpu_ids S)) \<or> sched_policy_mask_first_cpu m S = 0"
    by (simp add: sched_policy_mask_first_cpu_def)
  then show ?thesis using n by (auto dest: in_set_takeD cpu_ids_lt simp: word_gt_0)
qed

lemma least_loaded_in: "fst (least_loaded m S cs b) \<in> insert (fst b) (set cs)"
  by (induction cs arbitrary: b) (auto simp: Let_def split: if_splits, (metis fst_conv insertE)+)

lemma select_auto_lt:
  assumes "s_cpu_count S \<noteq> 0"
  shows "fst (sched_select_auto_cpu_mask m S) < s_cpu_count S"
proof -
  have "0 < unat (s_cpu_count S)" using assms by (simp add: unat_gt_0)
  then have md: "(a :: u32) mod s_cpu_count S < s_cpu_count S" for a
    by (simp add: word_less_nat_alt unat_mod)
  have "fst (least_loaded k S (map (\<lambda>i. (s_next_auto_cpu S + i) mod s_cpu_count S) (cpu_ids S))
      (sched_policy_mask_first_cpu k S, l)) < s_cpu_count S" for k l
    using least_loaded_in [of k S "map (\<lambda>i. (s_next_auto_cpu S + i) mod s_cpu_count S) (cpu_ids S)"
        "(sched_policy_mask_first_cpu k S, l)"] md first_cpu_lt [OF assms, of k] by auto
  then show ?thesis by (simp add: sched_select_auto_cpu_mask_def Let_def case_prod_beta)
qed

lemma select_auto_same: "same_sched S (snd (sched_select_auto_cpu_mask m S))"
  by (simp add: sched_select_auto_cpu_mask_def Let_def case_prod_beta same_sched_def)

definition stays :: "nat \<Rightarrow> sched \<Rightarrow> bool" where
  "stays t S \<longleftrightarrow> td_affinity_mask (s_threads S t) = 0 \<or>
     td_affinity_mask (s_threads S t) AND cpu_bit (td_cpu_id (s_threads S t)) \<noteq> 0"

text \<open>A thread may be queued elsewhere only when no processor is still executing it.\<close>

definition movable :: "nat \<Rightarrow> sched \<Rightarrow> bool" where
  "movable t S \<longleftrightarrow> stays t S \<or> (\<forall>c < s_cpu_count S. c_current (cpu_at c S) \<noteq> t)"

lemma choose_queue_ok:
  assumes inv: "sched_inv X S" and c: "c < s_cpu_count S"
  shows "fst (choose_queue c t S) < s_cpu_count S" "same_sched S (snd (choose_queue c t S))"
    "stays t S \<Longrightarrow> td_cpu_id (s_threads S t) = c \<Longrightarrow> fst (choose_queue c t S) = c"
  using select_auto_lt [OF sched_invD(2) [OF inv]] c select_auto_same current_place(2) [OF inv c]
  by (auto simp: choose_queue_def Let_def stays_def)


section \<open>Queueing a thread\<close>

text \<open>There are fewer threads than a run queue can count.\<close>

definition few_threads :: "sched \<Rightarrow> bool" where
  "few_threads S \<longleftrightarrow> finite {t. td_state (s_threads S t) \<noteq> THREAD_EMPTY} \<and>
     card {t. td_state (s_threads S t) \<noteq> THREAD_EMPTY} < 2 ^ 32 - 1"

lemma few_threads_room:
  assumes few: "few_threads S" and xs: "distinct xs" "\<And>t. t \<in> set xs \<Longrightarrow> td_state (s_threads S t) \<noteq> THREAD_EMPTY"
  shows "Suc (length xs) < 2 ^ 32"
proof -
  have "card (set xs) \<le> card {t. td_state (s_threads S t) \<noteq> THREAD_EMPTY}"
    using few xs(2) by (intro card_mono) (auto simp: few_threads_def)
  then show ?thesis using few xs(1) by (simp add: few_threads_def distinct_card)
qed

lemma place_ok:
  assumes inv: "sched_inv (insert t X) S" and d: "d < s_cpu_count S" and sl: "t \<notin> set (s_sleep_list S)"
    and cur: "\<forall>e < s_cpu_count S. c_current (cpu_at e S) = t \<longrightarrow> e = d"
  shows "sched_inv (insert t X) (place_thread d t w S)" "quiet {t} S (place_thread d t w S)"
    "td_state (s_threads (place_thread d t w S) t) = THREAD_READY"
    "td_cpu_id (s_threads (place_thread d t w S) t) = d"
    "td_affinity_mask (s_threads (place_thread d t w S) t) = td_affinity_mask (s_threads S t)"
    "td_task (s_threads (place_thread d t w S) t) = td_task (s_threads S t)"
proof -
  have ix: "unat d < length (s_cpus S)" by (rule sched_inv_index [OF inv d])
  have id: "c_id (cpu_at d S) = d" by (rule current_place(2) [OF inv d])
  define S1 where "S1 = upd_thread t (\<lambda>x. x\<lparr>td_cpu_id := d, td_state := THREAD_READY\<rparr>) S"
  define S2 where "S2 = (if td_state (s_threads S t) \<noteq> THREAD_EMPTY \<and> td_cpu_id (s_threads S t) \<noteq> d
     then sched_stats_add_cpu MIGRATIONS d 1 (upd_thread t (\<lambda>x. x\<lparr>td_migrations := td_migrations x + 1\<rparr>) S1)
     else S1)"
  have i1: "sched_inv (insert t X) S1" unfolding S1_def
    by (rule sched_inv_upd_thread [OF inv]) (use cur sl in auto)
  have step: "sched_inv (insert t X) (upd_thread t f S')"
    if "sched_inv (insert t X) S'" "s_sleep_list S' = s_sleep_list S"
      "same_place (s_threads S' t) (f (s_threads S' t))" for S' f
    by (rule sched_inv_upd_thread [OF that(1)])
       (use that sl current_place [OF that(1)] in \<open>auto simp: same_place_def\<close>)
  have i2: "sched_inv (insert t X) S2"
  proof (cases "td_state (s_threads S t) \<noteq> THREAD_EMPTY \<and> td_cpu_id (s_threads S t) \<noteq> d")
    case True
    have "sched_inv (insert t X) (upd_thread t (\<lambda>x. x\<lparr>td_migrations := td_migrations x + 1\<rparr>) S1)"
      by (rule step [OF i1]) (simp_all add: S1_def same_place_def)
    then show ?thesis using True unfolding S2_def by (auto intro: sched_inv_sameI)
  next
    case False
    then have "S2 = S1" unfolding S2_def by (rule if_not_P)
    then show ?thesis using i1 by simp
  qed
  have flds: "s_cpu_count S2 = s_cpu_count S" "s_sleep_list S2 = s_sleep_list S" "s_cpus S2 = s_cpus S"
    by (simp_all add: S2_def S1_def)
  define S3 where "S3 = sched_prepare_enqueue_locked d t w S2"
  have "sched_inv (insert t X) (upd_thread t (prepared n q w) S2)" for n q
    by (rule step [OF i2]) (simp_all add: flds same_place_def)
  then have i3: "sched_inv (insert t X) S3"
    unfolding S3_def sched_prepare_enqueue_locked_def Let_def
    by (intro sched_inv_upd_runq) (simp_all add: flds d)
  have eq: "place_thread d t w S = upd_runq d (\<lambda>q. q\<lparr>rq_idle := False\<rparr>)
      (if w then sched_stats_add_cpu WAKEUPS d 1 (sched_stats_add_cpu ENQUEUES d 1 S3)
       else sched_stats_add_cpu ENQUEUES d 1 S3)"
    unfolding place_thread_def Let_def id S1_def [symmetric] S2_def [symmetric] S3_def [symmetric] ..
  have q2: "quiet {t} S S2"
    unfolding S2_def S1_def by (auto intro!: quiet_steps quiet_refl)
  have q3: "quiet {t} S S3"
    unfolding S3_def sched_prepare_enqueue_locked_def Let_def
    by (intro quiet_steps q2) (simp_all add: flds ix)
  have count3: "s_cpu_count S3 = s_cpu_count S" "length (s_cpus S3) = length (s_cpus S)"
    by (simp_all add: S3_def sched_prepare_enqueue_locked_def Let_def flds)
  have "sched_inv (insert t X) (if w then sched_stats_add_cpu WAKEUPS d 1 (sched_stats_add_cpu ENQUEUES d 1 S3)
       else sched_stats_add_cpu ENQUEUES d 1 S3)"
    by (rule sched_inv_sameI [OF i3]) (auto intro: same_sched_steps)
  then show "sched_inv (insert t X) (place_thread d t w S)"
    unfolding eq by (rule sched_inv_upd_runq) (simp_all add: count3 d)
  show "quiet {t} S (place_thread d t w S)"
    unfolding eq using q3 ix by (auto intro!: quiet_steps simp: count3)
  have "s_threads (place_thread d t w S) t = s_threads S3 t" by (simp add: eq)
  moreover have "s_threads S3 t = prepared (s_ticks S2) (c_runq (cpu_at d S2)) w (s_threads S2 t)"
    by (simp add: S3_def sched_prepare_enqueue_locked_def Let_def)
  moreover have "td_state (s_threads S2 t) = THREAD_READY" "td_cpu_id (s_threads S2 t) = d"
    "td_affinity_mask (s_threads S2 t) = td_affinity_mask (s_threads S t)"
    "td_task (s_threads S2 t) = td_task (s_threads S t)"
    by (simp_all add: S2_def S1_def)
  ultimately show "td_state (s_threads (place_thread d t w S) t) = THREAD_READY"
    "td_cpu_id (s_threads (place_thread d t w S) t) = d"
    "td_affinity_mask (s_threads (place_thread d t w S) t) = td_affinity_mask (s_threads S t)"
    "td_task (s_threads (place_thread d t w S) t) = td_task (s_threads S t)"
    by simp_all
qed

lemma links_only_quiet:
  assumes "links_only (s_threads S) h" and "unat d < length (s_cpus S)"
  shows "quiet {} S (upd_runq d (\<lambda>_. q) (S\<lparr>s_threads := h\<rparr>))"
proof -
  have "cpu_at c (upd_runq d (\<lambda>_. q) (S\<lparr>s_threads := h\<rparr>)) =
      (if c = d then (cpu_at d S)\<lparr>c_runq := q\<rparr> else cpu_at c S)" for c
    unfolding upd_runq_def using assms(2) by (subst cpu_at_upd_cpu) (simp_all add: cpu_at_def)
  then show ?thesis using links_only_fields [OF assms(1)] by (simp add: quiet_def same_place_def)
qed

lemma push_on_ok:
  assumes inv: "sched_inv (insert t X) S" and t: "t \<notin> X" and d: "d < s_cpu_count S"
    and st: "td_state (s_threads S t) = THREAD_READY" "td_cpu_id (s_threads S t) = d"
    and room: "\<And>xs. queue_ok (insert t X) d xs S \<Longrightarrow> Suc (length xs) < 2 ^ 32"
  shows "\<exists>S'. push_on d t S = Some S' \<and> sched_inv X S' \<and> quiet {} S S'"
proof -
  obtain xs where xs: "queue_ok (insert t X) d xs S" by (rule sched_inv_queue [OF inv d])
  have notin: "t \<notin> set xs" using xs by (auto simp: queue_ok_def)
  have holds: "runq_holds (s_threads S) (c_runq (cpu_at d S)) xs" using xs by (simp add: queue_ok_def)
  let ?ys = "insort_key (\<lambda>x. thread_key (s_threads S x)) t xs"
  from runq_push_ok [OF holds notin room [OF xs]]
  obtain h q where push: "runq_push t (s_threads S) (c_runq (cpu_at d S)) = Some (h, q)"
    and new: "runq_holds h q ?ys" and links: "links_only (s_threads S) h"
    and same: "\<And>y. y \<notin> insert t (set xs) \<Longrightarrow> h y = s_threads S y"
    by blast
  have "sched_inv X (upd_runq d (\<lambda>_. q) (S\<lparr>s_threads := h\<rparr>))"
  proof (rule sched_inv_requeue [OF inv d xs new links, of "insert t (set xs)"])
    show "h y = s_threads S y" if "y \<notin> insert t (set xs)" for y using same that by blast
    show "sorted (map (\<lambda>t. thread_key (s_threads S t)) ?ys)"
      using xs by (simp add: sorted_insort_key queue_ok_def)
    show "u \<in> set ?ys \<longleftrightarrow> u \<notin> X \<and> td_state (s_threads S u) = THREAD_READY \<and> td_cpu_id (s_threads S u) = d" for u
      using xs t st by (auto simp: queue_ok_def set_insort_key)
    show "td_state (s_threads S u) = THREAD_READY \<and> td_cpu_id (s_threads S u) = d \<and> \<not> is_scheduler u S"
      if "(u \<in> insert t X) \<noteq> (u \<in> X)" for u
      using that st sched_invD(7) [OF inv] by auto
  qed auto
  then show ?thesis
    using push links_only_quiet [OF links sched_inv_index [OF inv d]] by (simp add: push_on_def)
qed

lemma enqueue_ok:
  assumes inv: "sched_inv X S" and few: "few_threads S" and t: "t \<notin> X"
    and st: "td_state (s_threads S t) \<noteq> THREAD_READY" and ns: "\<not> is_scheduler t S"
    and sl: "t \<notin> set (s_sleep_list S)" and c: "c < s_cpu_count S"
    and cur: "\<forall>e < s_cpu_count S. c_current (cpu_at e S) = t \<longrightarrow> stays t S \<and> c = e"
  shows "\<exists>S'. sched_enqueue_on_reason here c t w S = Some S' \<and> sched_inv X S' \<and> quiet {t} S S' \<and>
           td_state (s_threads S' t) = THREAD_READY \<and>
           td_affinity_mask (s_threads S' t) = td_affinity_mask (s_threads S t) \<and>
           td_task (s_threads S' t) = td_task (s_threads S t)"
proof -
  obtain d S1 where ch: "choose_queue c t S = (d, S1)" by fastforce
  have d: "d < s_cpu_count S" and same: "same_sched S S1"
    using choose_queue_ok [OF inv c, of t] ch by simp_all
  have inv1: "sched_inv (insert t X) S1"
    by (rule sched_inv_sameI [OF sched_inv_hold [OF inv st ns] same])
  have cnt: "s_cpu_count S1 = s_cpu_count S" "s_sleep_list S1 = s_sleep_list S" "s_threads S1 = s_threads S"
    and at: "cpu_at e S1 = cpu_at e S" for e
    using same by (auto simp: same_sched_def cpu_at_def)
  have d1: "d < s_cpu_count S1" using d cnt by simp
  have eqd: "\<forall>e < s_cpu_count S1. c_current (cpu_at e S1) = t \<longrightarrow> e = d"
  proof (intro allI impI)
    fix e assume that: "e < s_cpu_count S1" "c_current (cpu_at e S1) = t"
    have "stays t S" "c = e" using cur that cnt at by auto
    moreover have "td_cpu_id (s_threads S t) = e" using current_place(1) [OF inv, of e] that cnt at by auto
    ultimately show "e = d" using choose_queue_ok(3) [OF inv c, of t] ch by simp
  qed
  have sl1: "t \<notin> set (s_sleep_list S1)" using sl cnt by simp
  note place = place_ok [OF inv1 d1 sl1 eqd, where w = w]
  let ?S2 = "place_thread d t w S1"
  have d2: "d < s_cpu_count ?S2" using d quietD(1) [OF place(2)] cnt by simp
  have "Suc (length xs) < 2 ^ 32" if xs: "queue_ok (insert t X) d xs ?S2" for xs
  proof (rule few_threads_room [OF few])
    show "distinct xs" using xs by (simp add: queue_ok_def runq_holds_def)
    show "td_state (s_threads S u) \<noteq> THREAD_EMPTY" if "u \<in> set xs" for u
      using xs that quietD(7) [OF place(2), of u] cnt by (auto simp: queue_ok_def)
  qed
  from push_on_ok [OF place(1) t d2 place(3,4) this]
  obtain S3 where S3: "push_on d t ?S2 = Some S3" "sched_inv X S3" "quiet {} ?S2 S3" by blast
  have q3: "quiet {t} S S3"
    by (rule quiet_trans [OF quiet_trans [OF quiet_same [OF same] place(2)] quiet_mono [OF S3(3)]]) (rule empty_subsetI)
  define S4 where "S4 = (if c_id (cpu_at d S1) \<noteq> c_id (cpu_at here S1) \<and> rq_idle (c_runq (cpu_at d S1))
      then send_ipi (c_id (cpu_at d S1)) S3 else S3)"
  define S5 where "S5 = (if w \<and> (td_sched_class (s_threads S3 t) = 3 \<or> td_sched_class (s_threads S3 t) = 4) \<and>
      rq_count (c_runq (cpu_at d S3)) \<ge> 2 then sched_kick_idle_pullers d S4 else S4)"
  have s4: "same_sched S3 S4" by (simp add: S4_def)
  then have s5: "same_sched S3 S5" unfolding S5_def by (auto intro: same_sched_trans)
  have res: "sched_enqueue_on_reason here c t w S = Some S5"
    unfolding sched_enqueue_on_reason_def ch Let_def case_prod_conv S3(1) Option.bind.bind_lunit
      S4_def S5_def by (rule refl)
  have "sched_inv X S5" by (rule sched_inv_sameI [OF S3(2) s5])
  moreover have "quiet {t} S S5" by (rule quiet_trans [OF q3 quiet_same [OF s5]])
  moreover have "s_threads S5 = s_threads S3" using s5 by (simp add: same_sched_def)
  ultimately show ?thesis using res place(3,5,6) quietD(7,9,10) [OF S3(3), of t] cnt by auto
qed

end
