(* ===== verification/Sched_Calls.thy ===== *)
theory Sched_Calls
  imports Sched_Safe
begin

text \<open>
  Each call of the scheduler keeps the invariant and returns. The calls are then the steps of
  a transition system in which the processors act in any order; a thread that has been queued
  stays the current one of its processor until \<open>Switch_Out\<close>.
\<close>

section \<open>Finding the next thread\<close>

text \<open>No other processor is between queueing its thread and switching away from it.\<close>

definition alone :: "u32 \<Rightarrow> sched \<Rightarrow> bool" where
  "alone c S \<longleftrightarrow> (\<forall>d < s_cpu_count S. d \<noteq> c \<longrightarrow> td_state (s_threads S (c_current (cpu_at d S))) \<noteq> THREAD_READY)"

definition in_scheduler :: "u32 \<Rightarrow> sched \<Rightarrow> bool" where
  "in_scheduler c S \<longleftrightarrow> c_current (cpu_at c S) = c_scheduler (cpu_at c S)"

lemma ready_not_current:
  assumes inv: "sched_inv X S" and c: "c < s_cpu_count S" and al: "alone c S" and sc: "in_scheduler c S"
    and t: "td_state (s_threads S t) = THREAD_READY" and d: "d < s_cpu_count S"
  shows "c_current (cpu_at d S) \<noteq> t"
proof (cases "d = c")
  case True
  then show ?thesis using sched_invD(8) [OF inv c] sc t by (auto simp: cpu_ok_def in_scheduler_def)
next
  case False
  then show ?thesis using al d t by (auto simp: alone_def)
qed

definition in_transit :: "nat \<Rightarrow> u32 \<Rightarrow> sched \<Rightarrow> sched \<Rightarrow> bool" where
  "in_transit t c S S' \<longleftrightarrow>
     sched_inv {t} S' \<and> quiet {t} S S' \<and> td_state (s_threads S t) = THREAD_READY \<and>
     td_state (s_threads S' t) = THREAD_READY \<and> td_cpu_id (s_threads S' t) = c"

lemma upd_runq_same: "upd_runq c (\<lambda>_. c_runq (cpu_at c S)) S = S"
  by (cases S) (simp add: upd_runq_def upd_cpu_def cpu_at_def)

lemma pop_ok:
  assumes inv: "sched_ok S" and c: "c < s_cpu_count S"
    and pop: "runq_pop (s_threads S) (c_runq (cpu_at c S)) = (r, h, q)"
  shows "r = None \<Longrightarrow> upd_runq c (\<lambda>_. q) (S\<lparr>s_threads := h\<rparr>) = S"
    and "r = Some t \<Longrightarrow> in_transit t c S (upd_runq c (\<lambda>_. q) (S\<lparr>s_threads := h\<rparr>))"
proof -
  obtain xs where xs: "queue_ok {} c xs S" by (rule sched_inv_queue [OF inv c])
  then have holds: "runq_holds (s_threads S) (c_runq (cpu_at c S)) xs" by (simp add: queue_ok_def)
  show "upd_runq c (\<lambda>_. q) (S\<lparr>s_threads := h\<rparr>) = S" if "r = None"
  proof (cases xs)
    case Nil
    then show ?thesis using runq_pop_empty holds pop by (auto simp: upd_runq_same)
  next
    case (Cons x ys)
    then show ?thesis using runq_pop_ok [of "s_threads S" "c_runq (cpu_at c S)" x ys] holds pop that by auto
  qed
  show "in_transit t c S (upd_runq c (\<lambda>_. q) (S\<lparr>s_threads := h\<rparr>))" if r: "r = Some t"
  proof (cases xs)
    case Nil
    then show ?thesis using runq_pop_empty holds pop r by auto
  next
    case (Cons x ys)
    then have "t = x" and h: "h = set_run_next x None (s_threads S)" and new: "runq_holds h q ys"
      using runq_pop_ok [of "s_threads S" "c_runq (cpu_at c S)" x ys] holds pop r by auto
    have x: "td_state (s_threads S x) = THREAD_READY" "td_cpu_id (s_threads S x) = c" "x \<notin> set ys"
      using xs Cons by (auto simp: queue_ok_def runq_holds_def)
    have links: "links_only (s_threads S) h" by (simp add: h)
    have "sched_inv {t} (upd_runq c (\<lambda>_. q) (S\<lparr>s_threads := h\<rparr>))"
    proof (rule sched_inv_requeue [OF inv c xs new links, of "{x}"])
      show "u \<in> set ys \<longleftrightarrow> u \<notin> {t} \<and> td_state (s_threads S u) = THREAD_READY \<and> td_cpu_id (s_threads S u) = c" for u
        using xs Cons x \<open>t = x\<close> by (auto simp: queue_ok_def)
      show "td_state (s_threads S u) = THREAD_READY \<and> td_cpu_id (s_threads S u) = c \<and> \<not> is_scheduler u S"
        if "(u \<in> {}) \<noteq> (u \<in> {t})" for u
        using that x \<open>t = x\<close> sched_invD(8) [OF inv] by (auto simp: is_scheduler_def cpu_ok_def)
    qed (use xs Cons in \<open>auto simp: queue_ok_def h set_run_next_def\<close>)
    moreover have "quiet {t} S (upd_runq c (\<lambda>_. q) (S\<lparr>s_threads := h\<rparr>))"
      by (rule quiet_mono [OF links_only_quiet [OF links sched_inv_index [OF inv c]]]) (rule empty_subsetI)
    ultimately show ?thesis using x \<open>t = x\<close> by (simp add: in_transit_def h)
  qed
qed

lemma has_eligible_returns:
  assumes "sched_ok S" and "c < s_cpu_count S"
  shows "\<exists>b. has_eligible c d S = Some b"
proof -
  obtain xs where "queue_ok {} c xs S" by (rule sched_inv_queue [OF assms])
  then have "runq_holds (s_threads S) (c_runq (cpu_at c S)) xs" by (simp add: queue_ok_def)
  from find_link_first [OF this] show ?thesis by (auto simp: has_eligible_def)
qed

lemma pull_source_returns:
  assumes "sched_ok S" and "\<forall>c \<in> set cs. c < s_cpu_count S"
  shows "\<exists>r. pull_source d S cs b = Some r \<and> (r = fst b \<or> r \<in> set cs \<and> r \<noteq> d)"
  using assms(2)
proof (induction cs arbitrary: b)
  case Nil
  then show ?case by (cases b) simp
next
  case (Cons c cs)
  obtain e where "has_eligible c (c_id (cpu_at d S)) S = Some e"
    using has_eligible_returns [OF assms(1)] Cons.prems by fastforce
  then show ?case using Cons by (cases b) (fastforce simp: Let_def)
qed

lemma take_eligible_ok:
  assumes inv: "sched_ok S" and src: "src < s_cpu_count S" and dst: "dst < s_cpu_count S"
  shows "\<exists>r S'. take_eligible src dst S = Some (r, S') \<and>
           (case r of None \<Rightarrow> sched_ok S' \<and> quiet {} S S' | Some t \<Rightarrow> in_transit t src S S')"
proof (cases "rq_count (c_runq (cpu_at src S)) \<ge> SCHED_IDLE_PULL_MIN_SOURCE_RUNQ")
  case False
  then show ?thesis using inv by (simp add: take_eligible_def)
next
  case True
  obtain xs where xs: "queue_ok {} src xs S" by (rule sched_inv_queue [OF inv src])
  then have holds: "runq_holds (s_threads S) (c_runq (cpu_at src S)) xs" by (simp add: queue_ok_def)
  define r where "r = List.find (\<lambda>x. pull_eligible (s_threads S x) dst) xs"
  define ys where "ys = (case r of None \<Rightarrow> xs | Some t \<Rightarrow> remove1 t xs)"
  obtain h q where rm: "runq_remove_first_eligible (s_cpu_count S) dst (s_threads S) (c_runq (cpu_at src S)) =
      Some (r, h, q)" and new: "runq_holds h q ys" and links: "links_only (s_threads S) h"
    and same: "\<And>y. y \<notin> set xs \<Longrightarrow> h y = s_threads S y"
    using runq_remove_first_eligible_ok [OF holds dst] unfolding r_def ys_def by blast
  let ?S = "upd_runq src (\<lambda>_. q) (S\<lparr>s_threads := h\<rparr>)"
  have res: "take_eligible src dst S = Some (r, ?S)" using True rm by (simp add: take_eligible_def)
  have q: "quiet {} S ?S" by (rule links_only_quiet [OF links sched_inv_index [OF inv src]])
  have d: "distinct xs" and sorted: "sorted (map (\<lambda>t. thread_key (s_threads S t)) xs)"
    using xs by (auto simp: queue_ok_def runq_holds_def)
  have tin: "t \<in> set xs" if "r = Some t" for t using that by (auto simp: r_def find_Some_iff)
  have "sched_inv (set_option r) ?S"
  proof (rule sched_inv_requeue [OF inv src xs new links, of "set xs"])
    show "sorted (map (\<lambda>t. thread_key (s_threads S t)) ys)"
      using sorted by (auto simp: ys_def sorted_map_remove1 split: option.splits)
    show "u \<in> set ys \<longleftrightarrow> u \<notin> set_option r \<and> td_state (s_threads S u) = THREAD_READY \<and>
        td_cpu_id (s_threads S u) = src" for u
      using xs d by (auto simp: ys_def queue_ok_def split: option.splits)
    show "td_state (s_threads S u) = THREAD_READY \<and> td_cpu_id (s_threads S u) = src \<and> \<not> is_scheduler u S"
      if "(u \<in> {}) \<noteq> (u \<in> set_option r)" for u
      using that xs tin [of u] sched_invD(8) [OF inv] by (auto simp: queue_ok_def is_scheduler_def cpu_ok_def)
  qed (use same in auto)
  then show ?thesis
  proof (cases r)
    case None
    then show ?thesis using \<open>sched_inv (set_option r) ?S\<close> res q by simp
  next
    case (Some t)
    have "td_state (s_threads S t) = THREAD_READY" "td_cpu_id (s_threads S t) = src"
      using tin [OF Some] xs by (auto simp: queue_ok_def)
    then have "in_transit t src S ?S"
      using Some \<open>sched_inv (set_option r) ?S\<close> quiet_mono [OF q empty_subsetI] links_only_fields [OF links]
      by (simp add: in_transit_def)
    then show ?thesis using Some res by simp
  qed
qed

lemma settle_ok:
  assumes tr: "in_transit t src S S'" and dst: "dst < s_cpu_count S"
    and nc: "\<forall>d < s_cpu_count S. c_current (cpu_at d S) \<noteq> t"
    and inv: "sched_ok S"
  shows "in_transit t dst S (settle_pulled dst t S')"
proof -
  have inv': "sched_inv {t} S'" and q: "quiet {t} S S'" and st: "td_state (s_threads S' t) = THREAD_READY"
    and st0: "td_state (s_threads S t) = THREAD_READY"
    using tr by (auto simp: in_transit_def)
  have cnt: "s_cpu_count S' = s_cpu_count S" and sl: "t \<notin> set (s_sleep_list S')"
    and nc': "\<forall>d < s_cpu_count S'. c_current (cpu_at d S') \<noteq> t"
    using quietD [OF q] nc sched_invD(6) [OF inv] st0 by (auto simp: sleep_ok_def)
  have ix: "unat dst < length (s_cpus S')" using sched_inv_index [OF inv'] dst cnt by simp
  have id: "c_id (cpu_at dst S') = dst" using current_place(2) [OF inv'] dst cnt by simp
  have step: "sched_inv {t} (upd_thread t f S1)"
    if "sched_inv {t} S1" "quiet {t} S' S1" for f S1
    by (rule sched_inv_upd_thread [OF that(1)]) (use quietD [OF that(2)] nc' sl in auto)
  define S1 where "S1 = (if td_vruntime (s_threads S' t) < rq_min_vruntime (c_runq (cpu_at dst S'))
      then upd_thread t (\<lambda>x. sched_refresh_deadline (x\<lparr>td_vruntime := rq_min_vruntime (c_runq (cpu_at dst S'))\<rparr>)) S'
      else S')"
  define S2 where "S2 = upd_runq dst (\<lambda>q. q\<lparr>rq_idle := False\<rparr>) S1"
  define S3 where "S3 = upd_thread t (\<lambda>x. x\<lparr>td_cpu_id := dst, td_migrations := td_migrations x + 1\<rparr>) S2"
  have len: "length (s_cpus S1) = length (s_cpus S')" "s_cpu_count S1 = s_cpu_count S'" by (simp_all add: S1_def)
  have q1: "quiet {t} S' S1" unfolding S1_def by (auto intro: quiet_steps)
  have i1: "sched_inv {t} S1" unfolding S1_def using step [OF inv' quiet_refl] inv' by simp
  have q2: "quiet {t} S' S2" unfolding S2_def by (intro quiet_steps q1) (simp add: len ix)
  have i2: "sched_inv {t} S2"
    unfolding S2_def using dst cnt by (intro sched_inv_upd_runq i1) (simp_all add: len)
  have i3: "sched_inv {t} S3" unfolding S3_def by (rule step [OF i2 q2])
  have q3: "quiet {t} S' S3" unfolding S3_def by (rule quiet_steps [OF q2]) simp
  have eq: "settle_pulled dst t S' = sched_stats_add_cpu IDLE_MIGRATIONS dst 1
      (sched_stats_add_cpu IDLE_PULLS dst 1 (sched_stats_add_cpu MIGRATIONS dst 1 S3))"
    unfolding settle_pulled_def Let_def id S1_def [symmetric] S2_def [symmetric] S3_def [symmetric] ..
  have "sched_inv {t} (settle_pulled dst t S')"
    unfolding eq by (rule sched_inv_sameI [OF i3]) (intro same_sched_steps same_sched_refl)
  moreover have "quiet {t} S (settle_pulled dst t S')"
    unfolding eq by (intro quiet_steps quiet_trans [OF q q3])
  moreover have "td_state (s_threads (settle_pulled dst t S') t) = THREAD_READY"
    "td_cpu_id (s_threads (settle_pulled dst t S') t) = dst"
    using st by (simp_all add: eq S3_def S2_def S1_def)
  ultimately show ?thesis using st0 by (simp add: in_transit_def)
qed

lemma next_thread_ok:
  assumes inv: "sched_ok S" and c: "c < s_cpu_count S" and al: "alone c S" and sc: "in_scheduler c S"
  shows "\<exists>r S'. next_thread c S = Some (r, S') \<and>
           (case r of None \<Rightarrow> sched_ok S' \<and> quiet {} S S' | Some t \<Rightarrow> in_transit t c S S')"
proof -
  obtain r h q where pop: "runq_pop (s_threads S) (c_runq (cpu_at c S)) = (r, h, q)" by (metis prod_cases3)
  note pop_facts = pop_ok [OF inv c pop]
  show ?thesis
  proof (cases r)
    case (Some t)
    then show ?thesis using pop_facts(2) pop by (simp add: next_thread_def)
  next
    case None
    then have eq: "next_thread c S = sched_idle_pull c S"
      using pop_facts(1) pop by (simp add: next_thread_def)
    obtain src where src: "pull_source c S (cpu_ids S) (MAX_CPUS, 0) = Some src"
      "src = MAX_CPUS \<or> src \<in> set (cpu_ids S) \<and> src \<noteq> c"
      using pull_source_returns [OF inv, of "cpu_ids S" c "(MAX_CPUS, 0)"] cpu_ids_lt by force
    have id: "c_id (cpu_at c S) = c" by (rule current_place(2) [OF inv c])
    show ?thesis
    proof (cases "s_cpu_count S < 2 \<or> src \<ge> s_cpu_count S")
      case True
      then show ?thesis using eq inv src by (auto simp: sched_idle_pull_def)
    next
      case False
      then have lt: "src < s_cpu_count S" by (simp add: not_le)
      obtain r1 S1 where take: "take_eligible src c S = Some (r1, S1)"
        "case r1 of None \<Rightarrow> sched_ok S1 \<and> quiet {} S S1 | Some t \<Rightarrow> in_transit t src S S1"
        using take_eligible_ok [OF inv lt c] by blast
      show ?thesis
      proof (cases r1)
        case None
        then show ?thesis using take False src eq by (simp add: sched_idle_pull_def id)
      next
        case (Some t)
        have tr: "in_transit t src S S1" using take(2) Some by simp
        then have "\<forall>d < s_cpu_count S. c_current (cpu_at d S) \<noteq> t"
          using ready_not_current [OF inv c al sc] by (simp add: in_transit_def)
        from settle_ok [OF tr c this inv] show ?thesis
          using take False src eq Some by (simp add: sched_idle_pull_def id)
      qed
    qed
  qed
qed


section \<open>Running\<close>

lemma switch_to_ok:
  assumes inv: "sched_inv {t} S" and c: "c < s_cpu_count S" and cpu: "td_cpu_id (s_threads S t) = c"
    and sl: "t \<notin> set (s_sleep_list S)" and sc: "in_scheduler c S"
    and nc: "\<forall>d < s_cpu_count S. c_current (cpu_at d S) \<noteq> t"
  shows "sched_ok (switch_to c t S)" "c_current (cpu_at c (switch_to c t S)) = t"
    "td_state (s_threads (switch_to c t S) t) = THREAD_RUNNING"
proof -
  let ?S1 = "upd_thread t (\<lambda>x. x\<lparr>td_state := THREAD_RUNNING\<rparr>) S"
  have i1: "sched_inv {t} ?S1"
    by (rule sched_inv_upd_thread [OF inv]) (use nc sl in auto)
  let ?S2 = "sched_note_switch c t ?S1"
  have i2: "sched_inv {t} ?S2" and q2: "quiet {} ?S1 ?S2"
    by (rule note_switch_ok [OF i1]; use sl in simp)+
  have t2: "td_state (s_threads ?S2 t) = THREAD_RUNNING" "td_cpu_id (s_threads ?S2 t) = c"
    and cnt: "s_cpu_count ?S2 = s_cpu_count S"
    using quietD(1) [OF q2] quietD(7,8) [OF q2, of t] cpu by simp_all
  have old: "is_scheduler (c_current (cpu_at c ?S2)) ?S2"
    using quietD [OF q2] sc c by (auto simp: is_scheduler_def in_scheduler_def)
  have i3: "sched_inv {} (upd_cpu c (\<lambda>x. x\<lparr>c_current := t\<rparr>) ?S2)"
    by (rule sched_inv_switch [OF i2 _ t2]) (use c cnt old in auto)
  have ix: "unat c < length (s_cpus ?S2)" using sched_inv_index [OF i2] c cnt by simp
  have at: "cpu_at c (switch_to c t S) = (cpu_at c ?S2)\<lparr>c_current := t, c_quantum_left := 5\<rparr>"
    by (simp add: switch_to_def sched_reset_quantum_def cpu_at_upd_cpu ix)
  show "c_current (cpu_at c (switch_to c t S)) = t" by (simp add: at)
  show "td_state (s_threads (switch_to c t S) t) = THREAD_RUNNING"
    using t2 by (simp add: switch_to_def sched_reset_quantum_def)
  show "sched_ok (switch_to c t S)"
    unfolding switch_to_def sched_reset_quantum_def
    by (rule sched_inv_upd_cpu [OF i3]) (simp_all add: cpu_at_upd_cpu ix c cnt t2)
qed

lemma emptied_state [simp]: "td_state (emptied x) = THREAD_EMPTY"
  by (simp add: emptied_def zeroed_thread_def)

lemma reap_ok:
  assumes inv: "sched_inv {t} S" and st: "td_state (s_threads S t) = THREAD_DEAD"
    and sl: "t \<notin> set (s_sleep_list S)" and nc: "\<forall>d < s_cpu_count S. c_current (cpu_at d S) \<noteq> t"
  shows "sched_ok (reap_thread (Some t) S)" and "quiet {t} S (reap_thread (Some t) S)"
    and "td_state (s_threads (reap_thread (Some t) S) t) \<in> {THREAD_DEAD, THREAD_EMPTY}"
proof -
  let ?S1 = "upd_thread t (\<lambda>x. emptied x) S"
  have i1: "sched_inv {t} ?S1" by (rule sched_inv_upd_thread [OF inv]) (use nc sl in auto)
  have e: "td_state (s_threads ?S1 t) = THREAD_EMPTY" by simp
  have i2: "sched_ok ?S1" by (rule sched_inv_settle [OF i1]) simp_all
  have same: "td_task (s_threads S t) = Some a \<Longrightarrow> same_sched ?S1 (reap_thread (Some t) S)" for a
    using st by (simp add: reap_thread_def Let_def same_sched_def upd_thread_def)
  have "sched_ok S" by (rule sched_inv_settle [OF inv]) (simp_all add: st)
  moreover have "quiet {t} S ?S1" by (rule quiet_upd_thread) simp
  ultimately have "sched_ok (reap_thread (Some t) S) \<and> quiet {t} S (reap_thread (Some t) S) \<and>
      td_state (s_threads (reap_thread (Some t) S) t) \<in> {THREAD_DEAD, THREAD_EMPTY}"
  proof (cases "td_task (s_threads S t)")
    case None
    then show ?thesis using \<open>sched_ok S\<close> st by (simp add: reap_thread_def)
  next
    case (Some a)
    have "s_threads (reap_thread (Some t) S) = s_threads ?S1" using same [OF Some] by (simp add: same_sched_def)
    then show ?thesis
      using sched_inv_sameI [OF i2 same [OF Some]] e
        quiet_trans [OF \<open>quiet {t} S ?S1\<close> quiet_same [OF same [OF Some]]] by simp
  qed
  then show "sched_ok (reap_thread (Some t) S)" "quiet {t} S (reap_thread (Some t) S)"
    "td_state (s_threads (reap_thread (Some t) S) t) \<in> {THREAD_DEAD, THREAD_EMPTY}" by simp_all
qed

definition ready :: "sched \<Rightarrow> nat set" where
  "ready S = {t. td_state (s_threads S t) = THREAD_READY}"

lemma finite_ready:
  assumes inv: "sched_ok S"
  shows "finite (ready S)"
proof -
  have "\<forall>c. \<exists>xs. c < s_cpu_count S \<longrightarrow> queue_ok {} c xs S"
    using sched_invD(8) [OF inv] by (auto simp: cpu_ok_def)
  then obtain xs where xs: "\<And>c. c < s_cpu_count S \<Longrightarrow> queue_ok {} c (xs c) S" by metis
  have "ready S \<subseteq> (\<Union>c \<in> {c. c < s_cpu_count S}. set (xs c))"
  proof
    fix t assume t: "t \<in> ready S"
    have "td_cpu_id (s_threads S t) < s_cpu_count S"
      using waiting_okD [OF sched_invD(5) [OF inv], of t] t by (simp add: ready_def)
    then show "t \<in> (\<Union>c \<in> {c. c < s_cpu_count S}. set (xs c))"
      using xs [of "td_cpu_id (s_threads S t)"] t by (auto simp: ready_def queue_ok_def)
  qed
  then show ?thesis by (rule finite_subset) simp
qed

lemma sched_run_ok:
  assumes "sched_ok S" and "c < s_cpu_count S" and "alone c S" and "in_scheduler c S"
  shows "\<exists>r S'. sched_run c S = Some (r, S') \<and> sched_ok S' \<and>
           (\<forall>t. r = Some t \<longrightarrow> c_current (cpu_at c S') = t \<and> td_state (s_threads S' t) = THREAD_RUNNING)"
  using assms
proof (induction "card (ready S)" arbitrary: S rule: less_induct)
  case less
  note inv = less.prems(1) and c = less.prems(2) and al = less.prems(3) and sc = less.prems(4)
  obtain r S1 where nt: "next_thread c S = Some (r, S1)"
    "case r of None \<Rightarrow> sched_ok S1 \<and> quiet {} S S1 | Some t \<Rightarrow> in_transit t c S S1"
    using next_thread_ok [OF inv c al sc] by blast
  show ?case
  proof (cases r)
    case None
    then show ?thesis using nt by (simp add: sched_run.simps [of c S])
  next
    case (Some t)
    then have tr: "sched_inv {t} S1" "quiet {t} S S1" "td_state (s_threads S t) = THREAD_READY"
      "td_state (s_threads S1 t) = THREAD_READY" "td_cpu_id (s_threads S1 t) = c"
      using nt by (auto simp: in_transit_def)
    note q = quietD [OF tr(2)]
    have c1: "c < s_cpu_count S1" and sl: "t \<notin> set (s_sleep_list S1)"
      and nc: "\<forall>d < s_cpu_count S1. c_current (cpu_at d S1) \<noteq> t" and sc1: "in_scheduler c S1"
      using q c sc tr(3) sched_invD(6) [OF inv] ready_not_current [OF inv c al sc tr(3)]
      by (auto simp: sleep_ok_def in_scheduler_def)
    note sw = switch_to_ok [OF tr(1) c1 tr(5) sl sc1 nc]
    let ?S2 = "upd_thread t (\<lambda>x. x\<lparr>td_state := THREAD_DEAD\<rparr>) S1"
    let ?S3 = "reap_thread (Some t) ?S2"
    have i2: "sched_inv {t} ?S2" by (rule sched_inv_upd_thread [OF tr(1)]) (use nc sl in auto)
    note reap = reap_ok [OF i2, simplified, OF sl] and q2 = quiet_upd_thread [of t "{t}" S1]
    have nc2: "\<forall>d < s_cpu_count ?S2. c_current (cpu_at d ?S2) \<noteq> t" using nc by simp
    have q3: "quiet {t} S ?S3"
      by (rule quiet_trans [OF quiet_trans [OF tr(2) q2] reap(2)]) (use nc in auto)
    have "sched_ok ?S3" using reap(1) nc by simp
    moreover have "alone c ?S3" unfolding alone_def
    proof (intro allI impI)
      fix d assume d: "d < s_cpu_count ?S3" "d \<noteq> c"
      then have "d < s_cpu_count S" using quietD(1) [OF q3] by simp
      moreover have "c_current (cpu_at d S) \<noteq> t" by (rule ready_not_current [OF inv c al sc tr(3) calculation])
      ultimately show "td_state (s_threads ?S3 (c_current (cpu_at d ?S3))) \<noteq> THREAD_READY"
        using al d(2) quietD(3,7) [OF q3] by (simp add: alone_def)
    qed
    moreover have "in_scheduler c ?S3" using sc quietD(3,4) [OF q3 c] by (simp add: in_scheduler_def)
    moreover have "card (ready ?S3) < card (ready S)"
    proof (rule psubset_card_mono [OF finite_ready [OF inv]])
      have "x \<in> ready S" if "x \<in> ready ?S3" for x
        using that reap(3) nc quietD(7) [OF q3, of x] tr(3) by (cases "x = t") (auto simp: ready_def)
      moreover have "t \<notin> ready ?S3" using reap(3) nc by (auto simp: ready_def)
      ultimately show "ready ?S3 \<subset> ready S" using tr(3) by (auto simp: ready_def)
    qed
    ultimately have IH: "\<exists>r S'. sched_run c ?S3 = Some (r, S') \<and> sched_ok S' \<and>
        (\<forall>t. r = Some t \<longrightarrow> c_current (cpu_at c S') = t \<and> td_state (s_threads S' t) = THREAD_RUNNING)"
      using less.hyps [of ?S3] c quietD(1) [OF q3] by simp
    show ?thesis
      using nt(1) Some IH sw by (subst sched_run.simps) (simp split: option.split)
  qed
qed


section \<open>Losing the processor\<close>

definition executing :: "u32 \<Rightarrow> sched \<Rightarrow> bool" where
  "executing c S \<longleftrightarrow> \<not> in_scheduler c S \<and> td_state (s_threads S (c_current (cpu_at c S))) = THREAD_RUNNING"

lemma executing_facts:
  assumes inv: "sched_inv X S" and c: "c < s_cpu_count S" and ex: "executing c S"
  shows "td_state (s_threads S (c_current (cpu_at c S))) \<noteq> THREAD_READY"
    "\<not> is_scheduler (c_current (cpu_at c S)) S" "c_current (cpu_at c S) \<notin> set (s_sleep_list S)"
  using ex current_not_scheduler [OF inv c] sched_invD(6) [OF inv]
  by (auto simp: executing_def in_scheduler_def sleep_ok_def)

lemma executing_quiet:
  assumes q: "quiet {} S S'" and c: "c < s_cpu_count S"
  shows "executing c S' = executing c S" "stays t S' = stays t S"
  using quietD [OF q] c by (simp_all add: executing_def in_scheduler_def stays_def)

lemma few_threads_quiet:
  assumes few: "few_threads S" and q: "quiet T S S'" and T: "\<And>t. t \<in> T \<Longrightarrow> td_state (s_threads S t) \<noteq> THREAD_EMPTY"
  shows "few_threads S'"
proof -
  have sub: "{t. td_state (s_threads S' t) \<noteq> THREAD_EMPTY} \<subseteq> {t. td_state (s_threads S t) \<noteq> THREAD_EMPTY}"
  proof
    fix x assume "x \<in> {t. td_state (s_threads S' t) \<noteq> THREAD_EMPTY}"
    then show "x \<in> {t. td_state (s_threads S t) \<noteq> THREAD_EMPTY}"
      using quietD(7) [OF q, of x] T by (cases "x \<in> T") simp_all
  qed
  have fin: "finite {t. td_state (s_threads S t) \<noteq> THREAD_EMPTY}" using few by (simp add: few_threads_def)
  show ?thesis
    using few finite_subset [OF sub fin] card_mono [OF fin sub] by (simp add: few_threads_def)
qed

text \<open>The current thread is put into the run queue of its processor.\<close>

lemma requeue_current:
  assumes inv: "sched_ok S" and c: "c < s_cpu_count S" and ex: "executing c S" and few: "few_threads S"
    and st: "stays (c_current (cpu_at c S)) S"
  shows "\<exists>S'. sched_enqueue_on c c (c_current (cpu_at c S)) S = Some S' \<and> sched_ok S' \<and>
           quiet {c_current (cpu_at c S)} S S' \<and>
           td_state (s_threads S' (c_current (cpu_at c S))) = THREAD_READY"
proof -
  let ?t = "c_current (cpu_at c S)"
  have cur: "\<forall>e < s_cpu_count S. c_current (cpu_at e S) = ?t \<longrightarrow> stays ?t S \<and> c = e"
    using current_unique [OF inv _ c] st by auto
  show ?thesis unfolding sched_enqueue_on_def
    using enqueue_ok [OF inv few _ executing_facts [OF inv c ex] c cur, of c False] by blast
qed

lemma yield_enqueue_ok:
  assumes inv: "sched_ok S" and c: "c < s_cpu_count S" and ex: "executing c S" and few: "few_threads S"
    and st: "stays (c_current (cpu_at c S)) S"
  shows "\<exists>S'. yield_enqueue c S = Some S' \<and> sched_ok S' \<and>
           td_state (s_threads S' (c_current (cpu_at c S'))) = THREAD_READY"
proof -
  let ?S1 = "sched_account_runtime c True S"
  note i1 = account_ok(1) [OF inv c, of True] and q1 = account_ok(2) [OF inv c, of True]
  have c1: "c < s_cpu_count ?S1" and cur: "c_current (cpu_at c ?S1) = c_current (cpu_at c S)"
    using quietD(1,3) [OF q1] c by simp_all
  obtain S2 where S2: "sched_enqueue_on c c (c_current (cpu_at c ?S1)) ?S1 = Some S2" "sched_ok S2"
    "quiet {c_current (cpu_at c ?S1)} ?S1 S2"
    "td_state (s_threads S2 (c_current (cpu_at c ?S1))) = THREAD_READY"
    using requeue_current [OF i1 c1] executing_quiet [OF q1 c] ex st few_threads_quiet [OF few q1] cur by auto
  then show ?thesis using quietD(3) [OF S2(3) c1] cur by (simp add: yield_enqueue_def)
qed

lemma tick_enqueue_ok:
  assumes inv: "sched_ok S" and c: "c < s_cpu_count S" and few: "few_threads S"
    and st: "stays (c_current (cpu_at c S)) S"
  shows "\<exists>b S'. tick_enqueue c S = Some (b, S') \<and> sched_ok S'"
proof (cases "\<not> s_preemption_enabled S \<or> c_current (cpu_at c S) = c_scheduler (cpu_at c S) \<or>
    td_state (s_threads S (c_current (cpu_at c S))) \<noteq> THREAD_RUNNING \<or> rq_count (c_runq (cpu_at c S)) = 0")
  case True
  then show ?thesis using inv by (auto simp: tick_enqueue_def Let_def)
next
  case False
  then have ex: "executing c S" by (simp add: executing_def in_scheduler_def)
  let ?t = "c_current (cpu_at c S)" and ?S1 = "sched_account_runtime c False S"
  note i1 = account_ok(1) [OF inv c, of False] and q1 = account_ok(2) [OF inv c, of False]
  have c1: "c < s_cpu_count ?S1" and cur: "c_current (cpu_at c ?S1) = ?t" using quietD(1,3) [OF q1] c by simp_all
  have ix: "unat c < length (s_cpus ?S1)" by (rule sched_inv_index [OF i1 c1])
  have upd: "sched_ok (upd_cpu c (\<lambda>x. x\<lparr>c_quantum_left := g x\<rparr>) S')"
    if "sched_ok S'" "s_cpu_count S' = s_cpu_count S" for g S'
    by (rule sched_inv_upd_cpu [OF that(1)]) (use c that current_place [OF that(1), of c] in auto)
  define S2 where "S2 = sched_reset_quantum c (sched_stats_add_cpu PREEMPTIONS (c_id (cpu_at c S)) 1
      (upd_thread ?t (\<lambda>x. x\<lparr>td_preemptions := td_preemptions x + 1\<rparr>) ?S1))"
  have ex1: "executing c ?S1" using executing_quiet [OF q1 c] ex by simp
  have "sched_ok (upd_thread ?t (\<lambda>x. x\<lparr>td_preemptions := td_preemptions x + 1\<rparr>) ?S1)"
    by (rule sched_inv_touch [OF i1]) (use executing_facts [OF i1 c1 ex1] cur in auto)
  then have i2: "sched_ok S2"
    unfolding S2_def sched_reset_quantum_def using quietD(1) [OF q1]
    by (intro upd) (auto intro: sched_inv_sameI)
  have q2: "quiet {} S S2"
    unfolding S2_def sched_reset_quantum_def
    by (rule quiet_trans [OF q1], rule quiet_trans [OF _ quiet_upd_cpu])
       (auto intro!: quiet_steps simp: same_place_def ix)
  have c2: "c < s_cpu_count S2" and cur2: "c_current (cpu_at c S2) = ?t" using quietD(1,3) [OF q2] c by simp_all
  obtain S3 where "sched_enqueue_on c c ?t S2 = Some S3" "sched_ok S3"
    using requeue_current [OF i2 c2] executing_quiet [OF q2 c] ex st few_threads_quiet [OF few q2] cur2 by auto
  then show ?thesis
    using False upd [OF i1] quietD(1) [OF q1] by (auto simp: tick_enqueue_def Let_def S2_def [symmetric])
qed

lemma switch_out_ok:
  assumes inv: "sched_inv X S" and c: "c < s_cpu_count S"
    and "in_scheduler c S \<or> c_current (cpu_at c S) \<in> X \<or> td_state (s_threads S (c_current (cpu_at c S))) \<noteq> THREAD_RUNNING"
  shows "sched_inv X (switch_out c S)"
  unfolding switch_out_def
  by (rule sched_inv_upd_cpu [OF inv c])
     (use assms(3) sched_invD(8) [OF inv c] in \<open>auto simp: cpu_ok_def in_scheduler_def\<close>)

lemma thread_exit_ok:
  assumes inv: "sched_ok S" and c: "c < s_cpu_count S" and ex: "executing c S"
  shows "sched_ok (thread_exit c S)"
proof -
  let ?t = "c_current (cpu_at c S)" and ?S1 = "sched_account_runtime c True S"
  note i1 = account_ok(1) [OF inv c, of True] and q1 = account_ok(2) [OF inv c, of True]
  have c1: "c < s_cpu_count ?S1" and cur: "c_current (cpu_at c ?S1) = ?t" using quietD(1,3) [OF q1] c by simp_all
  have ix: "unat c < length (s_cpus ?S1)" by (rule sched_inv_index [OF i1 c1])
  have ex1: "executing c ?S1" using executing_quiet [OF q1 c] ex by simp
  have i2: "sched_inv {?t} ?S1"
    by (rule sched_inv_hold [OF i1]) (use executing_facts [OF i1 c1 ex1] cur in auto)
  let ?S2 = "upd_cpu c (\<lambda>x. x\<lparr>c_reap := Some ?t\<rparr>) ?S1"
  have i3: "sched_inv {?t} ?S2"
    by (rule sched_inv_upd_cpu [OF i2 c1]) (use current_place [OF i2 c1] in auto)
  have i4: "sched_inv {?t} (switch_out c ?S2)"
    by (rule switch_out_ok [OF i3]) (simp_all add: c1 cpu_at_upd_cpu ix cur)
  have ne: "c_current (cpu_at d (switch_out c ?S2)) \<noteq> ?t" if d: "d < s_cpu_count ?S1" for d
  proof (cases "d = c")
    case True
    then show ?thesis
      using ex1 cur by (simp add: switch_out_def cpu_at_upd_cpu ix executing_def in_scheduler_def)
  next
    case False
    then show ?thesis
      using current_unique [OF i1 d c1] cur by (auto simp: switch_out_def cpu_at_upd_cpu ix)
  qed
  have i5: "sched_inv {?t} (upd_thread ?t (\<lambda>x. x\<lparr>td_state := THREAD_DEAD\<rparr>) (switch_out c ?S2))"
    by (rule sched_inv_upd_thread [OF i4])
       (use ne executing_facts [OF i1 c1 ex1] cur in \<open>auto simp: switch_out_def\<close>)
  have "thread_exit c S = upd_thread ?t (\<lambda>x. x\<lparr>td_state := THREAD_DEAD\<rparr>) (switch_out c ?S2)"
    by (simp add: thread_exit_def switch_out_def upd_cpu_def upd_thread_def Let_def)
  moreover have "sched_ok (upd_thread ?t (\<lambda>x. x\<lparr>td_state := THREAD_DEAD\<rparr>) (switch_out c ?S2))"
    by (rule sched_inv_settle [OF i5]) simp_all
  ultimately show ?thesis by simp
qed

text \<open>The current thread becomes blocked and stays the current one.\<close>

lemma block_current:
  assumes inv: "sched_ok S" and c: "c < s_cpu_count S" and ex: "executing c S"
    and f: "td_state (f (s_threads S (c_current (cpu_at c S)))) = THREAD_BLOCKED"
      "td_cpu_id (f (s_threads S (c_current (cpu_at c S)))) = td_cpu_id (s_threads S (c_current (cpu_at c S)))"
  shows "sched_ok (upd_thread (c_current (cpu_at c S)) f S)"
proof -
  let ?t = "c_current (cpu_at c S)"
  note facts = executing_facts [OF inv c ex]
  have cpu: "td_cpu_id (s_threads S ?t) = c" by (rule current_place(1) [OF inv c])
  have i1: "sched_inv {?t} (upd_thread ?t f S)"
  proof (rule sched_inv_upd_thread [OF sched_inv_hold [OF inv facts(1,2)]])
    show "td_cpu_id (f (s_threads S ?t)) = e \<and> td_state (f (s_threads S ?t)) \<notin> {THREAD_DEAD, THREAD_EMPTY}"
      if "e < s_cpu_count S" "c_current (cpu_at e S) = ?t" for e
      using current_unique [OF inv that(1) c that(2)] f cpu by simp
  qed (use facts in auto)
  show ?thesis by (rule sched_inv_settle [OF i1]) (use f cpu c in auto)
qed

lemma prepare_block_ok:
  assumes inv: "sched_ok S" and c: "c < s_cpu_count S" and ex: "executing c S"
  shows "sched_ok (snd (prepare_block c S))"
proof -
  note i1 = account_ok(1) [OF inv c, of True] and q1 = account_ok(2) [OF inv c, of True]
  have c1: "c < s_cpu_count (sched_account_runtime c True S)"
    and cur: "c_current (cpu_at c (sched_account_runtime c True S)) = c_current (cpu_at c S)"
    using quietD(1,3) [OF q1] c by simp_all
  have "sched_ok (upd_thread (c_current (cpu_at c S))
      (\<lambda>x. x\<lparr>td_blocked_since_tick := s_ticks S, td_state := THREAD_BLOCKED\<rparr>) (sched_account_runtime c True S))"
    unfolding cur [symmetric]
    by (rule block_current [OF i1 c1]) (use executing_quiet [OF q1 c] ex in auto)
  then show ?thesis using ex thread_exit_ok [OF inv c ex]
    by (simp add: prepare_block_def Let_def executing_def in_scheduler_def)
qed


section \<open>Sleeping and waking\<close>

lemma sleep_insert_set: "set (sleep_insert h w t xs) = insert t (set xs)"
  by (induction xs) auto

lemma sleep_insert_distinct: "distinct (sleep_insert h w t xs) \<longleftrightarrow> t \<notin> set xs \<and> distinct xs"
  by (induction xs) (auto simp: sleep_insert_set)

lemma sleep_insert_sorted:
  assumes "sorted (map (\<lambda>x. td_wake_tick (h x)) xs)" and "w = td_wake_tick (h t)"
  shows "sorted (map (\<lambda>x. td_wake_tick (h x)) (sleep_insert h w t xs))"
  using assms by (induction xs) (auto simp: sleep_insert_set)

lemma sched_ok_sleep_list:
  assumes "sched_ok S" and "sleep_ok (S\<lparr>s_sleep_list := l\<rparr>)"
  shows "sched_ok (S\<lparr>s_sleep_list := l\<rparr>)"
proof -
  have at: "cpu_at c (S\<lparr>s_sleep_list := l\<rparr>) = cpu_at c S" for c by (simp add: cpu_at_def)
  show ?thesis
    using assms by (simp add: sched_inv_def cpu_ok_def queue_ok_def running_ok_def waiting_ok_def
        is_scheduler_def at)
qed

lemma sleep_enqueue_ok:
  assumes inv: "sched_ok S" and c: "c < s_cpu_count S" and ex: "executing c S"
  shows "sched_ok (sleep_enqueue c ticks S)"
proof -
  let ?S1 = "sched_account_runtime c True S" and ?t = "c_current (cpu_at c S)"
  note i1 = account_ok(1) [OF inv c, of True] and q1 = account_ok(2) [OF inv c, of True]
  have c1: "c < s_cpu_count ?S1" and cur: "c_current (cpu_at c ?S1) = ?t" using quietD(1,3) [OF q1] c by simp_all
  have ex1: "executing c ?S1" using executing_quiet [OF q1 c] ex by simp
  let ?f = "\<lambda>x. x\<lparr>td_wake_tick := s_ticks ?S1 + ticks, td_blocked_since_tick := s_ticks ?S1, td_state := THREAD_BLOCKED\<rparr>"
  let ?S2 = "upd_thread ?t ?f ?S1"
  let ?l = "sleep_insert (s_threads ?S2) (td_wake_tick (s_threads ?S2 ?t)) ?t (s_sleep_list ?S1)"
  have i2: "sched_ok ?S2" using block_current [OF i1 c1 ex1, of ?f] cur by simp
  have notin: "?t \<notin> set (s_sleep_list ?S1)" using executing_facts(3) [OF i1 c1 ex1] cur by simp
  have "sleep_insert h w u xs = sleep_insert h' w u xs"
    if "\<And>x. x \<in> set xs \<Longrightarrow> td_wake_tick (h x) = td_wake_tick (h' x)" for h h' w u xs
    using that by (induction xs) auto
  from this [of "s_sleep_list ?S1" "s_threads ?S2"
      "(s_threads ?S1)(?t := (s_threads ?S1 ?t)\<lparr>td_wake_tick := s_ticks ?S1 + ticks, td_blocked_since_tick := s_ticks ?S1\<rparr>)"]
  have eq: "sleep_enqueue c ticks S = ?S2\<lparr>s_sleep_list := ?l\<rparr>"
    by (simp add: sleep_enqueue_def Let_def upd_thread_def)
  have sl: "sleep_ok ?S2" by (rule sched_invD(6) [OF i2])
  have "sleep_ok (?S2\<lparr>s_sleep_list := ?l\<rparr>)"
    using sl notin sleep_insert_sorted [of "s_threads ?S2" "s_sleep_list ?S1" _ ?t]
    by (auto simp: sleep_ok_def sleep_insert_set sleep_insert_distinct)
  then show ?thesis unfolding eq by (rule sched_ok_sleep_list [OF i2])
qed

lemma unblock_ok:
  assumes inv: "sched_ok S" and few: "few_threads S" and sl: "t \<notin> set (s_sleep_list S)" and mv: "movable t S"
  shows "\<exists>S'. unblock here t S = Some S' \<and> sched_ok S' \<and> quiet {t} S S' \<and>
           (td_state (s_threads S t) = THREAD_BLOCKED \<longrightarrow> td_state (s_threads S' t) = THREAD_READY)"
proof (cases "td_state (s_threads S t) = THREAD_BLOCKED")
  case False
  then show ?thesis using inv by (simp add: unblock_def)
next
  case True
  have c: "td_cpu_id (s_threads S t) < s_cpu_count S"
    using waiting_okD [OF sched_invD(5) [OF inv], of t] True by simp
  have ns: "\<not> is_scheduler t S" using True sched_invD(8) [OF inv] by (auto simp: is_scheduler_def cpu_ok_def)
  have cur: "\<forall>e < s_cpu_count S. c_current (cpu_at e S) = t \<longrightarrow> stays t S \<and> td_cpu_id (s_threads S t) = e"
    using mv current_place(1) [OF inv] by (auto simp: movable_def)
  have st: "td_state (s_threads S t) \<noteq> THREAD_READY" using True by simp
  obtain S' where "sched_enqueue_on_reason here (td_cpu_id (s_threads S t)) t True S = Some S'" "sched_ok S'"
    "quiet {t} S S'" "td_state (s_threads S' t) = THREAD_READY"
    using enqueue_ok [OF inv few _ st ns sl c cur, of here True] by blast
  then show ?thesis using True by (simp add: unblock_def)
qed

lemma movable_quiet:
  assumes "quiet {u} S S'" and "t \<noteq> u" and "movable t S"
  shows "movable t S'"
  using quietD(1) [OF assms(1)] quietD(8,9) [OF assms(1), of t] quietD(3) [OF assms(1)] assms(2,3)
  by (auto simp: movable_def stays_def)

lemma wake_all_ok:
  assumes "sched_ok S" and "few_threads S" and "distinct ts"
    and "\<forall>t \<in> set ts. td_state (s_threads S t) = THREAD_BLOCKED \<and> t \<notin> set (s_sleep_list S) \<and> movable t S"
  shows "\<exists>S'. wake_all here ts S = Some S' \<and> sched_ok S' \<and> quiet (set ts) S S' \<and>
           (\<forall>t \<in> set ts. td_state (s_threads S' t) = THREAD_READY)"
  using assms
proof (induction ts arbitrary: S)
  case Nil
  then show ?case by simp
next
  case (Cons t ts)
  have st: "td_state (s_threads S t) = THREAD_BLOCKED" and sl: "t \<notin> set (s_sleep_list S)" and mv: "movable t S"
    using Cons.prems(4) by auto
  let ?S1 = "upd_thread t (\<lambda>x. x\<lparr>td_wake_tick := 0\<rparr>) S"
  have ns: "\<not> is_scheduler t S" using st sched_invD(8) [OF Cons.prems(1)] by (auto simp: is_scheduler_def cpu_ok_def)
  have cpu: "td_cpu_id (s_threads S t) < s_cpu_count S"
    using waiting_okD [OF sched_invD(5) [OF Cons.prems(1)], of t] st by simp
  have i1: "sched_inv {t} ?S1"
  proof (rule sched_inv_upd_thread [OF sched_inv_hold [OF Cons.prems(1) _ ns]])
    show "td_cpu_id ((s_threads S t)\<lparr>td_wake_tick := 0\<rparr>) = e \<and>
        td_state ((s_threads S t)\<lparr>td_wake_tick := 0\<rparr>) \<notin> {THREAD_DEAD, THREAD_EMPTY}"
      if "e < s_cpu_count S" "c_current (cpu_at e S) = t" for e
      using current_place(1) [OF Cons.prems(1) that(1)] that(2) st by auto
  qed (use st sl in auto)
  have ok1: "sched_ok ?S1" by (rule sched_inv_settle [OF i1]) (use st cpu in auto)
  have q1: "quiet {t} S ?S1" by (rule quiet_upd_thread) simp
  have few1: "few_threads ?S1" by (rule few_threads_quiet [OF Cons.prems(2) q1]) (simp add: st)
  have mv1: "movable t ?S1" using mv by (simp add: movable_def stays_def)
  obtain S2 where S2: "unblock here t ?S1 = Some S2" "sched_ok S2" "quiet {t} ?S1 S2"
    "td_state (s_threads S2 t) = THREAD_READY"
    using unblock_ok [OF ok1 few1 _ mv1] sl st by auto
  have q2: "quiet {t} S S2" by (rule quiet_trans [OF q1 S2(3)])
  have few2: "few_threads S2" by (rule few_threads_quiet [OF Cons.prems(2) q2]) (simp add: st)
  have "\<forall>u \<in> set ts. td_state (s_threads S2 u) = THREAD_BLOCKED \<and> u \<notin> set (s_sleep_list S2) \<and> movable u S2"
  proof
    fix u assume u: "u \<in> set ts"
    then have "u \<noteq> t" using Cons.prems(3) by auto
    then show "td_state (s_threads S2 u) = THREAD_BLOCKED \<and> u \<notin> set (s_sleep_list S2) \<and> movable u S2"
      using Cons.prems(4) u movable_quiet [OF q2] quietD(2) [OF q2] quietD(7) [OF q2, of u] by auto
  qed
  then obtain S3 where S3: "wake_all here ts S2 = Some S3" "sched_ok S3" "quiet (set ts) S2 S3"
    "\<forall>u \<in> set ts. td_state (s_threads S3 u) = THREAD_READY"
    using Cons.IH [OF S2(2) few2] Cons.prems(3) by auto
  have "quiet (set (t # ts)) S S3"
    by (rule quiet_trans [OF quiet_mono [OF q2] quiet_mono [OF S3(3)]]) auto
  moreover have "td_state (s_threads S3 t) = THREAD_READY"
    using quietD(7) [OF S3(3), of t] S2(4) Cons.prems(3) by simp
  ultimately show ?case using S2(1) S3 by simp
qed

lemma take_due_eq:
  "take_due h now xs r =
     (rev (filter (\<lambda>x. td_wake_tick (h x) \<le> now) xs) @ r, filter (\<lambda>x. td_wake_tick (h x) > now) xs)"
  by (induction xs arbitrary: r) (auto simp: not_less)

lemma sched_wake_sleepers_ok:
  assumes inv: "sched_ok S" and few: "few_threads S" and mv: "\<forall>t \<in> set (s_sleep_list S). movable t S"
  shows "\<exists>S'. sched_wake_sleepers here now S = Some S' \<and> sched_ok S' \<and>
     s_sleep_list S' = filter (\<lambda>t. td_wake_tick (s_threads S t) > now) (s_sleep_list S) \<and>
     (\<forall>t \<in> set (s_sleep_list S). td_state (s_threads S' t) =
        (if td_wake_tick (s_threads S t) \<le> now then THREAD_READY else THREAD_BLOCKED)) \<and>
     quiet {t \<in> set (s_sleep_list S). td_wake_tick (s_threads S t) \<le> now}
       (S\<lparr>s_sleep_list := filter (\<lambda>t. td_wake_tick (s_threads S t) > now) (s_sleep_list S)\<rparr>) S'"
proof -
  let ?due = "filter (\<lambda>t. td_wake_tick (s_threads S t) \<le> now) (s_sleep_list S)"
  let ?rest = "filter (\<lambda>t. td_wake_tick (s_threads S t) > now) (s_sleep_list S)"
  let ?S1 = "S\<lparr>s_sleep_list := ?rest\<rparr>"
  have sl: "sleep_ok S" by (rule sched_invD(6) [OF inv])
  have "sleep_ok ?S1"
    using sl by (auto simp: sleep_ok_def intro: sorted_filter)
  then have i1: "sched_ok ?S1" by (rule sched_ok_sleep_list [OF inv])
  have at: "cpu_at c ?S1 = cpu_at c S" for c by (simp add: cpu_at_def)
  have few1: "few_threads ?S1" using few by (simp add: few_threads_def)
  have pre: "\<forall>t \<in> set (rev ?due). td_state (s_threads ?S1 t) = THREAD_BLOCKED \<and> t \<notin> set (s_sleep_list ?S1) \<and> movable t ?S1"
    using sl mv by (auto simp: sleep_ok_def movable_def stays_def at)
  have d: "distinct (rev ?due)" using sl by (simp add: sleep_ok_def)
  obtain S2 where S2: "wake_all here (rev ?due) ?S1 = Some S2" "sched_ok S2" "quiet (set (rev ?due)) ?S1 S2"
    "\<forall>t \<in> set (rev ?due). td_state (s_threads S2 t) = THREAD_READY"
    using wake_all_ok [OF i1 few1 d pre] by blast
  have res: "sched_wake_sleepers here now S = Some S2"
    using S2(1) by (simp add: sched_wake_sleepers_def take_due_eq)
  have "td_state (s_threads S2 t) = (if td_wake_tick (s_threads S t) \<le> now then THREAD_READY else THREAD_BLOCKED)"
    if "t \<in> set (s_sleep_list S)" for t
    using S2(4) quietD(7) [OF S2(3), of t] that sl by (auto simp: sleep_ok_def)
  then show ?thesis using res S2(2,3) quietD(2) [OF S2(3)] by simp
qed


section \<open>Handing over and creating\<close>

lemma handoff_ok:
  assumes inv: "sched_ok S" and c: "c < s_cpu_count S" and few: "few_threads S"
    and ex: "in_scheduler c S \<or> executing c S" and st: "stays (c_current (cpu_at c S)) S"
    and t: "\<forall>t. thread = Some t \<longrightarrow> t \<notin> set (s_sleep_list S) \<and> movable t S"
  shows "\<exists>r S'. sched_handoff c thread S = Some (r, S') \<and> sched_ok S'"
proof (cases thread)
  case None
  then show ?thesis using inv by (simp add: sched_handoff_def Let_def)
next
  case (Some u)
  let ?prev = "c_current (cpu_at c S)" and ?S1 = "sched_account_runtime c True S"
  have sl: "u \<notin> set (s_sleep_list S)" and mv: "movable u S" using t Some by auto
  obtain S' where ub: "unblock c u S = Some S'" "sched_ok S'" "quiet {u} S S'"
    using unblock_ok [OF inv few sl mv] by blast
  show ?thesis
  proof (cases "td_state (s_threads S u) \<noteq> THREAD_BLOCKED \<or> in_scheduler c S \<or>
      td_cpu_id (s_threads S u) \<noteq> c_id (cpu_at c S) \<or> c_handoff_depth (cpu_at c S) \<noteq> 0")
    case True
    then show ?thesis using Some ub inv by (auto simp: sched_handoff_def Let_def in_scheduler_def)
  next
    case False
    then have ex': "executing c S" and b: "td_state (s_threads S u) = THREAD_BLOCKED"
      and cpu: "td_cpu_id (s_threads S u) = c"
      using ex current_place(2) [OF inv c] by auto
    have up: "u \<noteq> ?prev" using ex' b by (auto simp: executing_def)
    show ?thesis
    proof (cases "current_killing c S")
      case True
      have "executing c S'"
        using ex' quietD(3,4) [OF ub(3) c] quietD(7) [OF ub(3), of ?prev] up
        by (simp add: executing_def in_scheduler_def)
      then have "sched_ok (thread_exit c S')" using ub c quietD(1) [OF ub(3)] by (simp add: thread_exit_ok)
      then show ?thesis using False True Some ub by (simp add: sched_handoff_def Let_def in_scheduler_def)
    next
      case nk: False
      note i1 = account_ok(1) [OF inv c, of True] and q1 = account_ok(2) [OF inv c, of True]
      have c1: "c < s_cpu_count ?S1" and cur: "c_current (cpu_at c ?S1) = ?prev"
        using quietD(1,3) [OF q1] c by simp_all
      obtain S2 where S2: "sched_enqueue_on c c ?prev ?S1 = Some S2" "sched_ok S2" "quiet {?prev} ?S1 S2"
        "td_state (s_threads S2 ?prev) = THREAD_READY"
        using requeue_current [OF i1 c1] executing_quiet [OF q1 c] ex' st few_threads_quiet [OF few q1] cur by auto
      have q2: "quiet {?prev} S S2" by (rule quiet_trans [OF quiet_mono [OF q1] S2(3)]) (rule empty_subsetI)
      have u2: "td_state (s_threads S2 u) = THREAD_BLOCKED" "td_cpu_id (s_threads S2 u) = c"
        and c2: "c < s_cpu_count S2" and sl2: "u \<notin> set (s_sleep_list S2)"
        and cur2: "c_current (cpu_at c S2) = ?prev"
        using quietD(7,8) [OF q2, of u] quietD(1,2) [OF q2] quietD(3) [OF q2 c] up b cpu c sl by simp_all
      have nc2: "\<forall>e < s_cpu_count S2. c_current (cpu_at e S2) \<noteq> u"
      proof (intro allI impI notI)
        fix e assume e: "e < s_cpu_count S2" "c_current (cpu_at e S2) = u"
        then have "e = c" using current_place(1) [OF S2(2) e(1)] u2(2) by simp
        then show False using e(2) cur2 up by simp
      qed
      have ns: "\<not> is_scheduler u S2"
        using u2 sched_invD(8) [OF S2(2)] by (auto simp: is_scheduler_def cpu_ok_def)
      let ?S3 = "handoff_wake u (c_id (cpu_at c S)) S2"
      have "sched_inv {u} (upd_thread u (\<lambda>x. x\<lparr>td_state := THREAD_RUNNING, td_blocked_since_tick := 0,
          td_enqueue_tick := 0, td_wake_ready_tick := s_ticks S2, td_wakeups := td_wakeups x + 1\<rparr>) S2)"
        by (rule sched_inv_upd_thread [OF sched_inv_hold [OF S2(2) _ ns]]) (use u2 nc2 sl2 in auto)
      then have i3: "sched_inv {u} ?S3" unfolding handoff_wake_def by (rule sched_inv_sameI) simp
      have u3: "td_state (s_threads ?S3 u) = THREAD_RUNNING" "td_cpu_id (s_threads ?S3 u) = c"
        and c3: "c < s_cpu_count ?S3" and sl3: "u \<notin> set (s_sleep_list ?S3)"
        using u2 c2 sl2 by (simp_all add: handoff_wake_def)
      have at3: "cpu_at e ?S3 = cpu_at e S2" for e by (simp add: handoff_wake_def cpu_at_def upd_thread_def)
      let ?S4 = "sched_note_switch c u ?S3"
      have i4: "sched_inv {u} ?S4" and q4: "quiet {} ?S3 ?S4"
        by (rule note_switch_ok [OF i3 _ u3(1) sl3]; simp)+
      have prev4: "c_current (cpu_at c ?S4) = ?prev" "td_state (s_threads ?S4 ?prev) = THREAD_READY"
        using quietD(3) [OF q4 c3] quietD(7) [OF q4, of ?prev] at3 cur2 S2(4) up
        by (auto simp: handoff_wake_def)
      have u4: "td_state (s_threads ?S4 u) = THREAD_RUNNING" "td_cpu_id (s_threads ?S4 u) = c"
        and c4: "c < s_cpu_count ?S4"
        using quietD(7,8) [OF q4, of u] quietD(1) [OF q4] u3 c3 by simp_all
      have ix: "unat c < length (s_cpus ?S4)" by (rule sched_inv_index [OF i4 c4])
      let ?S5 = "upd_cpu c (\<lambda>x. x\<lparr>c_current := u\<rparr>) ?S4"
      have i5: "sched_ok ?S5" by (rule sched_inv_switch [OF i4 c4 u4]) (simp add: prev4)
      have upd: "sched_ok (upd_cpu c f S')"
        if "sched_ok S'" "s_cpu_count S' = s_cpu_count ?S4"
          "\<And>x. c_id (f x) = c_id x \<and> c_scheduler (f x) = c_scheduler x \<and> c_runq (f x) = c_runq x \<and>
                c_current (f x) = c_current x" for f S'
        by (rule sched_inv_upd_cpu [OF that(1)]) (use that c4 current_place [OF that(1), of c] in auto)
      have "sched_ok (upd_cpu c (\<lambda>x. x\<lparr>c_handoff_depth := c_handoff_depth x + 1\<rparr>) (sched_reset_quantum c ?S5))"
        unfolding sched_reset_quantum_def by (intro upd i5) simp_all
      then show ?thesis
        using False nk Some S2(1) by (simp add: sched_handoff_def Let_def in_scheduler_def)
    qed
  qed
qed

lemma thread_create_placed_ok:
  assumes inv: "sched_ok S" and few: "few_threads S" and c: "c < s_cpu_count S"
    and fresh: "td_state (s_threads S (s_next_addr S)) = THREAD_EMPTY"
  shows "\<exists>r S'. thread_create_placed here task c S = Some (r, S') \<and> sched_ok S'"
proof (cases task)
  case None
  then show ?thesis using inv by (simp add: thread_create_placed_def)
next
  case (Some a)
  let ?S0 = "S\<lparr>s_allocs := tl (s_allocs S)\<rparr>" and ?t = "s_next_addr S"
  have i0: "sched_ok ?S0" by (rule sched_inv_sameI [OF inv]) (simp add: same_sched_def)
  show ?thesis
  proof (cases "ts_dead (s_tasks S a) \<or> ts_killing (s_tasks S a) \<or> s_allocs S = [] \<or> \<not> hd (s_allocs S)")
    case True
    then show ?thesis using inv i0 Some by (auto simp: thread_create_placed_def)
  next
    case False
    let ?S1 = "link_new_thread ?t a ?S0"
    have st: "td_state (new_thread a ?S0) = THREAD_EMPTY" by (simp add: new_thread_def zeroed_thread_def)
    have nc: "\<forall>e < s_cpu_count S. c_current (cpu_at e S) \<noteq> ?t"
    proof (intro allI impI notI)
      fix e assume "e < s_cpu_count S" "c_current (cpu_at e S) = ?t"
      then show False using current_place(3) [OF inv, of e] fresh by simp
    qed
    have sl: "?t \<notin> set (s_sleep_list S)" using sched_invD(6) [OF inv] fresh by (auto simp: sleep_ok_def)
    have ns: "\<not> is_scheduler ?t S" using fresh sched_invD(8) [OF inv] by (auto simp: is_scheduler_def cpu_ok_def)
    have "sched_inv {?t} (upd_thread ?t (\<lambda>_. new_thread a ?S0) S)"
      by (rule sched_inv_upd_thread [OF sched_inv_hold [OF inv _ ns]]) (use fresh nc sl in auto)
    then have "sched_ok (upd_thread ?t (\<lambda>_. new_thread a ?S0) S)"
      by (rule sched_inv_settle) (simp_all add: st)
    then have i1: "sched_ok ?S1"
      by (rule sched_inv_sameI) (simp add: same_sched_def link_new_thread_def upd_thread_def)
    obtain d S2 where ch: "(if td_affinity_mask (s_threads ?S1 ?t) AND cpu_bit c = 0
        then sched_select_auto_cpu_mask (td_affinity_mask (s_threads ?S1 ?t)) ?S1 else (c, ?S1)) = (d, S2)"
      by fastforce
    have cnt: "s_cpu_count ?S1 = s_cpu_count S" by (simp add: link_new_thread_def)
    have "d < s_cpu_count S \<and> same_sched ?S1 S2"
    proof (cases "td_affinity_mask (s_threads ?S1 ?t) AND cpu_bit c = 0")
      case True
      then show ?thesis
        using ch cnt select_auto_lt [OF sched_invD(2) [OF i1], of "td_affinity_mask (s_threads ?S1 ?t)"]
          select_auto_same [of ?S1 "td_affinity_mask (s_threads ?S1 ?t)"] by simp
    next
      case False
      then show ?thesis using ch c by auto
    qed
    then have d: "d < s_cpu_count S" and same: "same_sched ?S1 S2" by simp_all
    have i2: "sched_ok S2" by (rule sched_inv_sameI [OF i1 same])
    have th: "s_threads S2 = (s_threads S)(?t := new_thread a ?S0)" "s_sleep_list S2 = s_sleep_list S"
      "s_cpu_count S2 = s_cpu_count S" and at: "cpu_at e S2 = cpu_at e S" for e
      using same by (auto simp: same_sched_def link_new_thread_def cpu_at_def)
    have "{t. td_state (s_threads S2 t) \<noteq> THREAD_EMPTY} = {t. td_state (s_threads S t) \<noteq> THREAD_EMPTY}"
      using fresh st by (auto simp: th)
    then have few2: "few_threads S2" using few by (simp add: few_threads_def)
    have ns2: "\<not> is_scheduler ?t S2" using ns by (simp add: is_scheduler_def th at)
    have st2: "td_state (s_threads S2 ?t) \<noteq> THREAD_READY" using st by (simp add: th)
    have sl2: "?t \<notin> set (s_sleep_list S2)" and d2: "d < s_cpu_count S2"
      and cur2: "\<forall>e < s_cpu_count S2. c_current (cpu_at e S2) = ?t \<longrightarrow> stays ?t S2 \<and> d = e"
      using sl d nc by (simp_all add: th at)
    obtain S' where "sched_enqueue_on here d ?t S2 = Some S'" "sched_ok S'"
      unfolding sched_enqueue_on_def
      using enqueue_ok [OF i2 few2 _ st2 ns2 sl2 d2 cur2, of here False] by blast
    then show ?thesis using False Some ch by (simp add: thread_create_placed_def Let_def)
  qed
qed


section \<open>The transition system\<close>

datatype sched_call =
    Run u32
  | Resume u32
  | Idle_Wait u32
  | Yield u32
  | Tick u32
  | Prepare_Block u32
  | Sleep u32 u64
  | Switch_Out u32
  | Exit u32
  | Unblock u32 nat
  | Wake_Sleepers u32 u64
  | Handoff u32 "nat option"
  | Create u32 "nat option" u32
  | Clock u64
  | Enable_Preemption

fun run_sched_call :: "sched_call \<Rightarrow> sched \<Rightarrow> sched option" where
  "run_sched_call (Run c) S = map_option snd (sched_run c S)"
| "run_sched_call (Resume c) S = Some (sched_run_resume c S)"
| "run_sched_call (Idle_Wait c) S = Some (sched_idle_wait c S)"
| "run_sched_call (Yield c) S = yield_enqueue c S"
| "run_sched_call (Tick c) S = map_option snd (tick_enqueue c S)"
| "run_sched_call (Prepare_Block c) S = Some (snd (prepare_block c S))"
| "run_sched_call (Sleep c n) S = Some (sleep_enqueue c n S)"
| "run_sched_call (Switch_Out c) S = Some (switch_out c S)"
| "run_sched_call (Exit c) S = Some (thread_exit c S)"
| "run_sched_call (Unblock c t) S = unblock c t S"
| "run_sched_call (Wake_Sleepers c n) S = sched_wake_sleepers c n S"
| "run_sched_call (Handoff c t) S = map_option snd (sched_handoff c t S)"
| "run_sched_call (Create c a d) S = map_option snd (thread_create_placed c a d S)"
| "run_sched_call (Clock n) S = Some (S\<lparr>s_ticks := n\<rparr>)"
| "run_sched_call Enable_Preemption S = Some (sched_enable_preemption S)"

text \<open>
  When a call can be made: by a thread that is executing or by the scheduler's own thread, and
  such that no thread changes processor while a processor still executes it (see \<open>alone\<close>,
  \<open>stays\<close> and \<open>movable\<close>; the code does not check this). A sleeping thread is woken by the
  timer only, and the allocator hands out memory that no thread uses.
\<close>

fun sched_call_ok :: "sched_call \<Rightarrow> sched \<Rightarrow> bool" where
  "sched_call_ok (Run c) S \<longleftrightarrow> c < s_cpu_count S \<and> in_scheduler c S \<and> alone c S"
| "sched_call_ok (Resume c) S \<longleftrightarrow> c < s_cpu_count S"
| "sched_call_ok (Idle_Wait c) S \<longleftrightarrow> c < s_cpu_count S"
| "sched_call_ok (Yield c) S \<longleftrightarrow> c < s_cpu_count S \<and> executing c S \<and> stays (c_current (cpu_at c S)) S"
| "sched_call_ok (Tick c) S \<longleftrightarrow> c < s_cpu_count S \<and> stays (c_current (cpu_at c S)) S"
| "sched_call_ok (Prepare_Block c) S \<longleftrightarrow> c < s_cpu_count S \<and> executing c S"
| "sched_call_ok (Sleep c n) S \<longleftrightarrow> c < s_cpu_count S \<and> executing c S"
| "sched_call_ok (Switch_Out c) S \<longleftrightarrow> c < s_cpu_count S \<and> \<not> executing c S"
| "sched_call_ok (Exit c) S \<longleftrightarrow> c < s_cpu_count S \<and> executing c S"
| "sched_call_ok (Unblock c t) S \<longleftrightarrow> t \<notin> set (s_sleep_list S) \<and> movable t S"
| "sched_call_ok (Wake_Sleepers c n) S \<longleftrightarrow> (\<forall>t \<in> set (s_sleep_list S). movable t S)"
| "sched_call_ok (Handoff c thread) S \<longleftrightarrow> c < s_cpu_count S \<and> (in_scheduler c S \<or> executing c S) \<and>
     stays (c_current (cpu_at c S)) S \<and>
     (\<forall>t. thread = Some t \<longrightarrow> t \<notin> set (s_sleep_list S) \<and> movable t S)"
| "sched_call_ok (Create c a d) S \<longleftrightarrow> d < s_cpu_count S \<and>
     td_state (s_threads S (s_next_addr S)) = THREAD_EMPTY"
| "sched_call_ok (Clock n) S \<longleftrightarrow> True"
| "sched_call_ok Enable_Preemption S \<longleftrightarrow> True"

lemma resume_ok:
  assumes inv: "sched_ok S" and c: "c < s_cpu_count S"
  shows "sched_ok (sched_run_resume c S)"
proof -
  let ?S1 = "upd_cpu c (\<lambda>x. x\<lparr>c_reap := None\<rparr>) S"
  have i1: "sched_ok ?S1"
    by (rule sched_inv_upd_cpu [OF inv c]) (use current_place [OF inv c] in auto)
  show ?thesis
  proof (cases "\<exists>t. c_reap (cpu_at c S) = Some t \<and> td_state (s_threads ?S1 t) = THREAD_DEAD")
    case True
    then obtain t where t: "c_reap (cpu_at c S) = Some t" and dead: "td_state (s_threads ?S1 t) = THREAD_DEAD" by auto
    have ns: "\<not> is_scheduler t ?S1" using dead sched_invD(8) [OF i1] by (auto simp: is_scheduler_def cpu_ok_def)
    have i2: "sched_inv {t} ?S1" by (rule sched_inv_hold [OF i1 _ ns]) (use dead in simp)
    have "sched_ok (reap_thread (Some t) ?S1)"
      by (rule reap_ok(1) [OF i2 dead])
         (use sched_invD(6) [OF i1] dead current_place(3) [OF i1] in \<open>auto simp: sleep_ok_def\<close>)
    then show ?thesis using t by (simp add: sched_run_resume_def)
  next
    case False
    then have "reap_thread (c_reap (cpu_at c S)) ?S1 = ?S1"
      by (auto simp: reap_thread_def split: option.split)
    then show ?thesis using i1 by (simp add: sched_run_resume_def)
  qed
qed

lemma sched_call_returns:
  assumes inv: "sched_ok S" and few: "few_threads S" and ok: "sched_call_ok k S"
  shows "\<exists>S'. run_sched_call k S = Some S' \<and> sched_ok S'"
proof (cases k)
  case (Run c)
  then show ?thesis using sched_run_ok [OF inv, of c] ok by auto
next
  case (Resume c)
  then show ?thesis using resume_ok [OF inv] ok by simp
next
  case (Idle_Wait c)
  then show ?thesis
    using sched_inv_upd_runq [OF inv, of c "\<lambda>q. q\<lparr>rq_idle := (rq_count q = 0)\<rparr>"] ok
    by (simp add: sched_idle_wait_def)
next
  case (Yield c)
  then show ?thesis using yield_enqueue_ok [OF inv, of c] few ok by auto
next
  case (Tick c)
  then show ?thesis using tick_enqueue_ok [OF inv, of c] few ok by fastforce
next
  case (Prepare_Block c)
  then show ?thesis using prepare_block_ok [OF inv] ok by simp
next
  case (Sleep c n)
  then show ?thesis using sleep_enqueue_ok [OF inv] ok by simp
next
  case (Switch_Out c)
  then show ?thesis using switch_out_ok [OF inv, of c] ok by (auto simp: executing_def)
next
  case (Exit c)
  then show ?thesis using thread_exit_ok [OF inv] ok by simp
next
  case (Unblock c t)
  then show ?thesis using unblock_ok [OF inv few, of t c] ok by auto
next
  case (Wake_Sleepers c n)
  then show ?thesis using sched_wake_sleepers_ok [OF inv few, of c n] ok by auto
next
  case (Handoff c t)
  then show ?thesis using handoff_ok [OF inv _ few, of c t] ok by fastforce
next
  case (Create c a d)
  then show ?thesis using thread_create_placed_ok [OF inv few, of d c a] ok by fastforce
next
  case (Clock n)
  have "sched_ok (S\<lparr>s_ticks := n\<rparr>)" by (rule sched_inv_sameI [OF inv]) (simp add: same_sched_def)
  then show ?thesis using Clock by simp
next
  case Enable_Preemption
  have "sched_ok (sched_enable_preemption S)"
    by (rule sched_inv_sameI [OF inv]) (simp add: same_sched_def sched_enable_preemption_def)
  then show ?thesis using Enable_Preemption by simp
qed

end
