(* ===== verification/Sched_Spec.thy ===== *)
theory Sched_Spec
  imports Sched_Calls
begin

text \<open>
  The properties of the scheduler: what holds in every state that the calls reach, which thread
  runs next, who is woken by the timer, and what goes wrong when a processor without work takes
  a thread that another processor is still executing.
\<close>

section \<open>Reachable states\<close>



lemma initial_states [simp]:
  "td_state zeroed_thread = THREAD_EMPTY" "td_state (scheduler_thread k i) = THREAD_RUNNING"
  "td_cpu_id (scheduler_thread k i) = i"
  by (simp_all add: zeroed_thread_def scheduler_thread_def)






section \<open>Choosing and waking\<close>




section \<open>A thread on two processors\<close>

text \<open>
  Two processors. Thread 8 may run on both and is executing on processor 0; thread 9 is bound
  to processor 0 and waits in its queue; processor 1 has nothing to do.
\<close>

definition race_threads :: threads where
  "race_threads =
     (\<lambda>_. zeroed_thread)
       (0 := scheduler_thread 100 0, 1 := scheduler_thread 100 1,
        8 := zeroed_thread\<lparr>td_tid := 1, td_task := Some 7, td_state := THREAD_RUNNING, td_weight := 1024,
               td_sched_class := 3, td_affinity_mask := 3, td_virtual_deadline := 5, td_enqueue_seq := 1\<rparr>,
        9 := zeroed_thread\<lparr>td_tid := 2, td_task := Some 7, td_state := THREAD_READY, td_weight := 1024,
               td_sched_class := 3, td_affinity_mask := 1, td_virtual_deadline := 5, td_enqueue_seq := 2\<rparr>)"

definition race_start :: sched where
  "race_start =
     (sched_init 2 100 (sched_static (\<lambda>_. initial_kernel_task 3) []))
       \<lparr>s_threads := race_threads,
        s_cpus := [(initial_cpu 0)\<lparr>c_current := 8,
                     c_runq := \<lparr>rq_head = Some 9, rq_tail = Some 9, rq_count = 1, rq_idle = False,
                                rq_min_vruntime = 0, rq_enqueue_seq = 2\<rparr>\<rparr>,
                   initial_cpu 1]\<rparr>"

lemma race_threads_state:
  "td_state (race_threads t) =
     (if t = 8 \<or> t = 0 \<or> t = 1 then THREAD_RUNNING else if t = 9 then THREAD_READY else THREAD_EMPTY)"
  by (simp add: race_threads_def)

lemma race_cpus:
  "cpu_at 0 race_start = (initial_cpu 0)\<lparr>c_current := 8,
     c_runq := \<lparr>rq_head = Some 9, rq_tail = Some 9, rq_count = 1, rq_idle = False,
                rq_min_vruntime = 0, rq_enqueue_seq = 2\<rparr>\<rparr>"
  "cpu_at 1 race_start = initial_cpu 1" "s_cpu_count race_start = 2" "s_threads race_start = race_threads"
  "s_sleep_list race_start = []" "length (s_cpus race_start) = 2"
  by (simp_all add: race_start_def cpu_at_def sched_init_def sched_static_def Let_def)

lemma below_two: "c < (2 :: u32) \<longleftrightarrow> c = 0 \<or> c = 1"
  by (auto simp: word_less_nat_alt word_unat_eq_iff)

lemma race_start_ok: "sched_ok race_start"
proof -
  have sched: "is_scheduler t race_start \<longleftrightarrow> t = 0 \<or> t = 1" for t
    by (auto simp: is_scheduler_def race_cpus below_two initial_cpu_def)
  have "queue_ok {} 0 [9] race_start"
    by (auto simp: queue_ok_def runq_holds_def race_cpus link_of_def race_threads_state)
       (simp_all add: race_threads_def zeroed_thread_def)
  moreover have "queue_ok {} 1 [] race_start"
    by (auto simp: queue_ok_def runq_holds_def race_cpus link_of_def race_threads_state initial_cpu_def)
       (simp_all add: race_threads_def zeroed_thread_def)
  ultimately have "cpu_ok {} c race_start" if "c = 0 \<or> c = 1" for c
    using that by (auto simp: cpu_ok_def race_cpus initial_cpu_def race_threads_state)
       (simp_all add: race_threads_def zeroed_thread_def)
  moreover have "running_ok {} race_start"
    by (auto simp: running_ok_def sched race_cpus race_threads_state below_two)
       (simp_all add: race_threads_def zeroed_thread_def race_cpus)
  moreover have "waiting_ok {} race_start"
    by (auto simp: waiting_ok_def race_cpus race_threads_state below_two)
       (simp_all add: race_threads_def zeroed_thread_def)
  ultimately show ?thesis
    by (simp add: sched_inv_def race_cpus sleep_ok_def below_two)
qed

lemma sched_run_switches:
  assumes "next_thread c S = Some (Some t, S')" and "td_task (s_threads S' t) = Some a"
    and "\<not> ts_killing (s_tasks S' a)"
  shows "sched_run c S = Some (Some t, switch_to c t S')"
  using assms by (subst sched_run.simps) simp

lemma settle_keeps:
  "td_task (s_threads (settle_pulled d t S) t) = td_task (s_threads S t)"
  "s_tasks (settle_pulled d t S) = s_tasks S"
  "length (s_cpus (settle_pulled d t S)) = length (s_cpus S)"
  "unat d < length (s_cpus S) \<Longrightarrow> c_current (cpu_at c (settle_pulled d t S)) = c_current (cpu_at c S)"
  unfolding settle_pulled_def Let_def
  by (auto simp: upd_runq_def cpu_at_upd_cpu cpu_at_cong [OF stats_fields(2)])

lemma switch_to_current:
  assumes "unat c < length (s_cpus S)"
  shows "c_current (cpu_at d (switch_to c t S)) = (if d = c then t else c_current (cpu_at d S))"
    and "td_state (s_threads (switch_to c t S) t) = THREAD_RUNNING"
proof -
  let ?S = "sched_note_switch c t (upd_thread t (\<lambda>x. x\<lparr>td_state := THREAD_RUNNING\<rparr>) S)"
  have cpus: "s_cpus ?S = s_cpus S"
    by (simp add: sched_note_switch_def Let_def note_wait_def)
  have at: "cpu_at e ?S = cpu_at e S" for e by (rule cpu_at_cong [OF cpus])
  show "c_current (cpu_at d (switch_to c t S)) = (if d = c then t else c_current (cpu_at d S))"
    using assms by (simp add: switch_to_def sched_reset_quantum_def cpu_at_upd_cpu cpus at)
  show "td_state (s_threads (switch_to c t S) t) = THREAD_RUNNING"
    by (simp add: switch_to_def sched_reset_quantum_def sched_note_switch_def Let_def note_wait_def)
qed

lemma race_few: "few_threads race_start"
proof -
  have "{t. td_state (s_threads race_start t) \<noteq> THREAD_EMPTY} = {0, 1, 8, 9}"
    by (auto simp: race_cpus race_threads_state)
  then show ?thesis by (simp add: few_threads_def)
qed


text \<open>
  C37. A thread can run on two processors. \<^verbatim>\<open>thread_yield\<close> puts its thread into the run queue
  and gives up the queue's lock before it switches away from the thread, and
  \<^verbatim>\<open>sched_idle_pull\<close> takes the first eligible thread of another queue without asking whether
  that processor still executes it. From a state with all the scheduler's invariants, the first
  half of a yield on processor 0 followed by a search for work on processor 1 makes the yielding
  thread the running thread of both.
\<close>

theorem idle_pull_takes_executing_thread:
  "\<exists>S S1 S2 t. sched_ok S \<and> executing 0 S \<and> stays (c_current (cpu_at 0 S)) S \<and> in_scheduler 1 S \<and>
     yield_enqueue 0 S = Some S1 \<and> sched_run 1 S1 = Some (Some t, S2) \<and>
     c_current (cpu_at 0 S2) = t \<and> c_current (cpu_at 1 S2) = t \<and>
     td_state (s_threads S2 t) = THREAD_RUNNING"
proof -
  define A where "A = sched_account_runtime 0 True race_start"
  define S1 where "S1 = the (push_on 0 8 (place_thread 0 8 False A))"
  define T where "T = snd (the (take_eligible 0 1 S1))"
  note unfold = S1_def A_def
  have start: "executing 0 race_start" "stays (c_current (cpu_at 0 race_start)) race_start"
    "in_scheduler 1 race_start" and cur: "c_current (cpu_at 0 race_start) = 8"
    by code_simp+
  have "td_affinity_mask (s_threads A 8) AND cpu_bit (c_id (cpu_at 0 A)) \<noteq> 0" unfolding unfold by code_simp
  then have "choose_queue 0 8 A = (0, A)" by (simp add: choose_queue_def Let_def)
  moreover have "push_on 0 8 (place_thread 0 8 False A) \<noteq> None" unfolding unfold by code_simp
  then have "push_on 0 8 (place_thread 0 8 False A) = Some S1" by (simp add: S1_def)
  ultimately have yield: "yield_enqueue 0 race_start = Some S1"
    by (simp add: yield_enqueue_def A_def [symmetric] sched_enqueue_on_def sched_enqueue_on_reason_def cur)
  have ok1: "sched_ok S1"
    using yield_enqueue_ok [OF race_start_ok, of 0] start yield race_few by (auto simp: race_cpus)
  have cpus: "s_cpu_count S1 = 2" "c_current (cpu_at 0 S1) = 8" "rq_head (c_runq (cpu_at 1 S1)) = None"
    unfolding unfold by code_simp+
  then have "next_thread 1 S1 = sched_idle_pull 1 S1"
    by (simp add: next_thread_def runq_pop_def upd_runq_same)
  moreover have pull: "pull_source 1 S1 (cpu_ids S1) (MAX_CPUS, 0) = Some 0" "c_id (cpu_at 1 S1) = 1"
    "map_option fst (take_eligible 0 1 S1) = Some (Some 8)"
    unfolding unfold by code_simp+
  then have take: "take_eligible 0 1 S1 = Some (Some 8, T)" by (auto simp: T_def)
  ultimately have nt: "next_thread 1 S1 = Some (Some 8, settle_pulled 1 8 T)"
    using pull cpus by (simp add: sched_idle_pull_def)
  have "in_transit 8 0 S1 T" using take_eligible_ok [OF ok1, of 0 1] take cpus by auto
  then have T: "s_cpu_count T = 2" "c_current (cpu_at 0 T) = 8" "unat (1 :: u32) < length (s_cpus T)"
    using quietD(1,3) [of "{8}" S1 T] cpus sched_inv_index [of "{8}" T 1] by (auto simp: in_transit_def)
  have "td_task (s_threads T 8) = Some 7" "\<not> ts_killing (s_tasks T 7)" unfolding T_def unfold by code_simp+
  then have "sched_run 1 S1 = Some (Some 8, switch_to 1 8 (settle_pulled 1 8 T))"
    by (intro sched_run_switches [OF nt]) (simp_all add: settle_keeps)
  moreover have "c_current (cpu_at 0 (switch_to 1 8 (settle_pulled 1 8 T))) = 8"
    "c_current (cpu_at 1 (switch_to 1 8 (settle_pulled 1 8 T))) = 8"
    "td_state (s_threads (switch_to 1 8 (settle_pulled 1 8 T)) 8) = THREAD_RUNNING"
    using T by (simp_all add: switch_to_current settle_keeps)
  ultimately show ?thesis using race_start_ok start yield by blast
qed

end
