(* ===== verification/Sched_Policy.thy ===== *)
theory Sched_Policy
  imports Sched_Switch Handles
begin

text \<open>
  Scheduling policies as capabilities (\<^verbatim>\<open>sched_policy_*\<close> of \<^verbatim>\<open>kernel/sched.c\<close>). A policy
  object bounds what its holder may set: targets, scheduling classes, priorities, weights and
  processors. \<^verbatim>\<open>sched_policy_grant\<close> gives another task a weaker policy, \<^verbatim>\<open>sched_policy_get\<close>
  reads and \<^verbatim>\<open>sched_policy_set\<close> changes the parameters of a task or thread. The objects and
  handles are those of the kernel state, the parameters those of the scheduler state; \<open>walk\<close> is
  the sequence of tasks that the walk through \<^verbatim>\<open>tasks_by_pid\<close> visits.
\<close>

abbreviation (input) SCHED_POLICY_TARGET_TASK :: u32 where "SCHED_POLICY_TARGET_TASK \<equiv> 1"
abbreviation (input) SCHED_POLICY_TARGET_THREAD :: u32 where "SCHED_POLICY_TARGET_THREAD \<equiv> 2"
abbreviation (input) SCHED_POLICY_TARGET_SYSTEM :: u32 where "SCHED_POLICY_TARGET_SYSTEM \<equiv> 5"
abbreviation (input) SCHED_POLICY_RIGHT_OBSERVE :: u32 where "SCHED_POLICY_RIGHT_OBSERVE \<equiv> 1"
abbreviation (input) SCHED_POLICY_RIGHT_DELEGATE :: u32 where "SCHED_POLICY_RIGHT_DELEGATE \<equiv> 32"

text \<open>The rights to change class, priority, weight and affinity, and all rights.\<close>

abbreviation (input) SCHED_POLICY_RIGHTS_SET :: u32 where "SCHED_POLICY_RIGHTS_SET \<equiv> 30"
abbreviation (input) SCHED_POLICY_RIGHTS_ALL :: u32 where "SCHED_POLICY_RIGHTS_ALL \<equiv> 63"

record sched_policy_state =
  ps_target_kind :: u64
  ps_target_id :: u64
  ps_sched_class :: u64
  ps_priority :: u64
  ps_weight :: u64
  ps_cpu_mask :: u64
  ps_online_cpu_mask :: u64


section \<open>Checks\<close>

definition sched_policy_class_bit :: "u32 \<Rightarrow> u32" where
  "sched_policy_class_bit cls = push_bit (unat cls) 1"

definition all_classes :: u64 where
  "all_classes =
     ucast (sched_policy_class_bit SCHED_CLASS_KERNEL OR sched_policy_class_bit SCHED_CLASS_SERVER OR
            sched_policy_class_bit SCHED_CLASS_USER OR sched_policy_class_bit SCHED_CLASS_BATCH OR
            sched_policy_class_bit SCHED_CLASS_IDLE)"

definition sched_policy_valid_class_mask :: "u64 \<Rightarrow> bool" where
  "sched_policy_valid_class_mask class_mask \<longleftrightarrow> class_mask \<noteq> 0 \<and> class_mask AND NOT all_classes = 0"

definition sched_policy_cap_allows_target :: "sched_policy_cap \<Rightarrow> u32 \<Rightarrow> u64 \<Rightarrow> bool" where
  "sched_policy_cap_allows_target cap kind tid \<longleftrightarrow>
     (if sp_target_kind cap = SCHED_POLICY_TARGET_SYSTEM
      then kind = SCHED_POLICY_TARGET_TASK \<or> kind = SCHED_POLICY_TARGET_THREAD \<or>
           kind = SCHED_POLICY_TARGET_SYSTEM
      else sp_target_kind cap = kind \<and> sp_target_id cap = tid)"

definition sched_policy_is_attenuated :: "sched \<Rightarrow> sched_policy_cap \<Rightarrow> sched_policy_cap \<Rightarrow> bool" where
  "sched_policy_is_attenuated S parent child \<longleftrightarrow>
     sp_rights parent AND SCHED_POLICY_RIGHT_DELEGATE \<noteq> 0 \<and>
     sp_delegation_depth parent \<noteq> 0 \<and>
     sp_delegation_depth child < sp_delegation_depth parent \<and>
     sp_rights child AND NOT (sp_rights parent) = 0 \<and>
     sp_class_mask child AND NOT (sp_class_mask parent) = 0 \<and>
     sp_min_priority child \<ge> sp_min_priority parent \<and>
     sp_max_priority child \<le> sp_max_priority parent \<and>
     sp_min_priority child \<le> sp_max_priority child \<and>
     sp_min_weight child \<ge> sp_min_weight parent \<and>
     sp_max_weight child \<le> sp_max_weight parent \<and>
     sp_min_weight child \<le> sp_max_weight child \<and>
     sp_cpu_mask child AND NOT (sp_cpu_mask parent) = 0 \<and>
     sched_policy_valid_class_mask (sp_class_mask child) \<and>
     sched_policy_valid_cpu_mask (sp_cpu_mask child) S \<and>
     sched_policy_cap_allows_target parent (sp_target_kind child) (sp_target_id child)"

definition sched_policy_state_allowed :: "sched \<Rightarrow> sched_policy_cap \<Rightarrow> sched_policy_state \<Rightarrow> bool" where
  "sched_policy_state_allowed S cap state \<longleftrightarrow>
     sched_policy_cap_allows_target cap (ucast (ps_target_kind state)) (ps_target_id state) \<and>
     ps_sched_class state \<ge> ucast SCHED_CLASS_KERNEL \<and> ps_sched_class state \<le> ucast SCHED_CLASS_IDLE \<and>
     sp_class_mask cap AND ucast (sched_policy_class_bit (ucast (ps_sched_class state))) \<noteq> 0 \<and>
     ps_priority state \<ge> ucast (sp_min_priority cap) \<and> ps_priority state \<le> ucast (sp_max_priority cap) \<and>
     ps_weight state \<ge> ucast (sp_min_weight cap) \<and> ps_weight state \<le> ucast (sp_max_weight cap) \<and>
     sched_policy_valid_cpu_mask (ps_cpu_mask state) S \<and>
     ps_cpu_mask state AND NOT (sp_cpu_mask cap) = 0"


section \<open>Creating and granting\<close>

definition policy_alloc :: "sched_policy_cap \<Rightarrow> kstate \<Rightarrow> nat option \<times> kstate" where
  "policy_alloc cap K =
     (let (ok, K1) = slab_answer K
      in if ok then (Some (k_next_addr K1), set_policy (k_next_addr K1) cap (K1\<lparr>k_next_addr := k_next_addr K1 + 1\<rparr>))
         else (None, K1))"

definition sched_policy_cap_create_system :: "sched \<Rightarrow> kstate \<Rightarrow> nat option \<times> kstate" where
  "sched_policy_cap_create_system S =
     policy_alloc
       \<lparr>sp_ref_count = 1, sp_target_kind = SCHED_POLICY_TARGET_SYSTEM,
        sp_rights = SCHED_POLICY_RIGHTS_ALL, sp_delegation_depth = 8, sp_target_id = 0,
        sp_class_mask = all_classes, sp_min_priority = 0, sp_max_priority = 255, sp_min_weight = 1,
        sp_max_weight = 65535, sp_cpu_mask = sched_online_cpu_mask S\<rparr>"

text \<open>The child of a grant: the requested policy with one reference and its target filled in.\<close>

definition granted_child :: "u32 \<Rightarrow> sched_policy_cap \<Rightarrow> sched_policy_cap" where
  "granted_child pid requested =
     (let child = requested\<lparr>sp_ref_count := 1\<rparr>
      in if sp_target_kind child = SCHED_POLICY_TARGET_TASK \<and> sp_target_id child = 0
         then child\<lparr>sp_target_id := ucast pid\<rparr> else child)"

definition policy_free :: "nat \<Rightarrow> kstate \<Rightarrow> kstate" where
  "policy_free a K = K\<lparr>k_policies := (k_policies K)(a := None)\<rparr>"

definition sched_policy_grant ::
  "sched \<Rightarrow> nat option \<Rightarrow> u64 \<Rightarrow> nat option \<Rightarrow> sched_policy_cap option \<Rightarrow> kstate \<Rightarrow> (u64 \<times> kstate) option" where
  "sched_policy_grant S owner authority_handle target_task requested K =
     (case (owner, target_task, requested) of
        (Some o1, Some target, Some req) \<Rightarrow> do {
          (found, K1) \<leftarrow> task_sched_policy_from_handle (Some o1) authority_handle TASK_RIGHT_SEND K;
          (case found of
             None \<Rightarrow> Some (0, K1)
           | Some authority \<Rightarrow> do {
               t \<leftarrow> k_tasks K1 target;
               let (block, K2) = policy_alloc (granted_child (t_pid t) req) K1;
               (case block of
                  None \<Rightarrow> do { K3 \<leftarrow> sched_policy_cap_release (Some authority) K2; Some (0, K3) }
                | Some child \<Rightarrow> do {
                    parent \<leftarrow> k_policies K2 authority;
                    if \<not> sched_policy_is_attenuated S parent (granted_child (t_pid t) req)
                    then do {
                      K3 \<leftarrow> sched_policy_cap_release (Some authority) (policy_free child K2);
                      Some (0, K3)
                    }
                    else do {
                      (handle, K3) \<leftarrow> task_grant_sched_policy (Some target) (Some child)
                                         (TASK_RIGHT_SEND OR TASK_RIGHT_DUP) K2;
                      K4 \<leftarrow> sched_policy_cap_release (Some child) K3;
                      K5 \<leftarrow> sched_policy_cap_release (Some authority) K4;
                      Some (handle, K5)
                    }
                  })
             })
        }
      | _ \<Rightarrow> Some (0, K))"


section \<open>Reading and setting\<close>

text \<open>Pids are keys of the tree widened from 32 bits.\<close>

definition find_by_id_retain :: "u64 \<Rightarrow> kstate \<Rightarrow> (nat option \<times> kstate) option" where
  "find_by_id_retain pid K =
     (if unat pid < 2 ^ 32 then task_find_by_id_retain (ucast pid) K else Some (None, K))"

definition find_live_thread :: "sched \<Rightarrow> u64 \<Rightarrow> nat list \<Rightarrow> nat option" where
  "find_live_thread S tid walk =
     List.find (\<lambda>t. ucast (td_tid (s_threads S t)) = tid \<and> td_state (s_threads S t) \<noteq> THREAD_DEAD)
       (concat (map (\<lambda>a. ts_threads (s_tasks S a)) walk))"

definition fill_target :: "sched_policy_cap \<Rightarrow> sched_policy_state \<Rightarrow> sched_policy_state" where
  "fill_target authority state =
     (if ps_target_kind state = 0
      then state\<lparr>ps_target_kind := ucast (sp_target_kind authority), ps_target_id := sp_target_id authority\<rparr>
      else state)"

definition sched_policy_get ::
  "sched \<Rightarrow> nat list \<Rightarrow> nat option \<Rightarrow> u64 \<Rightarrow> sched_policy_state \<Rightarrow> kstate \<Rightarrow>
   (status \<times> sched_policy_state \<times> kstate) option" where
  "sched_policy_get S walk owner authority_handle state0 K =
     (case owner of
        None \<Rightarrow> Some (ERR, state0, K)
      | Some o1 \<Rightarrow> do {
          (found, K1) \<leftarrow> task_sched_policy_from_handle (Some o1) authority_handle TASK_RIGHT_SEND K;
          (case found of
             None \<Rightarrow> Some (ERR, state0, K1)
           | Some a \<Rightarrow> do {
               authority \<leftarrow> k_policies K1 a;
               let state1 = fill_target authority state0;
               let state = state1\<lparr>ps_online_cpu_mask := sched_online_cpu_mask S\<rparr>;
               if sp_rights authority AND SCHED_POLICY_RIGHT_OBSERVE = 0 \<or>
                  \<not> sched_policy_cap_allows_target authority (ucast (ps_target_kind state1)) (ps_target_id state1)
               then do { K2 \<leftarrow> sched_policy_cap_release (Some a) K1; Some (ERR, state1, K2) }
               else if ps_target_kind state = ucast SCHED_POLICY_TARGET_SYSTEM
               then do {
                 K2 \<leftarrow> sched_policy_cap_release (Some a) K1;
                 Some (OK, state\<lparr>ps_sched_class := 0, ps_priority := 0,
                             ps_weight := ucast SCHED_BASE_WEIGHT, ps_cpu_mask := ps_online_cpu_mask state\<rparr>, K2)
               }
               else if ps_target_kind state = ucast SCHED_POLICY_TARGET_TASK
               then do {
                 (target, K2) \<leftarrow> find_by_id_retain (ps_target_id state) K1;
                 (case target of
                    None \<Rightarrow> do { K3 \<leftarrow> sched_policy_cap_release (Some a) K2; Some (ERR, state, K3) }
                  | Some b \<Rightarrow> do {
                      let x = s_tasks S b;
                      let w = (case ts_threads x of [] \<Rightarrow> SCHED_BASE_WEIGHT | t # _ \<Rightarrow> td_weight (s_threads S t));
                      K3 \<leftarrow> task_release (Some b) K2;
                      K4 \<leftarrow> sched_policy_cap_release (Some a) K3;
                      Some (OK, state\<lparr>ps_sched_class := ucast (ts_sched_class x),
                                  ps_priority := ucast (ts_sched_priority x), ps_weight := ucast w,
                                  ps_cpu_mask := ts_sched_affinity_mask x\<rparr>, K4)
                    })
               }
               else do {
                 K2 \<leftarrow> sched_policy_cap_release (Some a) K1;
                 (case (if ps_target_kind state = ucast SCHED_POLICY_TARGET_THREAD
                        then find_live_thread S (ps_target_id state) walk else None) of
                    None \<Rightarrow> Some (ERR, state, K2)
                  | Some t \<Rightarrow>
                      Some (OK, state\<lparr>ps_sched_class := ucast (td_sched_class (s_threads S t)),
                                  ps_priority := ucast (td_sched_priority (s_threads S t)),
                                  ps_weight := ucast (td_weight (s_threads S t)),
                                  ps_cpu_mask := td_affinity_mask (s_threads S t)\<rparr>, K2))
               }
             })
        })"

definition set_thread_policy :: "sched_policy_state \<Rightarrow> nat \<Rightarrow> sched \<Rightarrow> sched" where
  "set_thread_policy state t =
     upd_thread t (\<lambda>x. x\<lparr>td_sched_class := ucast (ps_sched_class state),
                         td_sched_priority := ucast (ps_priority state),
                         td_weight := ucast (ps_weight state), td_affinity_mask := ps_cpu_mask state\<rparr>)"

definition set_task_policy :: "sched_policy_state \<Rightarrow> nat \<Rightarrow> sched \<Rightarrow> sched" where
  "set_task_policy state a S =
     fold (set_thread_policy state) (ts_threads (s_tasks S a))
       (S\<lparr>s_tasks := (s_tasks S)(a := (s_tasks S a)\<lparr>ts_sched_class := ucast (ps_sched_class state),
            ts_sched_priority := ucast (ps_priority state), ts_sched_affinity_mask := ps_cpu_mask state\<rparr>)\<rparr>)"

definition may_set :: "sched \<Rightarrow> sched_policy_cap \<Rightarrow> sched_policy_state \<Rightarrow> bool" where
  "may_set S authority state \<longleftrightarrow>
     sp_rights authority AND SCHED_POLICY_RIGHTS_SET = SCHED_POLICY_RIGHTS_SET \<and>
     sched_policy_state_allowed S authority state"

definition sched_policy_set ::
  "nat list \<Rightarrow> nat option \<Rightarrow> u64 \<Rightarrow> sched_policy_state \<Rightarrow> sched \<Rightarrow> kstate \<Rightarrow> (status \<times> sched \<times> kstate) option" where
  "sched_policy_set walk owner authority_handle requested S K =
     (case owner of
        None \<Rightarrow> Some (ERR, S, K)
      | Some o1 \<Rightarrow> do {
          (found, K1) \<leftarrow> task_sched_policy_from_handle (Some o1) authority_handle TASK_RIGHT_SEND K;
          (case found of
             None \<Rightarrow> Some (ERR, S, K1)
           | Some a \<Rightarrow> do {
               authority \<leftarrow> k_policies K1 a;
               let state = fill_target authority requested;
               if \<not> may_set S authority state
               then do { K2 \<leftarrow> sched_policy_cap_release (Some a) K1; Some (ERR, S, K2) }
               else if ps_target_kind state = ucast SCHED_POLICY_TARGET_TASK
               then do {
                 (target, K2) \<leftarrow> find_by_id_retain (ps_target_id state) K1;
                 (case target of
                    None \<Rightarrow> do { K3 \<leftarrow> sched_policy_cap_release (Some a) K2; Some (ERR, S, K3) }
                  | Some b \<Rightarrow> do {
                      K3 \<leftarrow> task_release (Some b) K2;
                      K4 \<leftarrow> sched_policy_cap_release (Some a) K3;
                      Some (OK, set_task_policy state b S, K4)
                    })
               }
               else do {
                 K2 \<leftarrow> sched_policy_cap_release (Some a) K1;
                 (case (if ps_target_kind state = ucast SCHED_POLICY_TARGET_THREAD
                        then find_live_thread S (ps_target_id state) walk else None) of
                    None \<Rightarrow> Some (ERR, S, K2)
                  | Some t \<Rightarrow> Some (OK, set_thread_policy state t S, K2))
               }
             })
        })"

end
