(* ===== verification/Sched_Policy_Spec.thy ===== *)
theory Sched_Policy_Spec
  imports Sched_Policy Kernel_Spec
begin

text \<open>
  Delegation of scheduling policies. A policy handed on by \<^verbatim>\<open>sched_policy_grant\<close> never allows a
  state that the policy it was derived from does not allow, and the depth that is left shrinks
  with every step.
\<close>

section \<open>Attenuation\<close>

lemma and_not_zero_subset:
  fixes a b :: "'a :: len word"
  shows "a AND NOT b = 0 \<longleftrightarrow> (\<forall>n. bit a n \<longrightarrow> bit b n)"
  unfolding bit_eq_iff using bit_imp_le_length [of a] by (auto simp: bit_simps)

lemma and_mono_nonzero:
  fixes a b m :: "'a :: len word"
  assumes "a AND NOT b = 0" and "a AND m \<noteq> 0"
  shows "b AND m \<noteq> 0"
proof -
  obtain n where "bit a n" "bit m n"
    using assms(2) unfolding bit_eq_iff by (auto simp: bit_simps)
  then have "bit (b AND m) n"
    using assms(1) by (simp add: and_not_zero_subset bit_simps)
  then show ?thesis by auto
qed

lemma and_not_trans:
  fixes a b c :: "'a :: len word"
  shows "a AND NOT b = 0 \<Longrightarrow> b AND NOT c = 0 \<Longrightarrow> a AND NOT c = 0"
  by (simp add: and_not_zero_subset)

lemma ucast_32_64_le: "(ucast a :: u64) \<le> ucast b \<longleftrightarrow> a \<le> b" for a b :: u32
proof -
  have "unat (ucast x :: u64) = unat x" for x :: u32
  proof -
    have "unat x < 2 ^ 64" by (rule less_trans [OF unsigned_less]) simp
    then show ?thesis by (simp add: unsigned_ucast_eq take_bit_nat_def)
  qed
  then show ?thesis by (simp only: word_le_nat_alt)
qed

lemma allows_target_mono:
  assumes "sched_policy_cap_allows_target parent (sp_target_kind child) (sp_target_id child)"
    and "sched_policy_cap_allows_target child kind i"
  shows "sched_policy_cap_allows_target parent kind i"
  using assms by (auto simp: sched_policy_cap_allows_target_def split: if_splits)

lemma attenuated_allows:
  assumes at: "sched_policy_is_attenuated S parent child"
    and al: "sched_policy_state_allowed S child state"
  shows "sched_policy_state_allowed S parent state"
proof -
  note at' = at [unfolded sched_policy_is_attenuated_def] and al' = al [unfolded sched_policy_state_allowed_def]
  have "sched_policy_cap_allows_target parent (ucast (ps_target_kind state)) (ps_target_id state)"
    using at' al' allows_target_mono [of parent child] by blast
  moreover have "sp_class_mask parent AND ucast (sched_policy_class_bit (ucast (ps_sched_class state))) \<noteq> 0"
    using at' al' and_mono_nonzero [of "sp_class_mask child" "sp_class_mask parent"] by blast
  moreover have "ucast (sp_min_priority parent) \<le> ps_priority state" "ucast (sp_min_weight parent) \<le> ps_weight state"
    using at' al' ucast_32_64_le by (meson order_trans)+
  moreover have "ps_priority state \<le> ucast (sp_max_priority parent)" "ps_weight state \<le> ucast (sp_max_weight parent)"
    using at' al' ucast_32_64_le by (meson order_trans)+
  moreover have "ps_cpu_mask state AND NOT (sp_cpu_mask parent) = 0"
    using at' al' and_not_trans [of "ps_cpu_mask state" "sp_cpu_mask child" "sp_cpu_mask parent"] by blast
  ultimately show ?thesis
    using al' unfolding sched_policy_state_allowed_def by blast
qed


section \<open>Policies that only lose or gain references\<close>

definition policies_le :: "kstate \<Rightarrow> kstate \<Rightarrow> bool" where
  "policies_le K K' \<longleftrightarrow> (\<forall>p c'. k_policies K' p = Some c' \<longrightarrow>
     (\<exists>c. k_policies K p = Some c \<and> c' = c\<lparr>sp_ref_count := sp_ref_count c'\<rparr>))"

lemma policies_le_refl [simp]: "k_policies K' = k_policies K \<Longrightarrow> policies_le K K'"
  by (simp add: policies_le_def)

lemma policies_le_trans [trans]:
  assumes "policies_le K K'" and "policies_le K' K''"
  shows "policies_le K K''"
  unfolding policies_le_def
proof (intro allI impI)
  fix p c''
  assume "k_policies K'' p = Some c''"
  then obtain c' where c': "k_policies K' p = Some c'" "c'' = c'\<lparr>sp_ref_count := sp_ref_count c''\<rparr>"
    using assms(2) unfolding policies_le_def by blast
  then obtain c where c: "k_policies K p = Some c" "c' = c\<lparr>sp_ref_count := sp_ref_count c'\<rparr>"
    using assms(1) unfolding policies_le_def by blast
  have "c'' = (c\<lparr>sp_ref_count := sp_ref_count c'\<rparr>)\<lparr>sp_ref_count := sp_ref_count c''\<rparr>"
    using c'(2) c(2) by metis
  then show "\<exists>c. k_policies K p = Some c \<and> c'' = c\<lparr>sp_ref_count := sp_ref_count c''\<rparr>"
    using c(1) by auto
qed

lemma policies_le_count: "k_policies K a = Some c \<Longrightarrow> policies_le K (set_policy a (c\<lparr>sp_ref_count := n\<rparr>) K)"
  by (simp add: policies_le_def)

lemma retain_policies:
  assumes "sched_policy_cap_retain x K = Some (s, K')"
  shows "policies_le K K'" and "k_tasks K' = k_tasks K" and "k_tasks_by_pid K' = k_tasks_by_pid K"
    and "k_kernel_task K' = k_kernel_task K"
  using assms by (auto simp: sched_policy_cap_retain_def policies_le_count split: option.splits bind_splits)

lemma release_policies:
  assumes "sched_policy_cap_release x K = Some K'"
  shows "policies_le K K'" and "k_tasks K' = k_tasks K"
  using assms
  by (auto simp: sched_policy_cap_release_def policies_le_count Let_def policies_le_def
    split: option.splits bind_splits if_splits)

lemma policy_from_handle:
  assumes "task_sched_policy_from_handle (Some a) handle rights K = Some (r, K')"
  shows "policies_le K K'" and "k_tasks K' = k_tasks K" and "k_tasks_by_pid K' = k_tasks_by_pid K"
    and "k_kernel_task K' = k_kernel_task K"
    and "r = Some p \<Longrightarrow> \<exists>h. caps K a handle = Some h \<and> h_type h = TASK_HANDLE_SCHED_POLICY \<and>
      has_rights rights h \<and> h_object h = Some p"
  using assms
  by (auto simp: task_sched_policy_from_handle_def object_from_handle_def handle_at_def caps_def
    task_handle_retain_from_locked_task_def task_handle_retain_def
    split: option.splits bind_splits if_splits dest: retain_policies)

lemma grow_policies:
  "task_grow_handles_locked a m K = Some (s, K') \<Longrightarrow> k_policies K' = k_policies K"
  by (auto simp: task_grow_handles_locked_def slab_answer_def Let_def set_task_def split: bind_splits if_splits)

lemma free_slot_policies: "free_slot_loop a K = Some (r, K') \<Longrightarrow> k_policies K' = k_policies K"
proof -
  assume r: "free_slot_loop a K = Some (r, K')"
  have "k_policies (snd y) = k_policies K" if "free_slot_loop a K = Some y" for y
  proof (rule free_slot_loop.raw_induct [OF _ that, where P = "\<lambda>a K y. k_policies (snd y) = k_policies K"])
    fix loop a K y
    assume IH: "\<And>a K y. loop a K = Some y \<Longrightarrow> k_policies (snd y) = k_policies K"
      and y: "do {
        t \<leftarrow> k_tasks K a;
        (case handle_scan (\<lambda>h. h_type h = TASK_HANDLE_EMPTY) 0 (t_handles t) of
           Some i \<Rightarrow> Some (Some i, K)
         | None \<Rightarrow> do {
             (s, K1) \<leftarrow> task_grow_handles_locked a (handle_capacity t + 1) K;
             if s = OK then loop a K1 else Some (None, K1)
           })
      } = Some y"
    from y show "k_policies (snd y) = k_policies K"
      by (auto split: bind_splits option.splits if_splits dest!: IH grow_policies)
  qed
  from this [OF r] show ?thesis by simp
qed

lemma grant_policies:
  assumes "task_grant_sched_policy (Some a) (Some b) rights K = Some (h, K')"
  shows "policies_le K K'"
proof (cases "rights = 0")
  case True
  then show ?thesis
    using assms by (simp add: task_grant_sched_policy_def grant_retained_def)
next
  case False
  then obtain slot K1 where s: "grant_slot a TASK_HANDLE_SCHED_POLICY b rights K = Some (slot, K1)"
    using assms by (auto simp: task_grant_sched_policy_def grant_retained_def split: bind_splits)
  have K1: "policies_le K K1"
    using s by (auto simp: grant_slot_def split: bind_splits option.splits dest!: free_slot_policies)
  have "policies_le K1 K'"
    using assms False s
    by (auto simp: task_grant_sched_policy_def grant_retained_def task_handle_retain_def write_handle_def
      split: bind_splits option.splits bool.splits if_splits dest!: retain_policies(1) simp: policies_le_def)
  with K1 show ?thesis by (rule policies_le_trans)
qed


section \<open>A new policy object\<close>

lemma new_policy_ok:
  assumes ok: "kernel_ok K ext" and a: "a = k_next_addr K" and c: "sp_ref_count c = 1"
  shows "kernel_ok (set_policy a c (K\<lparr>k_next_addr := a + 1\<rparr>)) (ext + {#KPolicy a#})"
    (is "kernel_ok ?K _")
proof -
  note new = kernel_ok_fresh [OF ok, of a]
  have "refs_ok ?K (ext + replicate_mset 1 (KPolicy a))"
  proof (rule refs_ok_new [OF kernel_okD(1) [OF ok]])
    show "\<not> alive K (KPolicy a)" using new(5) a by simp
    show "refcount ?K y = (if y = KPolicy a then Some 1 else refcount K y)" for y
      using c by (cases y) auto
    show "alive ?K y \<longleftrightarrow> y = KPolicy a \<or> alive K y" for y
      by (cases y) auto
    show "held ?K = held K" by (simp add: held_def)
  qed
  moreover have "stores_ok ?K"
    using kernel_okD(2) [OF ok] a by (auto simp: stores_ok_def port_ok_def)
  moreover have "index_ok ?K"
    using kernel_okD(3) [OF ok] by (simp add: index_ok_def)
  ultimately show ?thesis by (simp add: kernel_ok_def)
qed

lemma policy_alloc_cases:
  assumes ok: "kernel_ok K ext" and c: "sp_ref_count c = 1"
  obtains (none) K1 where "policy_alloc c K = (None, K1)" and "kernel_ok K1 ext"
      and "k_tasks K1 = k_tasks K" and "k_policies K1 = k_policies K"
  | (block) a K1 where "policy_alloc c K = (Some a, K1)" and "kernel_ok K1 (ext + {#KPolicy a#})"
      and "k_tasks K1 = k_tasks K" and "k_policies K1 = (k_policies K)(a \<mapsto> c)" and "k_policies K a = None"
proof -
  obtain b K1 where s: "slab_answer K = (b, K1)" by fastforce
  obtain r where K1: "K1 = K\<lparr>k_allocs := r\<rparr>" using slab_answer_ok(2) [OF s] by blast
  have ok1: "kernel_ok K1 ext" using slab_answer_ok(1) [OF s] ok by simp
  have same: "k_tasks K1 = k_tasks K" "k_policies K1 = k_policies K" by (simp_all add: K1)
  show thesis
  proof (cases b)
    case False
    then show ?thesis using none [of K1] s ok1 same by (simp add: policy_alloc_def)
  next
    case True
    then show ?thesis
      using block [OF _ new_policy_ok [OF ok1 refl c]] s same kernel_ok_fresh(5) [OF ok1 order_refl]
      by (simp add: policy_alloc_def)
  qed
qed



section \<open>Grants\<close>

text \<open>The policy that a handle with the right to send names.\<close>

definition authority_of :: "kstate \<Rightarrow> nat \<Rightarrow> u64 \<Rightarrow> sched_policy_cap \<Rightarrow> bool" where
  "authority_of K owner handle c \<longleftrightarrow>
     (\<exists>h a. caps K owner handle = Some h \<and> h_type h = TASK_HANDLE_SCHED_POLICY \<and>
        has_rights TASK_RIGHT_SEND h \<and> h_object h = Some a \<and> k_policies K a = Some c)"

definition weaker :: "sched \<Rightarrow> sched_policy_cap \<Rightarrow> sched_policy_cap \<Rightarrow> bool" where
  "weaker S c' c \<longleftrightarrow> sp_rights c AND SCHED_POLICY_RIGHT_DELEGATE \<noteq> 0 \<and>
     sp_delegation_depth c' < sp_delegation_depth c \<and> sp_rights c' AND NOT (sp_rights c) = 0 \<and>
     (\<forall>state. sched_policy_state_allowed S c' state \<longrightarrow> sched_policy_state_allowed S c state)"

lemma attenuated_weaker: "sched_policy_is_attenuated S c c' \<Longrightarrow> weaker S c' c"
  using attenuated_allows by (auto simp: weaker_def sched_policy_is_attenuated_def)

lemma allowed_count [simp]:
  "sched_policy_state_allowed S (c\<lparr>sp_ref_count := n\<rparr>) state = sched_policy_state_allowed S c state"
  by (simp add: sched_policy_state_allowed_def sched_policy_cap_allows_target_def)

lemma weaker_count [simp]:
  "weaker S (c'\<lparr>sp_ref_count := n\<rparr>) c = weaker S c' c" "weaker S c' (c\<lparr>sp_ref_count := n\<rparr>) = weaker S c' c"
  by (simp_all add: weaker_def)

text \<open>Policies of \<open>K'\<close> are those of \<open>K\<close>, but for new ones weaker than \<open>c\<close>.\<close>

definition policies_from :: "sched \<Rightarrow> sched_policy_cap set \<Rightarrow> kstate \<Rightarrow> kstate \<Rightarrow> bool" where
  "policies_from S A K K' \<longleftrightarrow> (\<forall>p c'. k_policies K' p = Some c' \<longrightarrow>
     (\<exists>c. k_policies K p = Some c \<and> c' = c\<lparr>sp_ref_count := sp_ref_count c'\<rparr>) \<or>
     k_policies K p = None \<and> (\<exists>c \<in> A. weaker S c' c))"

lemma policies_fromI:
  assumes "policies_le K K1" and "k_policies K2 = (k_policies K1)(a \<mapsto> c')" and "k_policies K a = None"
    and "c \<in> A" and "weaker S c' c" and "policies_le K2 K3"
  shows "policies_from S A K K3"
  unfolding policies_from_def
proof (intro allI impI)
  fix p d
  assume "k_policies K3 p = Some d"
  then obtain d2 where d2: "k_policies K2 p = Some d2" "d = d2\<lparr>sp_ref_count := sp_ref_count d\<rparr>"
    using assms(6) unfolding policies_le_def by blast
  show "(\<exists>c. k_policies K p = Some c \<and> d = c\<lparr>sp_ref_count := sp_ref_count d\<rparr>) \<or>
      k_policies K p = None \<and> (\<exists>c \<in> A. weaker S d c)"
  proof (cases "p = a")
    case True
    then have "d2 = c'" using d2(1) assms(2) by simp
    then have "weaker S d c" using d2(2) assms(5) weaker_count(1) by metis
    then show ?thesis using assms(3,4) True by blast
  next
    case False
    then have "k_policies K1 p = Some d2" using d2(1) assms(2) by simp
    moreover have "policies_le K (K\<lparr>k_policies := (\<lambda>_. None)(p \<mapsto> d)\<rparr>)"
      by (rule policies_le_trans [OF assms(1)]) (use calculation d2(2) in \<open>simp add: policies_le_def\<close>)
    ultimately show ?thesis unfolding policies_le_def by simp
  qed
qed

lemma policies_from_le: "policies_le K K' \<Longrightarrow> policies_from S A K K'"
  unfolding policies_le_def policies_from_def by blast

lemma policy_free_release:
  assumes "k_policies K b = Some c" and "sp_ref_count c = 1"
  shows "sched_policy_cap_release (Some b) K = Some (policy_free b K)"
  using assms by (simp add: sched_policy_cap_release_def policy_free_def)

lemma child_count [simp]: "sp_ref_count (granted_child pid requested) = 1"
  by (simp add: granted_child_def Let_def)

text \<open>The part of a grant after the authority has been found.\<close>

lemma derive_ok:
  assumes ok: "kernel_ok K1 (ext + {#KPolicy a#})" and le: "policies_le K K1"
    and c: "k_policies K a = Some c" and t: "k_tasks K1 target = Some t" "length (t_handles t) < 2 ^ 30"
    and found: "task_sched_policy_from_handle (Some owner) handle TASK_RIGHT_SEND K = Some (Some a, K1)"
    and new: "\<forall>b. k_policies K1 b = None \<longrightarrow> k_policies K b = None"
  shows "\<exists>h K'. sched_policy_grant S (Some owner) handle (Some target) (Some requested) K = Some (h, K') \<and>
    kernel_ok K' ext \<and> policies_from S {c} K K'"
proof -
  let ?child = "granted_child (t_pid t) requested"
  obtain parent where parent: "k_policies K1 a = Some parent" using ext_alive [OF ok] by auto
  then have par: "parent = c\<lparr>sp_ref_count := sp_ref_count parent\<rparr>"
    using le c unfolding policies_le_def by fastforce
  have one: "sp_ref_count ?child = 1" by simp
  show ?thesis
  proof (cases rule: policy_alloc_cases [OF ok one, case_names none block])
    case (none K2)
    obtain K3 where K3: "sched_policy_cap_release (Some a) K2 = Some K3" "kernel_ok K3 ext"
      using policy_release_ok [OF none(2)] by blast
    have "policies_le K K3"
      using policies_le_trans [OF le] none(4) release_policies(1) [OF K3(1)] by (simp add: policies_le_def)
    then show ?thesis
      using K3 none(1) found t(1) by (simp add: sched_policy_grant_def policies_from_le)
  next
    case (block b K2)
    have ab: "k_policies K2 a = Some parent" "k_policies K2 b = Some ?child"
      using block(4,5) parent by auto
    show ?thesis
    proof (cases "sched_policy_is_attenuated S parent ?child")
      case False
      note fr = policy_free_release [OF ab(2) one]
      have "kernel_ok (policy_free b K2) (ext + {#KPolicy a#})"
        using policy_release_ok [OF block(2)] fr by auto
      then obtain K3 where K3: "sched_policy_cap_release (Some a) (policy_free b K2) = Some K3" "kernel_ok K3 ext"
        using policy_release_ok by blast
      have "k_policies (policy_free b K2) = k_policies K1"
        using block(4,5) by (simp add: policy_free_def fun_upd_idem)
      then have "policies_le K K3"
        using policies_le_trans [OF le] release_policies(1) [OF K3(1)] by (simp add: policies_le_def)
      then show ?thesis
        using K3 block(1) found t(1) ab False by (simp add: sched_policy_grant_def policies_from_le)
    next
      case True
      have "alive K2 (KPolicy b)" "room K2 (KPolicy b)" using ab(2) by (auto simp: room_def)
      moreover have "TASK_RIGHT_SEND OR TASK_RIGHT_DUP \<noteq> (0 :: u32)" by simp
      moreover have "k_tasks K2 target = Some t" using t(1) block(3) by simp
      ultimately obtain h K3 where K3: "kernel_ok K3 (ext + {#KPolicy a#} + {#KPolicy b#})"
        "task_grant_sched_policy (Some target) (Some b) (TASK_RIGHT_SEND OR TASK_RIGHT_DUP) K2 = Some (h, K3)"
        using task_grant_sched_policy_ok [OF block(2) _ t(2)] by blast
      obtain K4 where K4: "sched_policy_cap_release (Some b) K3 = Some K4" "kernel_ok K4 (ext + {#KPolicy a#})"
        using policy_release_ok [OF K3(1)] by blast
      obtain K5 where K5: "sched_policy_cap_release (Some a) K4 = Some K5" "kernel_ok K5 ext"
        using policy_release_ok [OF K4(2)] by blast
      have "policies_le K2 K5"
        by (rule policies_le_trans [OF policies_le_trans [OF grant_policies [OF K3(2)]
              release_policies(1) [OF K4(1)]] release_policies(1) [OF K5(1)]])
      moreover have "weaker S ?child c"
        using attenuated_weaker [OF True] par weaker_count(2) by metis
      ultimately have "policies_from S {c} K K5"
        by (intro policies_fromI [OF le block(4) new [rule_format, OF block(5)]]) simp_all
      moreover have "sched_policy_grant S (Some owner) handle (Some target) (Some requested) K = Some (h, K5)"
        using block(1) found t(1) ab(1) True K3(2) K4(1) K5(1) by (simp add: sched_policy_grant_def)
      ultimately show ?thesis using K5(2) by blast
    qed
  qed
qed

text \<open>The lookup that every policy call starts with.\<close>

lemma find_authority:
  assumes ok: "kernel_ok K ext" and room: "\<forall>x. room K x" and t: "k_tasks K owner = Some t"
  obtains (none) K1 where "task_sched_policy_from_handle (Some owner) handle TASK_RIGHT_SEND K = Some (None, K1)"
      and "kernel_ok K1 ext" and "policies_le K K1"
  | (found) a c K1 where
      "task_sched_policy_from_handle (Some owner) handle TASK_RIGHT_SEND K = Some (Some a, K1)"
      and "kernel_ok K1 (ext + {#KPolicy a#})" and "policies_le K K1" and "k_tasks K1 = k_tasks K"
      and "k_tasks_by_pid K1 = k_tasks_by_pid K" and "k_policies K a = Some c"
      and "authority_of K owner handle c" and "\<forall>b. k_policies K1 b = None \<longrightarrow> k_policies K b = None"
      and "k_kernel_task K1 = k_kernel_task K"
proof -
  let ?r = "looks_up TASK_HANDLE_SCHED_POLICY owner handle TASK_RIGHT_SEND K"
  obtain K1 where K1: "task_sched_policy_from_handle (Some owner) handle TASK_RIGHT_SEND K = Some (?r, K1)"
    "kernel_ok K1 (ext + handle_obj TASK_HANDLE_SCHED_POLICY ?r)" "alive K1 = alive K"
    using object_from_handle_ok [OF ok t, of TASK_HANDLE_SCHED_POLICY handle TASK_RIGHT_SEND] room
    by (auto simp: task_sched_policy_from_handle_def handle_room_def)
  note pol = policy_from_handle [OF K1(1)]
  show thesis
  proof (cases ?r)
    case None
    then show ?thesis using none [of K1] K1 pol by (simp add: handle_obj_def)
  next
    case (Some a)
    have oka: "kernel_ok K1 (ext + {#KPolicy a#})" using K1(2) Some by (simp add: handle_obj_def)
    have same: "k_policies K1 b = None \<longleftrightarrow> k_policies K b = None" for b
      using K1(3) by (metis alive.simps(5))
    then obtain c where c: "k_policies K a = Some c"
      using ext_alive [OF oka] by (metis alive.simps(5) not_None_eq)
    then have "authority_of K owner handle c"
      using pol(5) [OF Some] by (auto simp: authority_of_def)
    then show ?thesis using found [of a K1 c] K1(1) Some oka pol same c by simp
  qed
qed

text \<open>The small kernel, with a policy over one processor as the third handle of \<^verbatim>\<open>init\<close>.\<close>

definition system_policy :: sched_policy_cap where
  "system_policy =
     \<lparr>sp_ref_count = 1, sp_target_kind = 5, sp_rights = 63, sp_delegation_depth = 8, sp_target_id = 0,
      sp_class_mask = all_classes, sp_min_priority = 0, sp_max_priority = 255, sp_min_weight = 1,
      sp_max_weight = 65535, sp_cpu_mask = 1\<rparr>"

definition policy_kernel :: kstate where
  "policy_kernel =
     set_task 1 (plain_task 1 ''init'' 1 (init_handles[2 := fill_handle TASK_HANDLE_SCHED_POLICY 1 12 empty_handle]))
       (set_policy 12 system_policy (sample_kernel\<lparr>k_next_addr := 13\<rparr>))"

lemma policy_kernel_ok: "kernel_ok policy_kernel sample_refs"
proof -
  have "kernel_ok (set_policy 12 system_policy (sample_kernel\<lparr>k_next_addr := 13\<rparr>))
      (sample_refs + handle_obj TASK_HANDLE_SCHED_POLICY (Some 12))"
    using new_policy_ok [OF sample_ok, of 12 system_policy]
    by (simp add: sample_fields system_policy_def handle_obj_def)
  then show ?thesis
    unfolding policy_kernel_def
    by (rule place_handle_ok [where i = 2 and rights = 1 and tr = "plain_task 1 ''init'' 1 init_handles"])
      (simp_all add: sample_simps init_handles_def empty_handle_def)
qed

lemma policy_kernel_room: "\<forall>x. room policy_kernel x"
proof
  show "room policy_kernel x" for x
    by (cases x) (simp_all add: room_def policy_kernel_def sample_simps system_policy_def split: if_splits)
qed

text \<open>
  C5. Granting a scheduling policy always returns, keeps the reference counts, and gives no
  one more than the granter has: every policy afterwards is one that existed before with at
  most its count changed, or a new one derived from the policy that the granter's handle names
  with the right to send. The latter has the right to delegate, the new one has fewer levels of
  delegation left and only rights of the other, and every setting of class, priority, weight,
  processors and target that it allows is allowed by the other.
\<close>

theorem policy_grant_attenuates:
  assumes "kernel_ok K ext" and "\<forall>x. room K x" and "k_tasks K owner = Some t1"
    and "k_tasks K target = Some t2" and "length (t_handles t2) < 2 ^ 30"
  shows "\<exists>h K'. sched_policy_grant S (Some owner) handle (Some target) (Some requested) K = Some (h, K') \<and>
    kernel_ok K' ext \<and> policies_from S {c. authority_of K owner handle c} K K'"
proof (cases rule: find_authority [OF assms(1-3), of handle, case_names none found])
  case (none K1)
  then show ?thesis
    by (simp add: sched_policy_grant_def policies_from_le)
next
  case (found a c K1)
  have t: "k_tasks K1 target = Some t2" using assms(4) found(4) by simp
  have "policies_from S {c} K K' \<Longrightarrow> policies_from S {c. authority_of K owner handle c} K K'" for K'
    using found(7) unfolding policies_from_def by blast
  then show ?thesis
    using derive_ok [OF found(2,3,6) t assms(5) found(1,8), of S requested] by blast
qed

theorem policy_grant_attenuates_witness:
  "\<exists>h K'. sched_policy_grant (sched_static (\<lambda>_. initial_kernel_task 1) []) (Some 1) 3 (Some 2)
       (Some (system_policy\<lparr>sp_rights := 1, sp_delegation_depth := 7, sp_target_kind := 1\<rparr>)) policy_kernel = Some (h, K') \<and>
     kernel_ok K' sample_refs \<and>
     policies_from (sched_static (\<lambda>_. initial_kernel_task 1) []) {c. authority_of policy_kernel 1 3 c} policy_kernel K'"
  by (rule policy_grant_attenuates [OF policy_kernel_ok policy_kernel_room,
        of 1 "plain_task 1 ''init'' 1 (init_handles[2 := fill_handle TASK_HANDLE_SCHED_POLICY 1 12 empty_handle])"
          2 "plain_task 2 ''shell'' 2 []"])
    (simp_all add: policy_kernel_def sample_simps)


section \<open>Settings\<close>






end
