(* ===== verification/Spec2Isabelle.thy ===== *)
theory Spec2Isabelle
  imports Pmm_Spec Trees_Spec Vm_Regions_Spec Ipc_Spec Sched_Spec Sched_Policy_Spec
begin

text \<open>
  A verification development for the bunix kernel.

  Bunix is a small operating system in C: a kernel under \<^verbatim>\<open>src/kernel\<close> (frame
  allocator, slab allocator, address spaces, tasks and threads, handles, ports and message
  passing, boot information), architecture code under \<^verbatim>\<open>src/arch\<close>, and servers in
  user space under \<^verbatim>\<open>src/user\<close>. The theories follow the kernel's source files.

  \<^item> \<^verbatim>\<open>Bunix_Prelude\<close>: machine words, \<^verbatim>\<open>align_up\<close> and \<^verbatim>\<open>align_down\<close>, page ranges.
  \<^item> \<^verbatim>\<open>Pmm\<close>, \<^verbatim>\<open>Pmm_Proofs\<close>, \<^verbatim>\<open>Pmm_Init\<close>, \<^verbatim>\<open>Pmm_Spec\<close>: the physical frame
    allocator \<^verbatim>\<open>src/kernel/pmm.c\<close>.
\<close>

end
